(* ===== verification/Prelude.thy ===== *)
theory Prelude
  imports Main "HOL-Library.Word" "HOL-Library.AList"
begin

text \<open>
  Shared vocabulary of the development: machine integers, saturating arithmetic, byte
  strings, the Rust standard-library containers the agent uses (\<open>HashMap\<close>, \<open>VecDeque\<close>),
  and the interfaces (locales) several components promise to their clients:
  \<^item> \<open>map_laws\<close>: what a lookup returns after an insert, a remove or a retain, and
    how the length moves;
  \<^item> \<open>ttl_store\<close>: a map whose entries carry the instant of their last use and that
    is swept by age;
  \<^item> \<open>ttl_cache\<close>: a bounded cache that makes room by age before it inserts;
  \<^item> \<open>rolling_window\<close>: a queue of stamped samples pruned from its front;
  \<^item> \<open>capped_registry\<close>: a map of at most \<open>cap\<close> keys with one overflow key;
  \<^item> \<open>keyed_machine\<close>: an aged map with one state machine per key, whose outputs for a key depend
    on that key's events only.

  An \<open>Instant\<close> is a number of nanoseconds (\<open>nat\<close>); Rust's \<open>duration_since\<close>
  saturates at zero, which is subtraction on \<open>nat\<close>.
\<close>

unbundle bit_operations_syntax

section \<open>Types\<close>

type_synonym u8 = "8 word"
type_synonym u16 = "16 word"
type_synonym u32 = "32 word"
type_synonym u64 = "64 word"
type_synonym i32 = "32 word"
type_synonym i64 = "64 word"
type_synonym bytes = "u8 list"
type_synonym instant = nat

named_theorems agent_defs "definitions of the model unfolded together"

section \<open>Integers\<close>

text \<open>Signed machine integers are words read through \<open>sint\<close>.\<close>

abbreviation is_neg :: "'a::len word \<Rightarrow> bool" where
  "is_neg w \<equiv> sint w < 0"

definition sat_sub :: "'a::len word \<Rightarrow> 'a word \<Rightarrow> 'a word" where
  "sat_sub a b = (if a < b then 0 else a - b)"

definition sat_add :: "'a::len word \<Rightarrow> 'a word \<Rightarrow> 'a word" where
  "sat_add a b = (if unat a + unat b < 2 ^ LENGTH('a) then a + b else - 1)"

definition secs :: "nat \<Rightarrow> nat" where
  "secs n = n * 1000000000"

section \<open>Byte strings\<close>

definition starts_with :: "'a list \<Rightarrow> 'a list \<Rightarrow> bool" where
  "starts_with s p \<longleftrightarrow> take (length p) s = p"

text \<open>A byte-string literal \<open>b"..."\<close>, and the bytes of a valid UTF-8 string read as a
  string (one \<open>char\<close> per byte).\<close>

definition bstr :: "string \<Rightarrow> bytes" where
  "bstr s = map of_char s"

definition str_of_bytes :: "bytes \<Rightarrow> string" where
  "str_of_bytes b = map (\<lambda>w. char_of (unat w)) b"

text \<open>\<open>[0u8; n]\<close> with its first bytes copied from \<open>b\<close> (\<open>copy_from_slice\<close>).\<close>

definition zero_padded :: "nat \<Rightarrow> bytes \<Rightarrow> bytes" where
  "zero_padded n b = b @ replicate (n - length b) 0"

text \<open>\<open>slice::windows(n)\<close>, for positive \<open>n\<close>.\<close>

definition windows :: "nat \<Rightarrow> 'a list \<Rightarrow> 'a list list" where
  "windows n xs = map (\<lambda>i. take n (drop i xs)) [0..<Suc (length xs) - n]"

section \<open>HashMap\<close>

text \<open>
  A \<open>std::collections::HashMap\<close> is an association list with distinct keys. Its iteration
  order, which Rust leaves unspecified, is the order of the list.
\<close>

type_synonym ('k, 'v) hashmap = "('k \<times> 'v) list"

definition hm_get :: "('k, 'v) hashmap \<Rightarrow> 'k \<Rightarrow> 'v option" where
  "hm_get m k = map_of m k"

definition hm_insert :: "'k \<Rightarrow> 'v \<Rightarrow> ('k, 'v) hashmap \<Rightarrow> ('k, 'v) hashmap" where
  "hm_insert k v m = AList.update k v m"

definition hm_remove :: "'k \<Rightarrow> ('k, 'v) hashmap \<Rightarrow> ('k, 'v) hashmap" where
  "hm_remove k m = AList.delete k m"

definition hm_retain :: "('k \<Rightarrow> 'v \<Rightarrow> bool) \<Rightarrow> ('k, 'v) hashmap \<Rightarrow> ('k, 'v) hashmap" where
  "hm_retain P m = filter (\<lambda>(k, v). P k v) m"

definition hm_contains :: "('k, 'v) hashmap \<Rightarrow> 'k \<Rightarrow> bool" where
  "hm_contains m k \<longleftrightarrow> map_of m k \<noteq> None"

definition hm_wf :: "('k, 'v) hashmap \<Rightarrow> bool" where
  "hm_wf m \<longleftrightarrow> distinct (map fst m)"

text \<open>\<open>map.entry(k).or_insert(d)\<close> followed by an update of the slot.\<close>

definition hm_entry :: "'k \<Rightarrow> 'v \<Rightarrow> ('v \<Rightarrow> 'v) \<Rightarrow> ('k, 'v) hashmap \<Rightarrow> ('k, 'v) hashmap" where
  "hm_entry k d f m = hm_insert k (f (case hm_get m k of None \<Rightarrow> d | Some v \<Rightarrow> v)) m"

section \<open>Lemmas on integers and lists\<close>

lemma unat_sat_sub [simp]: "unat (sat_sub a b) = unat a - unat b"
  by (auto simp: sat_sub_def unat_sub word_le_nat_alt word_less_nat_alt)

lemma sat_sub_le: "sat_sub a b \<le> a"
  by (simp add: word_le_nat_alt)

lemma unat_sat_add: "unat (sat_add a b) = min (unat a + unat b) (2 ^ LENGTH('a) - 1)"
  for a b :: "'a::len word"
proof (cases "unat a + unat b < 2 ^ LENGTH('a)")
  case True
  then show ?thesis
    by (simp add: sat_add_def unat_add_lem [THEN iffD1])
next
  case False
  then show ?thesis
    by (simp add: sat_add_def unsigned_minus_1_eq_mask mask_eq_exp_minus_1)
qed

lemma unat_ucast_up:
  "LENGTH('a) \<le> LENGTH('b) \<Longrightarrow> unat (ucast (x :: 'a::len word) :: 'b::len word) = unat x"
  by (metis unsigned_ucast_eq take_bit_nat_eq_self unsigned_less order_less_le_trans
      power_increasing one_le_numeral)

lemma u8_less: "unat b < 256" for b :: u8
  using unsigned_less [of b] by simp

lemma unat_pos_sint: "0 < sint w \<Longrightarrow> unat w = nat (sint w)" for w :: "'a::len word"
proof -
  assume "0 < sint w"
  moreover have "sint w < 2 ^ LENGTH('a)"
    by (rule order_less_le_trans [OF sint_less]) simp
  ultimately have "uint w = sint w"
    by (simp add: uint_sint take_bit_int_eq_self)
  then show ?thesis
    by (metis nat_uint_eq)
qed

lemma starts_with_nil [simp]: "starts_with s []"
  by (simp add: starts_with_def)

lemma starts_with_Cons [simp]:
  "starts_with (x # s) (y # p) \<longleftrightarrow> x = y \<and> starts_with s p"
  "\<not> starts_with [] (y # p)"
  by (auto simp: starts_with_def)

lemma starts_with_append: "starts_with s p \<Longrightarrow> starts_with (s @ t) p"
  by (metis append_take_drop_id starts_with_def append_assoc append_eq_conv_conj)

lemma starts_with_length: "starts_with s p \<Longrightarrow> length p \<le> length s"
  by (metis starts_with_def length_take min.cobounded1)

lemma starts_with_hd: "starts_with s (y # p) \<Longrightarrow> s \<noteq> [] \<and> hd s = y"
  by (cases s) auto

lemma length_bstr [simp]: "length (bstr s) = length s"
  by (simp add: bstr_def)

lemma length_str_of_bytes [simp]: "length (str_of_bytes b) = length b"
  by (simp add: str_of_bytes_def)

lemma unat_of_char_u8: "unat (of_char c :: u8) = of_char c"
proof -
  have "(of_char c :: u8) = of_nat (of_char c)"
    by (simp only: of_nat_of_char)
  then show ?thesis
    by (simp only: unat_of_nat) (simp add: take_bit_eq_mod)
qed

lemma str_of_bytes_bstr [simp]: "str_of_bytes (bstr s) = s"
  by (simp add: str_of_bytes_def bstr_def unat_of_char_u8 comp_def)

lemma length_zero_padded [simp]: "length b \<le> n \<Longrightarrow> length (zero_padded n b) = n"
  by (simp add: zero_padded_def)

lemma take_zero_padded [simp]: "take (length b) (zero_padded n b) = b"
  by (simp add: zero_padded_def)

lemma windows_ex: "list_ex (\<lambda>w. w = p) (windows (length p) xs) \<longleftrightarrow> (\<exists>u v. xs = u @ p @ v)" if "p \<noteq> []"
proof
  assume "list_ex (\<lambda>w. w = p) (windows (length p) xs)"
  then obtain i where "take (length p) (drop i xs) = p"
    by (auto simp: windows_def list_ex_iff dest: sym)
  then show "\<exists>u v. xs = u @ p @ v"
    by (metis append_take_drop_id)
next
  assume "\<exists>u v. xs = u @ p @ v"
  then obtain u v where "xs = u @ p @ v"
    by blast
  then have "length u \<in> {0..<Suc (length xs) - length p}" "take (length p) (drop (length u) xs) = p"
    by auto
  then show "list_ex (\<lambda>w. w = p) (windows (length p) xs)"
    unfolding windows_def list_ex_iff by force
qed

section \<open>The map interface\<close>

locale map_laws =
  fixes get :: "'m \<Rightarrow> 'k \<Rightarrow> 'v option"
    and ins :: "'k \<Rightarrow> 'v \<Rightarrow> 'm \<Rightarrow> 'm"
    and rem :: "'k \<Rightarrow> 'm \<Rightarrow> 'm"
    and ret :: "('k \<Rightarrow> 'v \<Rightarrow> bool) \<Rightarrow> 'm \<Rightarrow> 'm"
    and len :: "'m \<Rightarrow> nat"
    and wf :: "'m \<Rightarrow> bool"
  assumes get_ins: "get (ins k v m) k' = (if k' = k then Some v else get m k')"
    and get_rem: "get (rem k m) k' = (if k' = k then None else get m k')"
    and get_ret: "wf m \<Longrightarrow> get (ret P m) k =
      (case get m k of None \<Rightarrow> None | Some v \<Rightarrow> if P k v then Some v else None)"
    and len_ins: "wf m \<Longrightarrow> len (ins k v m) = (if get m k = None then Suc (len m) else len m)"
    and len_rem: "len (rem k m) \<le> len m"
    and len_ret: "len (ret P m) \<le> len m"
    and wf_ins: "wf m \<Longrightarrow> wf (ins k v m)"
    and wf_rem: "wf m \<Longrightarrow> wf (rem k m)"
    and wf_ret: "wf m \<Longrightarrow> wf (ret P m)"
begin

lemma ins_bounded:
  "wf m \<Longrightarrow> len m \<le> cap \<Longrightarrow> get m k \<noteq> None \<or> len m < cap \<Longrightarrow> len (ins k v m) \<le> cap"
  by (auto simp: len_ins)

lemma get_ins_same: "get (ins k v m) k = Some v"
  by (simp add: get_ins)

lemma rem_then_ins: "get (ins k v (rem k m)) k' = get (ins k v m) k'"
  by (simp add: get_ins get_rem)

end

lemma map_of_filter_distinct:
  "distinct (map fst m) \<Longrightarrow> map_of (filter (\<lambda>(k, v). P k v) m) k =
    (case map_of m k of None \<Rightarrow> None | Some v \<Rightarrow> if P k v then Some v else None)"
proof (induction m)
  case (Cons e m)
  obtain a b where e: "e = (a, b)"
    by force
  have "map_of m a = None"
    using Cons.prems by (simp add: e map_of_eq_None_iff)
  then show ?case
    using Cons by (auto simp: e split: option.splits)
qed simp

lemma length_update_alist:
  "length (AList.update k v m) = (if map_of m k = None then Suc (length m) else length m)"
  by (induction m) auto

lemma length_delete_alist: "length (AList.delete k m) \<le> length m"
  by (simp add: AList.delete_eq)

lemma distinct_map_fst_filter: "distinct (map fst m) \<Longrightarrow> distinct (map fst (filter P m))"
  by (induction m) auto

interpretation hm: map_laws hm_get hm_insert hm_remove hm_retain length hm_wf
proof unfold_locales
  fix m :: "('k, 'v) hashmap" and P k
  show "hm_wf m \<Longrightarrow> hm_get (hm_retain P m) k =
      (case hm_get m k of None \<Rightarrow> None | Some v \<Rightarrow> if P k v then Some v else None)"
    by (simp add: hm_wf_def hm_get_def hm_retain_def map_of_filter_distinct)
qed (auto simp: hm_get_def hm_insert_def hm_remove_def hm_retain_def hm_wf_def
    update_conv' delete_conv' length_update_alist length_delete_alist distinct_update
    distinct_delete distinct_map_fst_filter)

declare hm.get_ins [simp] hm.get_rem [simp] hm.wf_ins [simp] hm.wf_rem [simp] hm.wf_ret [simp]

lemma hm_empty [simp]: "hm_wf []" "hm_get [] k = None"
  by (simp_all add: hm_wf_def hm_get_def)

lemma hm_contains_get: "hm_contains m k \<longleftrightarrow> hm_get m k \<noteq> None"
  by (simp add: hm_contains_def hm_get_def)

lemma hm_get_entry [simp]:
  "hm_get (hm_entry k d f m) k' =
    (if k' = k then Some (f (case hm_get m k of None \<Rightarrow> d | Some v \<Rightarrow> v)) else hm_get m k')"
  by (simp add: hm_entry_def)

lemma hm_wf_entry [simp]: "hm_wf m \<Longrightarrow> hm_wf (hm_entry k d f m)"
  by (simp add: hm_entry_def)

lemma hm_len_entry:
  "hm_wf m \<Longrightarrow> length (hm_entry k d f m) = (if hm_get m k = None then Suc (length m) else length m)"
  by (simp add: hm_entry_def hm.len_ins)

lemma hm_entry_sum:
  assumes "\<And>v. g (f v) = g v + c" "g d = (0 :: nat)"
  shows "(\<Sum>kv\<leftarrow>hm_entry k d f m. g (snd kv)) = (\<Sum>kv\<leftarrow>m. g (snd kv)) + c"
proof -
  have "(\<Sum>kv\<leftarrow>AList.update k (f (case map_of m k of None \<Rightarrow> d | Some v \<Rightarrow> v)) m. g (snd kv)) =
      (\<Sum>kv\<leftarrow>m. g (snd kv)) + c"
    using assms by (induction m) auto
  then show ?thesis
    by (simp add: hm_entry_def hm_get_def hm_insert_def)
qed

lemma hm_get_in_set: "hm_get m k = Some v \<Longrightarrow> (k, v) \<in> set m"
  by (simp add: hm_get_def map_of_SomeD)

lemma hm_in_set_get: "hm_wf m \<Longrightarrow> (k, v) \<in> set m \<longleftrightarrow> hm_get m k = Some v"
  by (simp add: hm_wf_def hm_get_def)

lemma hm_insert_all:
  "\<forall>(k, v) \<in> set m. Q k v \<Longrightarrow> Q k v \<Longrightarrow> \<forall>(k, v) \<in> set (hm_insert k v m). Q k v"
  unfolding hm_insert_def by (induction m) auto

lemma hm_remove_insert [simp]: "hm_remove k (hm_insert k v m) = hm_remove k m"
  by (simp add: hm_remove_def hm_insert_def delete_update_same)

lemma hm_remove_set: "set (hm_remove k m) \<subseteq> set m"
  by (auto simp: hm_remove_def AList.delete_eq)

lemma hm_retain_set: "set (hm_retain P m) = {(k, v) \<in> set m. P k v}"
  by (auto simp: hm_retain_def)

section \<open>Stores swept by age\<close>

locale ttl_store =
  fixes stamp :: "'v \<Rightarrow> instant"
    and ttl :: nat
    and sweep :: "instant \<Rightarrow> ('k, 'v) hashmap \<Rightarrow> ('k, 'v) hashmap"
  assumes sweep_retain: "sweep now m = hm_retain (\<lambda>_ v. now - stamp v \<le> ttl) m"
begin

lemma sweep_wf: "hm_wf m \<Longrightarrow> hm_wf (sweep now m)"
  by (simp add: sweep_retain)

lemma get_sweep:
  "hm_wf m \<Longrightarrow> hm_get (sweep now m) k =
    (case hm_get m k of None \<Rightarrow> None | Some v \<Rightarrow> if now - stamp v \<le> ttl then Some v else None)"
  by (simp add: sweep_retain hm.get_ret)

lemma sweep_fresh: "(k, v) \<in> set (sweep now m) \<Longrightarrow> now - stamp v \<le> ttl"
  by (auto simp: sweep_retain hm_retain_set)

lemma sweep_subset: "set (sweep now m) \<subseteq> set m"
  by (auto simp: sweep_retain hm_retain_set)

lemma sweep_length: "length (sweep now m) \<le> length m"
  by (simp add: sweep_retain hm.len_ret)

lemma sweep_absorbs: "t \<le> t' \<Longrightarrow> sweep t' (sweep t m) = sweep t' m"
  by (auto simp: sweep_retain hm_retain_def intro!: filter_cong)

lemma sweep_keeps: "hm_wf m \<Longrightarrow> hm_get m k = Some v \<Longrightarrow> now \<le> stamp v + ttl \<Longrightarrow>
    hm_get (sweep now m) k = Some v"
  by (simp add: get_sweep)

end

section \<open>Caches that make room by age\<close>

text \<open>What the agent's caches do before an insert: at the cap, drop what is too old; if that was not
  enough, drop everything.\<close>

definition make_room :: "('v \<Rightarrow> instant) \<Rightarrow> nat \<Rightarrow> nat \<Rightarrow> instant \<Rightarrow> ('k, 'v) hashmap \<Rightarrow> ('k, 'v) hashmap" where
  "make_room stamp ttl cap now m =
    (let m = (if length m \<ge> cap then hm_retain (\<lambda>_ v. now - stamp v \<le> ttl) m else m)
     in if length m \<ge> cap then [] else m)"

locale ttl_cache =
  fixes stamp :: "'v \<Rightarrow> instant"
    and ttl :: nat
    and cap :: nat
    and put :: "instant \<Rightarrow> 'k \<Rightarrow> 'v \<Rightarrow> ('k, 'v) hashmap \<Rightarrow> ('k, 'v) hashmap"
  assumes put_eq: "put now k v m = hm_insert k v (make_room stamp ttl cap now m)"
    and cap_pos: "0 < cap"
begin

lemma room_wf: "hm_wf m \<Longrightarrow> hm_wf (make_room stamp ttl cap now m)"
  by (simp add: make_room_def Let_def)

lemma room_length: "length (make_room stamp ttl cap now m) < cap"
  using cap_pos by (auto simp: make_room_def Let_def)

lemma room_get: "hm_wf m \<Longrightarrow> hm_get (make_room stamp ttl cap now m) k = Some v \<Longrightarrow> hm_get m k = Some v"
  by (auto simp: make_room_def Let_def hm.get_ret split: if_splits option.splits)

lemma put_wf: "hm_wf m \<Longrightarrow> hm_wf (put now k v m)"
  by (simp add: put_eq room_wf)

lemma put_bounded: "hm_wf m \<Longrightarrow> length (put now k v m) \<le> cap"
  using room_length [of now m] by (simp add: put_eq hm.len_ins room_wf)

lemma put_get: "hm_wf m \<Longrightarrow> hm_get (put now k v m) k' = Some v' \<Longrightarrow>
    (k' = k \<and> v' = v) \<or> (k' \<noteq> k \<and> hm_get m k' = Some v')"
  using room_get by (auto simp: put_eq split: if_splits)

lemma put_same: "hm_get (put now k v m) k = Some v"
  by (simp add: put_eq)

end

section \<open>Rolling windows\<close>

locale rolling_window =
  fixes stamp :: "'a \<Rightarrow> instant"
    and window :: nat
    and prune :: "instant \<Rightarrow> 'a list \<Rightarrow> 'a list"
  assumes prune_dropWhile: "prune now q = dropWhile (\<lambda>s. now - stamp s > window) q"
begin

lemma prune_suffix: "\<exists>p. q = p @ prune now q"
  by (metis prune_dropWhile takeWhile_dropWhile_id)

lemma prune_subset: "set (prune now q) \<subseteq> set q"
  by (auto simp: prune_dropWhile dest: set_dropWhileD)

lemma prune_sorted: "sorted (map stamp q) \<Longrightarrow> sorted (map stamp (prune now q))"
  by (metis prune_suffix map_append sorted_append)

lemma prune_is_filter:
  "sorted (map stamp q) \<Longrightarrow> prune now q = filter (\<lambda>s. now - stamp s \<le> window) q"
proof (induction q)
  case (Cons s q)
  show ?case
  proof (cases "now - stamp s > window")
    case False
    moreover have "\<forall>x \<in> set q. now - stamp x \<le> window"
      using False Cons.prems by fastforce
    ultimately show ?thesis
      by (simp add: prune_dropWhile)
  qed (use Cons in \<open>simp add: prune_dropWhile\<close>)
qed (simp add: prune_dropWhile)

lemma push_sorted:
  "sorted (map stamp q) \<Longrightarrow> \<forall>s \<in> set q. stamp s \<le> stamp x \<Longrightarrow> sorted (map stamp (q @ [x]))"
  by (simp add: sorted_append)

lemma prune_push_last: "stamp x = now \<Longrightarrow> \<exists>q'. prune now (q @ [x]) = q' @ [x]"
  by (induction q) (auto simp: prune_dropWhile)

lemma prune_filter:
  "t \<le> now \<Longrightarrow> filter (\<lambda>s. now - stamp s \<le> window) (prune t q) = filter (\<lambda>s. now - stamp s \<le> window) q"
  by (induction q) (auto simp: prune_dropWhile)

lemma prune_absorbs: "t \<le> t' \<Longrightarrow> prune t' (prune t q) = prune t' q"
  by (induction q) (auto simp: prune_dropWhile)

end

section \<open>Registries with one overflow key\<close>

locale capped_registry =
  fixes entries :: "'s \<Rightarrow> ('k, 'v) hashmap"
    and key :: "'r \<Rightarrow> 'k"
    and other :: 'k
    and cap :: nat
    and step :: "'s \<Rightarrow> 'r \<Rightarrow> 's"
  assumes step_wf: "hm_wf (entries s) \<Longrightarrow> hm_wf (entries (step s r))"
    and step_get: "hm_get (entries (step s r)) k = None \<longleftrightarrow> hm_get (entries s) k = None \<and>
      k \<noteq> (if hm_get (entries s) (key r) = None \<and> cap \<le> length (entries s) then other else key r)"
    and step_len: "hm_wf (entries s) \<Longrightarrow> length (entries (step s r)) =
      (let k = (if hm_get (entries s) (key r) = None \<and> cap \<le> length (entries s)
                then other else key r)
       in if hm_get (entries s) k = None then Suc (length (entries s)) else length (entries s))"
begin

definition capped :: "'s \<Rightarrow> bool" where
  "capped s \<longleftrightarrow> hm_wf (entries s) \<and>
    length (entries s) \<le> cap + (if hm_get (entries s) other = None then 0 else 1)"

lemma capped_step: "capped s \<Longrightarrow> capped (step s r)"
  by (auto simp: capped_def step_wf step_get step_len Let_def split: if_splits)

lemma capped_foldl: "capped s \<Longrightarrow> capped (foldl step s rs)"
  by (induction rs arbitrary: s) (auto simp: capped_step)

lemma capped_bound: "capped s \<Longrightarrow> length (entries s) \<le> cap + 1"
  by (auto simp: capped_def split: if_splits)

lemma foldl_bound:
  "hm_wf (entries s) \<Longrightarrow> length (entries s) \<le> cap \<Longrightarrow> length (entries (foldl step s rs)) \<le> cap + 1"
  by (intro capped_bound capped_foldl) (simp add: capped_def)

end

section \<open>State machines keyed by connection\<close>

text \<open>The outputs of a machine along a history of timed events.\<close>

primrec mtrace :: "('e \<Rightarrow> instant \<Rightarrow> 's \<Rightarrow> 'o option \<times> 's) \<Rightarrow> 's \<Rightarrow> ('e \<times> instant) list \<Rightarrow> ('e \<times> 'o option) list" where
  "mtrace step s [] = []"
| "mtrace step s (et # h) =
    (case step (fst et) (snd et) s of (r, s') \<Rightarrow> (fst et, r) # mtrace step s' h)"

primrec mfinal :: "('e \<Rightarrow> instant \<Rightarrow> 's \<Rightarrow> 'o option \<times> 's) \<Rightarrow> 's \<Rightarrow> ('e \<times> instant) list \<Rightarrow> 's" where
  "mfinal step s [] = s"
| "mfinal step s (et # h) = mfinal step (snd (step (fst et) (snd et) s)) h"

definition outputs :: "('e \<Rightarrow> bool) \<Rightarrow> ('e \<times> 'o option) list \<Rightarrow> 'o option list" where
  "outputs P tr = map snd (filter (\<lambda>x. P (fst x)) tr)"

lemma outputs_simps [simp]:
  "outputs P [] = []" "outputs P (x # tr) = (if P (fst x) then snd x # outputs P tr else outputs P tr)"
  by (simp_all add: outputs_def)

lemma mfinal_append: "mfinal step s (h @ h') = mfinal step (mfinal step s h) h'"
  by (induction h arbitrary: s) auto

locale keyed_machine =
  fixes entries :: "'s \<Rightarrow> ('k, 'v) hashmap"
    and stamp :: "'v \<Rightarrow> instant"
    and ttl :: nat
    and key :: "'e \<Rightarrow> 'k option"
    and local :: "'e \<Rightarrow> instant \<Rightarrow> 'v option \<Rightarrow> 'o option \<times> 'v option"
    and step :: "'e \<Rightarrow> instant \<Rightarrow> 's \<Rightarrow> 'o option \<times> 's"
  assumes step_out: "hm_wf (entries s) \<Longrightarrow> fst (step e now s) = (case key e of None \<Rightarrow> None
      | Some k \<Rightarrow> fst (local e now (hm_get (hm_retain (\<lambda>_ v. now - stamp v \<le> ttl) (entries s)) k)))"
    and step_get: "hm_wf (entries s) \<Longrightarrow> hm_get (entries (snd (step e now s))) k =
      (let old = hm_get (hm_retain (\<lambda>_ v. now - stamp v \<le> ttl) (entries s)) k
       in if key e = Some k then snd (local e now old) else old)"
    and step_wf: "hm_wf (entries s) \<Longrightarrow> hm_wf (entries (snd (step e now s)))"
begin

lemma mfinal_wf: "hm_wf (entries s) \<Longrightarrow> hm_wf (entries (mfinal step s h))"
  by (induction h arbitrary: s) (auto simp: step_wf)

text \<open>\<open>s\<close> saw every event up to \<open>t\<close>, \<open>s'\<close> only those of key \<open>k\<close>.\<close>

definition agree :: "'k \<Rightarrow> instant \<Rightarrow> 's \<Rightarrow> 's \<Rightarrow> bool" where
  "agree k t s s' \<longleftrightarrow> hm_wf (entries s) \<and> hm_wf (entries s') \<and>
    (\<forall>now \<ge> t. hm_get (hm_retain (\<lambda>_ v. now - stamp v \<le> ttl) (entries s)) k =
      hm_get (hm_retain (\<lambda>_ v. now - stamp v \<le> ttl) (entries s')) k)"

lemma agree_same:
  assumes "agree k t s s'" "t \<le> now" "key e = Some k"
  shows "fst (step e now s) = fst (step e now s')" "agree k now (snd (step e now s)) (snd (step e now s'))"
proof -
  have w: "hm_wf (entries s)" "hm_wf (entries s')"
    and g: "hm_get (hm_retain (\<lambda>_ v. now - stamp v \<le> ttl) (entries s)) k =
      hm_get (hm_retain (\<lambda>_ v. now - stamp v \<le> ttl) (entries s')) k"
    using assms by (auto simp: agree_def)
  show "fst (step e now s) = fst (step e now s')"
    using step_out [OF w(1), of e now] step_out [OF w(2), of e now] assms(3) g by simp
  show "agree k now (snd (step e now s)) (snd (step e now s'))"
    using w g assms(3) by (simp add: agree_def step_wf hm.get_ret step_get Let_def del: hm.get_ret)
      (simp add: hm.get_ret step_wf step_get Let_def)
qed

lemma agree_other:
  assumes "agree k t s s'" "t \<le> now" "key e \<noteq> Some k"
  shows "agree k now (snd (step e now s)) s'"
proof -
  have w: "hm_wf (entries s)" "hm_wf (entries s')"
    using assms by (auto simp: agree_def)
  have "hm_get (hm_retain (\<lambda>_ v. u - stamp v \<le> ttl) (entries (snd (step e now s)))) k =
      hm_get (hm_retain (\<lambda>_ v. u - stamp v \<le> ttl) (entries s)) k" if "now \<le> u" for u
    using w that assms(3)
    by (auto simp: hm.get_ret step_wf step_get Let_def split: option.split)
  then show ?thesis
    using assms w by (auto simp: agree_def step_wf)
qed

lemma isolated_from:
  "agree k t s s' \<Longrightarrow> sorted (t # map snd h) \<Longrightarrow>
    outputs (\<lambda>e. key e = Some k) (mtrace step s h) =
    outputs (\<lambda>_. True) (mtrace step s' (filter (\<lambda>et. key (fst et) = Some k) h))"
proof (induction h arbitrary: t s s')
  case (Cons et h)
  obtain e now where et: "et = (e, now)"
    by (cases et)
  have t: "t \<le> now" "sorted (now # map snd h)"
    using Cons.prems(2) et by auto
  show ?case
  proof (cases "key e = Some k")
    case True
    note a = agree_same [OF Cons.prems(1) t(1) True]
    show ?thesis
      using Cons.IH [OF a(2) t(2)] a(1) True et by (simp add: case_prod_unfold)
  next
    case False
    show ?thesis
      using Cons.IH [OF agree_other [OF Cons.prems(1) t(1) False] t(2)] False et
      by (simp add: case_prod_unfold)
  qed
qed simp

lemma isolated:
  "hm_wf (entries s) \<Longrightarrow> sorted (map snd h) \<Longrightarrow>
    outputs (\<lambda>e. key e = Some k) (mtrace step s h) =
    outputs (\<lambda>_. True) (mtrace step s (filter (\<lambda>et. key (fst et) = Some k) h))"
  by (rule isolated_from [of k 0]) (simp_all add: agree_def)

end

end
