(* ===== verification/Abi.thy ===== *)
theory Abi
  imports Prelude
begin

text \<open>
  The kernel/userspace ABI of \<open>src/common/src/lib.rs\<close>: constants, event kinds, the
  \<open>repr(C)\<close> records that travel through the ring buffers, the \<open>SockMeta\<close> value of the
  per-descriptor map and its flag arithmetic, and the bound on copied prefixes. A fixed
  array \<open>[u8; n]\<close> is a byte list whose length is part of the record's well-formedness;
  \<open>to_ne_bytes\<close> is little-endian, the byte order of the targets the probes are built for.
\<close>

section \<open>Constants\<close>

definition EVENTS_RINGBUF_BYTES :: u32 where "EVENTS_RINGBUF_BYTES = 256 * 1024"

definition STACKS_RINGBUF_BYTES :: u32 where "STACKS_RINGBUF_BYTES = 128 * 1024"

definition STACK_SAMPLE_MAX_FRAMES :: nat where "STACK_SAMPLE_MAX_FRAMES = 8"

definition PROFILE_STORE_CAP :: nat where "PROFILE_STORE_CAP = 8192"

definition PROFILE_STORE_TTL_SECS :: nat where "PROFILE_STORE_TTL_SECS = 2"

definition PROFILE_MIN_LATENCY_NS_DEFAULT :: u64 where
  "PROFILE_MIN_LATENCY_NS_DEFAULT = 20000000"

definition PROFILE_TOP_FRAMES :: nat where "PROFILE_TOP_FRAMES = 5"

definition PENDING_MAP_ENTRIES :: nat where "PENDING_MAP_ENTRIES = 8192"

definition DENIED_TGID_ENTRIES :: nat where "DENIED_TGID_ENTRIES = PENDING_MAP_ENTRIES"

definition ALLOWED_TGID_ENTRIES :: nat where "ALLOWED_TGID_ENTRIES = PENDING_MAP_ENTRIES"

definition AF_INET :: u16 where "AF_INET = 2"

definition AF_INET6 :: u16 where "AF_INET6 = 10"

definition SOCK_IO_PREFIX_LEN :: nat where "SOCK_IO_PREFIX_LEN = 256"

definition IO_BUF_LEN_UNBOUNDED :: u32 where "IO_BUF_LEN_UNBOUNDED = - 1"

section \<open>Copy bound and HTTP magic\<close>

definition io_copy_len :: "i64 \<Rightarrow> u32 \<Rightarrow> u16" where
  "io_copy_len ret buf_len =
    (if sint ret \<le> 0 \<or> buf_len = 0 then 0
     else
       let n = (ret :: u64);
           n = (if n > ucast buf_len then ucast buf_len else n);
           n = (if n > of_nat SOCK_IO_PREFIX_LEN then of_nat SOCK_IO_PREFIX_LEN else n)
       in ucast n)"

definition http_magic :: "bytes \<Rightarrow> u16 \<Rightarrow> bool" where
  "http_magic prefix len =
    (let n = min (unat len) (length prefix);
         s = take n prefix
     in starts_with s (bstr ''GET '')
      \<or> starts_with s (bstr ''POST '')
      \<or> starts_with s (bstr ''PUT '')
      \<or> starts_with s (bstr ''HEAD '')
      \<or> starts_with s (bstr ''DELETE '')
      \<or> starts_with s (bstr ''OPTIONS '')
      \<or> starts_with s (bstr ''PATCH '')
      \<or> starts_with s (bstr ''HTTP/'')
      \<or> starts_with s (bstr ''PRI ''))"

section \<open>Event kinds and directions\<close>

datatype EventKind = Connect | Accept | SockIo | TlsIo | SockIoTimes | TlsHandshake | StackSample

primrec EventKind_u8 :: "EventKind \<Rightarrow> u8" where
  "EventKind_u8 Connect = 1"
| "EventKind_u8 Accept = 2"
| "EventKind_u8 SockIo = 3"
| "EventKind_u8 TlsIo = 4"
| "EventKind_u8 SockIoTimes = 5"
| "EventKind_u8 TlsHandshake = 6"
| "EventKind_u8 StackSample = 7"

definition EventKind_from_u8 :: "u8 \<Rightarrow> EventKind option" where
  "EventKind_from_u8 v =
    (if v = 1 then Some Connect
     else if v = 2 then Some Accept
     else if v = 3 then Some SockIo
     else if v = 4 then Some TlsIo
     else if v = 5 then Some SockIoTimes
     else if v = 6 then Some TlsHandshake
     else if v = 7 then Some StackSample
     else None)"

datatype IoDir = Read | Write

primrec IoDir_u8 :: "IoDir \<Rightarrow> u8" where
  "IoDir_u8 Read = 1"
| "IoDir_u8 Write = 2"

definition IoDir_from_u8 :: "u8 \<Rightarrow> IoDir option" where
  "IoDir_from_u8 v = (if v = 1 then Some Read else if v = 2 then Some Write else None)"

section \<open>Ring-buffer records\<close>

record SockLatencyEvent =
  sl_kind :: u8
  sl_pad0 :: bytes
  sl_pid :: u32
  sl_tgid :: u32
  sl_ret :: i64
  sl_latency_ns :: u64
  sl_ts_ns :: u64
  sl_daddr_be :: u32
  sl_dport_be :: u16
  sl_pad1 :: u16

record SockIoEvent =
  io_kind :: u8
  io_dir :: u8
  io_prefix_len :: u16
  io_fd :: i32
  io_pid :: u32
  io_tgid :: u32
  io_ret :: i64
  io_ts_ns :: u64
  io_cgroup_id :: u64
  io_prefix :: bytes

type_synonym TlsIoEvent = SockIoEvent

record SockIoTimesEvent =
  st_kind :: u8
  st_dir :: u8
  st_pad :: u16
  st_fd :: i32
  st_pid :: u32
  st_tgid :: u32
  st_ret :: i64
  st_ts_ns :: u64

record TlsHandshakeEvent =
  hs_kind :: u8
  hs_pad0 :: bytes
  hs_pid :: u32
  hs_tgid :: u32
  hs_fd :: i32
  hs_pad1 :: u32
  hs_ret :: i64
  hs_latency_ns :: u64
  hs_ts_ns :: u64

record StackSampleEvent =
  ss_kind :: u8
  ss_pad0 :: bytes
  ss_tgid :: u32
  ss_pid :: u32
  ss_ts_ns :: u64
  ss_frame_count :: u8
  ss_pad1 :: bytes
  ss_ips :: "u64 list"

definition SOCK_LATENCY_EVENT_SIZE :: nat where "SOCK_LATENCY_EVENT_SIZE = 48"

definition SOCK_IO_EVENT_SIZE :: nat where "SOCK_IO_EVENT_SIZE = 296"

definition TLS_IO_EVENT_SIZE :: nat where "TLS_IO_EVENT_SIZE = SOCK_IO_EVENT_SIZE"

definition SOCK_IO_TIMES_EVENT_SIZE :: nat where "SOCK_IO_TIMES_EVENT_SIZE = 32"

definition TLS_HANDSHAKE_EVENT_SIZE :: nat where "TLS_HANDSHAKE_EVENT_SIZE = 48"

definition STACK_SAMPLE_EVENT_SIZE :: nat where "STACK_SAMPLE_EVENT_SIZE = 96"

section \<open>Per-descriptor metadata\<close>

record SockMeta =
  m_family :: u8
  m_flags :: u8
  m_dport_be :: u16
  m_daddr :: bytes
  m_pad :: bytes

datatype SockMetaKeep = Unmarked | Decided bool | Undecided

definition FLAG_HAS_ADDR :: u8 where "FLAG_HAS_ADDR = 1"

definition FLAG_SAMPLE_DECIDED :: u8 where "FLAG_SAMPLE_DECIDED = 2"

definition FLAG_KEEP_IO :: u8 where "FLAG_KEEP_IO = 4"

definition io_sampled_keep :: "SockMeta \<Rightarrow> bool option" where
  "io_sampled_keep m =
    (if m_flags m AND FLAG_SAMPLE_DECIDED = 0 then None
     else Some (m_flags m AND FLAG_KEEP_IO \<noteq> 0))"

definition set_io_keep :: "SockMeta \<Rightarrow> bool \<Rightarrow> SockMeta" where
  "set_io_keep m keep =
    (let f = m_flags m AND NOT (FLAG_SAMPLE_DECIDED OR FLAG_KEEP_IO);
         f = f OR FLAG_SAMPLE_DECIDED;
         f = (if keep then f OR FLAG_KEEP_IO else f)
     in m\<lparr>m_flags := f\<rparr>)"

text \<open>Little-endian bytes of a word and back (\<open>to_ne_bytes\<close>, \<open>from_ne_bytes\<close>).\<close>

primrec le_bytes :: "nat \<Rightarrow> 'a::len word \<Rightarrow> bytes" where
  "le_bytes 0 x = []"
| "le_bytes (Suc n) x = ucast x # le_bytes n (drop_bit 8 x)"

primrec from_le :: "bytes \<Rightarrow> 'a::len word" where
  "from_le [] = 0"
| "from_le (b # bs) = ucast b OR push_bit 8 (from_le bs)"

definition with_peer_v4 :: "u32 \<Rightarrow> u16 \<Rightarrow> SockMeta" where
  "with_peer_v4 daddr_be dport_be =
    \<lparr>m_family = ucast AF_INET, m_flags = FLAG_HAS_ADDR, m_dport_be = dport_be,
     m_daddr = zero_padded 16 (le_bytes 4 daddr_be), m_pad = replicate 4 0\<rparr>"

definition with_peer_v6 :: "bytes \<Rightarrow> u16 \<Rightarrow> SockMeta" where
  "with_peer_v6 daddr dport_be =
    \<lparr>m_family = ucast AF_INET6, m_flags = FLAG_HAS_ADDR, m_dport_be = dport_be,
     m_daddr = daddr, m_pad = replicate 4 0\<rparr>"

definition has_addr :: "SockMeta \<Rightarrow> bool" where
  "has_addr m \<longleftrightarrow> m_flags m AND FLAG_HAS_ADDR \<noteq> 0"

definition keep_from_lookup :: "SockMeta option \<Rightarrow> SockMetaKeep" where
  "keep_from_lookup meta =
    (case meta of
       None \<Rightarrow> Unmarked
     | Some m \<Rightarrow> (case io_sampled_keep m of Some keep \<Rightarrow> Decided keep | None \<Rightarrow> Undecided))"

definition merge_peer_preserve_sample :: "SockMeta \<Rightarrow> SockMeta option \<Rightarrow> SockMeta" where
  "merge_peer_preserve_sample m old =
    (case old of
       None \<Rightarrow> m
     | Some old \<Rightarrow>
         if io_sampled_keep old \<noteq> None
         then m\<lparr>m_flags := (m_flags m AND FLAG_HAS_ADDR)
                OR (m_flags old AND (FLAG_SAMPLE_DECIDED OR FLAG_KEEP_IO))\<rparr>
         else m)"

definition v4_addr :: "SockMeta \<Rightarrow> u32 option" where
  "v4_addr m = (if m_family m = ucast AF_INET then Some (from_le (take 4 (m_daddr m))) else None)"

definition SOCK_META_SIZE :: nat where "SOCK_META_SIZE = 24"

section \<open>Enter-side records\<close>

record PendingEnter =
  pe_ts_ns :: u64
  pe_daddr_be :: u32
  pe_dport_be :: u16
  pe_has_addr :: u8
  pe_sockaddr_ptr :: u64

record PendingIo =
  pi_buf_ptr :: u64
  pi_buf_len :: u32
  pi_fd :: i32
  pi_dir :: u8
  pi_timing_only :: u8

record PendingTls =
  pt_buf_ptr :: u64
  pt_ssl_ptr :: u64
  pt_outlen_ptr :: u64
  pt_dir :: u8

section \<open>Lemmas\<close>

lemma length_le_bytes [simp]: "length (le_bytes n x) = n"
  by (induction n arbitrary: x) auto

lemma from_le_le_bytes: "from_le (le_bytes n x) = take_bit (8 * n) x"
proof (induction n arbitrary: x)
  case (Suc n)
  show ?case
    by (rule bit_word_eqI)
      (auto simp: Suc bit_simps not_less dest: le_Suc_ex)
qed simp

lemma from_le_le_bytes_full [simp]: "LENGTH('a) \<le> 8 * n \<Longrightarrow> from_le (le_bytes n x) = (x :: 'a::len word)"
  by (simp add: from_le_le_bytes take_bit_word_eq_self)

lemma take_bit_word_unat: "unat x < 2 ^ n \<Longrightarrow> take_bit n x = x" for x :: "'a::len word"
  by (metis take_bit_nat_eq_self unsigned_take_bit_eq unsigned_word_eqI)

lemma unat_take_bit_less: "unat (take_bit n x) < 2 ^ n" for x :: "'a::len word"
  by (simp add: unsigned_take_bit_eq)

lemma bit_from_le_bound: "bit (from_le bs) i \<Longrightarrow> i < 8 * length bs"
proof (induction bs arbitrary: i)
  case (Cons b bs)
  show ?case
    using Cons.IH [of "i - 8"] Cons.prems by (cases "i < 8") (auto simp: bit_simps dest: bit_imp_le_length)
qed simp

lemma unat_from_le_less: "unat (from_le bs :: 'a::len word) < 2 ^ (8 * length bs)"
proof -
  have "take_bit (8 * length bs) (from_le bs :: 'a word) = from_le bs"
    by (rule bit_word_eqI) (auto simp: bit_simps dest: bit_from_le_bound)
  then show ?thesis
    by (metis unat_take_bit_less)
qed

lemma from_le_append_zero: "from_le (bs @ replicate n 0) = from_le bs"
proof (induction bs)
  case Nil
  show ?case
    by (induction n) auto
qed simp

lemma and_flag_bit:
  "f AND 1 = 0 \<longleftrightarrow> \<not> bit f 0" "f AND 2 = 0 \<longleftrightarrow> \<not> bit f 1" "f AND 4 = 0 \<longleftrightarrow> \<not> bit f 2"
  for f :: u8
  using and_exp_eq_0_iff_not_bit [of f 0] and_exp_eq_0_iff_not_bit [of f 1]
    and_exp_eq_0_iff_not_bit [of f 2] by simp_all

lemmas flag_simps = FLAG_HAS_ADDR_def FLAG_SAMPLE_DECIDED_def FLAG_KEEP_IO_def and_flag_bit
  bit_simps

lemma sampled_set_io_keep [simp]: "io_sampled_keep (set_io_keep m keep) = Some keep"
  by (auto simp: io_sampled_keep_def set_io_keep_def flag_simps Let_def)

lemma has_addr_set_io_keep [simp]: "has_addr (set_io_keep m keep) = has_addr m"
  by (auto simp: has_addr_def set_io_keep_def flag_simps Let_def)

lemma sampled_with_peer [simp]:
  "io_sampled_keep (with_peer_v4 a p) = None" "io_sampled_keep (with_peer_v6 d p) = None"
  by (simp_all add: io_sampled_keep_def with_peer_v4_def with_peer_v6_def flag_simps)

lemma v4_addr_with_peer_v4 [simp]: "v4_addr (with_peer_v4 a p) = Some a"
  by (simp add: v4_addr_def with_peer_v4_def zero_padded_def)

lemma EventKind_roundtrip [simp]: "EventKind_from_u8 (EventKind_u8 k) = Some k"
  by (cases k) (simp_all add: EventKind_from_u8_def)

lemma EventKind_from_u8_Some: "EventKind_from_u8 v = Some k \<Longrightarrow> v = EventKind_u8 k"
  by (auto simp: EventKind_from_u8_def split: if_splits)

lemma IoDir_roundtrip [simp]: "IoDir_from_u8 (IoDir_u8 d) = Some d"
  by (cases d) (simp_all add: IoDir_from_u8_def)

lemma IoDir_from_u8_Some: "IoDir_from_u8 v = Some d \<Longrightarrow> v = IoDir_u8 d"
  by (auto simp: IoDir_from_u8_def split: if_splits)

lemma merge_io_sampled_keep:
  "io_sampled_keep old = Some k \<Longrightarrow> io_sampled_keep (merge_peer_preserve_sample m (Some old)) = Some k"
  by (auto simp: merge_peer_preserve_sample_def io_sampled_keep_def flag_simps split: if_splits)

lemma merge_has_addr: "has_addr (merge_peer_preserve_sample m old) = has_addr m"
  by (auto simp: merge_peer_preserve_sample_def has_addr_def flag_simps split: option.splits)

lemma merge_peer_fields:
  "m_family (merge_peer_preserve_sample m old) = m_family m"
  "m_dport_be (merge_peer_preserve_sample m old) = m_dport_be m"
  "m_daddr (merge_peer_preserve_sample m old) = m_daddr m"
  by (auto simp: merge_peer_preserve_sample_def split: option.splits)

lemma unat_io_copy_len:
  "unat (io_copy_len ret buf_len) =
    (if sint ret \<le> 0 then 0 else min (min (nat (sint ret)) (unat buf_len)) SOCK_IO_PREFIX_LEN)"
proof (cases "sint ret \<le> 0 \<or> buf_len = 0")
  case True
  then show ?thesis
    by (auto simp: io_copy_len_def)
next
  case False
  let ?n = "if ret > ucast buf_len then ucast buf_len else ret"
  let ?m = "if ?n > 256 then 256 else ?n"
  have "unat ?n = min (nat (sint ret)) (unat buf_len)"
    using False unat_pos_sint [of ret] by (auto simp: word_less_nat_alt unat_ucast_up)
  then have m: "unat ?m = min (min (nat (sint ret)) (unat buf_len)) 256"
    by (auto simp: word_less_nat_alt)
  then have "unat ?m \<le> 256"
    by simp
  then have "unat (ucast ?m :: u16) = unat ?m"
    by (simp add: unsigned_ucast_eq take_bit_nat_eq_self)
  moreover have "io_copy_len ret buf_len = ucast ?m"
    using False by (simp add: io_copy_len_def SOCK_IO_PREFIX_LEN_def Let_def)
  ultimately show ?thesis
    using False m by (simp add: SOCK_IO_PREFIX_LEN_def)
qed

end
