(* ===== verification/Decode.thy ===== *)
theory Decode
  imports Abi
begin

text \<open>
  Ring-buffer demultiplexing: \<open>src/agent/src/decode.rs\<close> and
  \<open>src/agent/src/stack_decode.rs\<close>. \<open>core::ptr::read_unaligned\<close> at a \<open>repr(C)\<close> type is a
  read of each field at its offset (\<open>read_\<close>... below); the probes write the same layouts
  (\<open>write_\<close>...). The locale \<open>event_codec\<close> states the contract between the two sides, and
  every layout interprets it.
\<close>

section \<open>Struct layouts\<close>

definition field :: "nat \<Rightarrow> nat \<Rightarrow> bytes \<Rightarrow> bytes" where
  "field off n b = take n (drop off b)"

definition rd :: "nat \<Rightarrow> nat \<Rightarrow> bytes \<Rightarrow> 'a::len word" where
  "rd off n b = from_le (field off n b)"

definition read_SockLatencyEvent :: "bytes \<Rightarrow> SockLatencyEvent" where
  "read_SockLatencyEvent b =
    \<lparr>sl_kind = rd 0 1 b, sl_pad0 = field 1 7 b, sl_pid = rd 8 4 b, sl_tgid = rd 12 4 b,
     sl_ret = rd 16 8 b, sl_latency_ns = rd 24 8 b, sl_ts_ns = rd 32 8 b,
     sl_daddr_be = rd 40 4 b, sl_dport_be = rd 44 2 b, sl_pad1 = rd 46 2 b\<rparr>"

definition write_SockLatencyEvent :: "SockLatencyEvent \<Rightarrow> bytes" where
  "write_SockLatencyEvent e =
    le_bytes 1 (sl_kind e) @ sl_pad0 e @ le_bytes 4 (sl_pid e) @ le_bytes 4 (sl_tgid e)
    @ le_bytes 8 (sl_ret e) @ le_bytes 8 (sl_latency_ns e) @ le_bytes 8 (sl_ts_ns e)
    @ le_bytes 4 (sl_daddr_be e) @ le_bytes 2 (sl_dport_be e) @ le_bytes 2 (sl_pad1 e)"

definition read_SockIoEvent :: "bytes \<Rightarrow> SockIoEvent" where
  "read_SockIoEvent b =
    \<lparr>io_kind = rd 0 1 b, io_dir = rd 1 1 b, io_prefix_len = rd 2 2 b, io_fd = rd 4 4 b,
     io_pid = rd 8 4 b, io_tgid = rd 12 4 b, io_ret = rd 16 8 b, io_ts_ns = rd 24 8 b,
     io_cgroup_id = rd 32 8 b, io_prefix = field 40 SOCK_IO_PREFIX_LEN b\<rparr>"

definition write_SockIoEvent :: "SockIoEvent \<Rightarrow> bytes" where
  "write_SockIoEvent e =
    le_bytes 1 (io_kind e) @ le_bytes 1 (io_dir e) @ le_bytes 2 (io_prefix_len e)
    @ le_bytes 4 (io_fd e) @ le_bytes 4 (io_pid e) @ le_bytes 4 (io_tgid e)
    @ le_bytes 8 (io_ret e) @ le_bytes 8 (io_ts_ns e) @ le_bytes 8 (io_cgroup_id e)
    @ io_prefix e"

definition read_SockIoTimesEvent :: "bytes \<Rightarrow> SockIoTimesEvent" where
  "read_SockIoTimesEvent b =
    \<lparr>st_kind = rd 0 1 b, st_dir = rd 1 1 b, st_pad = rd 2 2 b, st_fd = rd 4 4 b,
     st_pid = rd 8 4 b, st_tgid = rd 12 4 b, st_ret = rd 16 8 b, st_ts_ns = rd 24 8 b\<rparr>"

definition write_SockIoTimesEvent :: "SockIoTimesEvent \<Rightarrow> bytes" where
  "write_SockIoTimesEvent e =
    le_bytes 1 (st_kind e) @ le_bytes 1 (st_dir e) @ le_bytes 2 (st_pad e)
    @ le_bytes 4 (st_fd e) @ le_bytes 4 (st_pid e) @ le_bytes 4 (st_tgid e)
    @ le_bytes 8 (st_ret e) @ le_bytes 8 (st_ts_ns e)"

definition read_TlsHandshakeEvent :: "bytes \<Rightarrow> TlsHandshakeEvent" where
  "read_TlsHandshakeEvent b =
    \<lparr>hs_kind = rd 0 1 b, hs_pad0 = field 1 7 b, hs_pid = rd 8 4 b, hs_tgid = rd 12 4 b,
     hs_fd = rd 16 4 b, hs_pad1 = rd 20 4 b, hs_ret = rd 24 8 b, hs_latency_ns = rd 32 8 b,
     hs_ts_ns = rd 40 8 b\<rparr>"

definition write_TlsHandshakeEvent :: "TlsHandshakeEvent \<Rightarrow> bytes" where
  "write_TlsHandshakeEvent e =
    le_bytes 1 (hs_kind e) @ hs_pad0 e @ le_bytes 4 (hs_pid e) @ le_bytes 4 (hs_tgid e)
    @ le_bytes 4 (hs_fd e) @ le_bytes 4 (hs_pad1 e) @ le_bytes 8 (hs_ret e)
    @ le_bytes 8 (hs_latency_ns e) @ le_bytes 8 (hs_ts_ns e)"

text \<open>\<open>StackSampleEvent\<close> has four bytes of implicit padding before its \<open>u64\<close> array.\<close>

definition read_StackSampleEvent :: "bytes \<Rightarrow> StackSampleEvent" where
  "read_StackSampleEvent b =
    \<lparr>ss_kind = rd 0 1 b, ss_pad0 = field 1 7 b, ss_tgid = rd 8 4 b, ss_pid = rd 12 4 b,
     ss_ts_ns = rd 16 8 b, ss_frame_count = rd 24 1 b, ss_pad1 = field 25 3 b,
     ss_ips = map (\<lambda>i. rd (32 + 8 * i) 8 b) [0..<STACK_SAMPLE_MAX_FRAMES]\<rparr>"

definition write_StackSampleEvent :: "StackSampleEvent \<Rightarrow> bytes" where
  "write_StackSampleEvent e =
    le_bytes 1 (ss_kind e) @ ss_pad0 e @ le_bytes 4 (ss_tgid e) @ le_bytes 4 (ss_pid e)
    @ le_bytes 8 (ss_ts_ns e) @ le_bytes 1 (ss_frame_count e) @ ss_pad1 e @ replicate 4 0
    @ concat (map (le_bytes 8) (ss_ips e))"

definition latency_wf :: "SockLatencyEvent \<Rightarrow> bool" where
  "latency_wf e \<longleftrightarrow> length (sl_pad0 e) = 7"

definition io_wf :: "SockIoEvent \<Rightarrow> bool" where
  "io_wf e \<longleftrightarrow> length (io_prefix e) = SOCK_IO_PREFIX_LEN"

definition handshake_wf :: "TlsHandshakeEvent \<Rightarrow> bool" where
  "handshake_wf e \<longleftrightarrow> length (hs_pad0 e) = 7"

definition stack_wf :: "StackSampleEvent \<Rightarrow> bool" where
  "stack_wf e \<longleftrightarrow> length (ss_pad0 e) = 7 \<and> length (ss_pad1 e) = 3
    \<and> length (ss_ips e) = STACK_SAMPLE_MAX_FRAMES"

text \<open>A record as the decoder hands it on: the prefix length is in range and the
  bytes after it are zero.\<close>

definition io_normal :: "SockIoEvent \<Rightarrow> bool" where
  "io_normal e \<longleftrightarrow> io_wf e \<and> unat (io_prefix_len e) \<le> SOCK_IO_PREFIX_LEN
    \<and> drop (unat (io_prefix_len e)) (io_prefix e)
      = replicate (SOCK_IO_PREFIX_LEN - unat (io_prefix_len e)) 0"

section \<open>Decoders\<close>

datatype DecodedEvent =
    DLatency SockLatencyEvent
  | DIo SockIoEvent
  | DTlsIo SockIoEvent
  | DSockIoTimes SockIoTimesEvent
  | DTlsHandshake TlsHandshakeEvent

primrec DecodedEvent_tgid :: "DecodedEvent \<Rightarrow> u32" where
  "DecodedEvent_tgid (DLatency ev) = sl_tgid ev"
| "DecodedEvent_tgid (DIo ev) = io_tgid ev"
| "DecodedEvent_tgid (DTlsIo ev) = io_tgid ev"
| "DecodedEvent_tgid (DSockIoTimes ev) = st_tgid ev"
| "DecodedEvent_tgid (DTlsHandshake ev) = hs_tgid ev"

primrec DecodedEvent_pid :: "DecodedEvent \<Rightarrow> u32" where
  "DecodedEvent_pid (DLatency ev) = sl_pid ev"
| "DecodedEvent_pid (DIo ev) = io_pid ev"
| "DecodedEvent_pid (DTlsIo ev) = io_pid ev"
| "DecodedEvent_pid (DSockIoTimes ev) = st_pid ev"
| "DecodedEvent_pid (DTlsHandshake ev) = hs_pid ev"

definition decode_io :: "bytes \<Rightarrow> EventKind \<Rightarrow> SockIoEvent option" where
  "decode_io b expect =
    (if length b < SOCK_IO_EVENT_SIZE then None
     else
       let ev = read_SockIoEvent b in
       if io_kind ev \<noteq> EventKind_u8 expect then None
       else
         let ev = (if unat (io_prefix_len ev) > SOCK_IO_PREFIX_LEN
                   then ev\<lparr>io_prefix_len := of_nat SOCK_IO_PREFIX_LEN\<rparr> else ev);
             n = unat (io_prefix_len ev)
         in Some (ev\<lparr>io_prefix := take n (io_prefix ev)
                      @ replicate (length (io_prefix ev) - n) 0\<rparr>))"

definition decode_event :: "bytes \<Rightarrow> DecodedEvent option" where
  "decode_event b =
    (case b of [] \<Rightarrow> None | b0 # _ \<Rightarrow>
     (case EventKind_from_u8 b0 of None \<Rightarrow> None | Some kind \<Rightarrow>
      (case kind of
         SockIo \<Rightarrow> map_option DIo (decode_io b SockIo)
       | TlsIo \<Rightarrow> map_option DTlsIo (decode_io b TlsIo)
       | SockIoTimes \<Rightarrow>
           if length b < SOCK_IO_TIMES_EVENT_SIZE then None
           else let ev = read_SockIoTimesEvent b in
             if st_kind ev \<noteq> EventKind_u8 kind then None else Some (DSockIoTimes ev)
       | TlsHandshake \<Rightarrow>
           if length b < TLS_HANDSHAKE_EVENT_SIZE then None
           else let ev = read_TlsHandshakeEvent b in
             if hs_kind ev \<noteq> EventKind_u8 kind then None else Some (DTlsHandshake ev)
       | StackSample \<Rightarrow> None
       | _ \<Rightarrow>
           if length b < SOCK_LATENCY_EVENT_SIZE then None
           else let ev = read_SockLatencyEvent b in
             if sl_kind ev \<noteq> EventKind_u8 kind then None else Some (DLatency ev))))"

definition decode_stack_sample :: "bytes \<Rightarrow> StackSampleEvent option" where
  "decode_stack_sample b =
    (if length b < STACK_SAMPLE_EVENT_SIZE then None
     else case b of [] \<Rightarrow> None | b0 # _ \<Rightarrow>
       if EventKind_from_u8 b0 \<noteq> Some StackSample then None
       else let ev = read_StackSampleEvent b in
         if unat (ss_frame_count ev) > STACK_SAMPLE_MAX_FRAMES then None else Some ev)"

section \<open>What the probes write\<close>

primrec encode_event :: "DecodedEvent \<Rightarrow> bytes" where
  "encode_event (DLatency ev) = write_SockLatencyEvent ev"
| "encode_event (DIo ev) = write_SockIoEvent ev"
| "encode_event (DTlsIo ev) = write_SockIoEvent ev"
| "encode_event (DSockIoTimes ev) = write_SockIoTimesEvent ev"
| "encode_event (DTlsHandshake ev) = write_TlsHandshakeEvent ev"

primrec event_wf :: "DecodedEvent \<Rightarrow> bool" where
  "event_wf (DLatency ev) =
    (latency_wf ev \<and> sl_kind ev \<in> {EventKind_u8 Connect, EventKind_u8 Accept})"
| "event_wf (DIo ev) = (io_normal ev \<and> io_kind ev = EventKind_u8 SockIo)"
| "event_wf (DTlsIo ev) = (io_normal ev \<and> io_kind ev = EventKind_u8 TlsIo)"
| "event_wf (DSockIoTimes ev) = (st_kind ev = EventKind_u8 SockIoTimes)"
| "event_wf (DTlsHandshake ev) = (handshake_wf ev \<and> hs_kind ev = EventKind_u8 TlsHandshake)"

primrec event_size :: "DecodedEvent \<Rightarrow> nat" where
  "event_size (DLatency ev) = SOCK_LATENCY_EVENT_SIZE"
| "event_size (DIo ev) = SOCK_IO_EVENT_SIZE"
| "event_size (DTlsIo ev) = TLS_IO_EVENT_SIZE"
| "event_size (DSockIoTimes ev) = SOCK_IO_TIMES_EVENT_SIZE"
| "event_size (DTlsHandshake ev) = TLS_HANDSHAKE_EVENT_SIZE"

section \<open>The codec contract\<close>

locale event_codec =
  fixes enc :: "'e \<Rightarrow> bytes"
    and dec :: "bytes \<Rightarrow> 'e"
    and size :: nat
    and wf :: "'e \<Rightarrow> bool"
  assumes length_enc: "wf e \<Longrightarrow> length (enc e) = size"
    and dec_enc: "wf e \<Longrightarrow> dec (enc e @ rest) = e"
begin

lemma enc_inj: "wf e \<Longrightarrow> wf e' \<Longrightarrow> enc e @ rest = enc e' @ rest' \<Longrightarrow> e = e'"
  using dec_enc [of e rest] dec_enc [of e' rest'] by metis

lemma dec_enc_exact: "wf e \<Longrightarrow> dec (enc e) = e"
  using dec_enc [of e "[]"] by simp

lemma not_short: "wf e \<Longrightarrow> \<not> length (enc e @ rest) < size"
  by (simp add: length_enc)

end

lemmas layout_simps = rd_def field_def take_append drop_append

interpretation latency: event_codec write_SockLatencyEvent read_SockLatencyEvent
  SOCK_LATENCY_EVENT_SIZE latency_wf
  by unfold_locales (auto simp: write_SockLatencyEvent_def read_SockLatencyEvent_def
      SOCK_LATENCY_EVENT_SIZE_def latency_wf_def layout_simps)

interpretation sock_io: event_codec write_SockIoEvent read_SockIoEvent SOCK_IO_EVENT_SIZE io_wf
  by unfold_locales (auto simp: write_SockIoEvent_def read_SockIoEvent_def
      SOCK_IO_EVENT_SIZE_def SOCK_IO_PREFIX_LEN_def io_wf_def layout_simps)

interpretation io_times: event_codec write_SockIoTimesEvent read_SockIoTimesEvent
  SOCK_IO_TIMES_EVENT_SIZE "\<lambda>_. True"
  by unfold_locales (auto simp: write_SockIoTimesEvent_def read_SockIoTimesEvent_def
      SOCK_IO_TIMES_EVENT_SIZE_def layout_simps)

interpretation handshake: event_codec write_TlsHandshakeEvent read_TlsHandshakeEvent
  TLS_HANDSHAKE_EVENT_SIZE handshake_wf
  by unfold_locales (auto simp: write_TlsHandshakeEvent_def read_TlsHandshakeEvent_def
      TLS_HANDSHAKE_EVENT_SIZE_def handshake_wf_def layout_simps)

lemma field_concat_le_bytes:
  "i < length xs \<Longrightarrow> take 8 (drop (8 * i) (concat (map (le_bytes 8) xs) @ rest)) = le_bytes 8 (xs ! i)"
proof (induction xs arbitrary: i)
  case (Cons x xs)
  then show ?case
    by (cases i) auto
qed simp

lemma field_drop_ips:
  "w = h @ concat (map (le_bytes 8) xs) \<Longrightarrow> length h = k \<Longrightarrow> i < length xs \<Longrightarrow>
    field (k + 8 * i) 8 (w @ rest) = le_bytes 8 (xs ! i)"
  using field_concat_le_bytes [of i xs rest] by (simp add: field_def del: take_append)

interpretation stack: event_codec write_StackSampleEvent read_StackSampleEvent
  STACK_SAMPLE_EVENT_SIZE stack_wf
proof unfold_locales
  fix e :: StackSampleEvent and rest
  assume wf: "stack_wf e"
  then have "length (concat (map (le_bytes 8) (ss_ips e))) = 64"
    by (simp add: stack_wf_def STACK_SAMPLE_MAX_FRAMES_def length_concat sum_list_triv comp_def)
  then show "length (write_StackSampleEvent e) = STACK_SAMPLE_EVENT_SIZE"
    using wf by (simp add: write_StackSampleEvent_def STACK_SAMPLE_EVENT_SIZE_def stack_wf_def)
  obtain h where h: "write_StackSampleEvent e = h @ concat (map (le_bytes 8) (ss_ips e))"
    "length h = 32"
    using wf by (simp add: write_StackSampleEvent_def stack_wf_def flip: append_assoc)
  have "map (\<lambda>i. rd (32 + 8 * i) 8 (write_StackSampleEvent e @ rest)) [0..<8] = ss_ips e"
    using wf by (intro nth_equalityI)
      (simp_all add: stack_wf_def STACK_SAMPLE_MAX_FRAMES_def rd_def field_drop_ips [OF h])
  then show "read_StackSampleEvent (write_StackSampleEvent e @ rest) = e"
    using wf by (auto simp: read_StackSampleEvent_def write_StackSampleEvent_def stack_wf_def
        STACK_SAMPLE_MAX_FRAMES_def layout_simps)
qed

section \<open>Decoder lemmas\<close>

lemma io_wf_read: "SOCK_IO_EVENT_SIZE \<le> length b \<Longrightarrow> io_wf (read_SockIoEvent b)"
  by (simp add: io_wf_def read_SockIoEvent_def field_def SOCK_IO_EVENT_SIZE_def
      SOCK_IO_PREFIX_LEN_def)

lemma decode_io_normal: "decode_io b k = Some e \<Longrightarrow> io_normal e \<and> io_kind e = EventKind_u8 k"
  using io_wf_read [of b]
  by (auto simp: decode_io_def io_normal_def io_wf_def Let_def SOCK_IO_PREFIX_LEN_def
      split: if_splits)

lemma take_encode: "event_size d \<le> n \<Longrightarrow> event_wf d \<Longrightarrow>
    take n (encode_event d @ rest) = encode_event d @ take (n - event_size d) rest"
  by (cases d) (auto simp: TLS_IO_EVENT_SIZE_def io_normal_def latency.length_enc
      sock_io.length_enc io_times.length_enc handshake.length_enc)

lemma io_normal_refill:
  assumes "io_normal e"
  shows "e\<lparr>io_prefix := take (unat (io_prefix_len e)) (io_prefix e)
    @ replicate (length (io_prefix e) - unat (io_prefix_len e)) 0\<rparr> = e"
proof -
  have "take (unat (io_prefix_len e)) (io_prefix e)
      @ replicate (length (io_prefix e) - unat (io_prefix_len e)) 0 = io_prefix e"
    using assms append_take_drop_id [of "unat (io_prefix_len e)" "io_prefix e"]
    by (simp add: io_normal_def io_wf_def)
  then show ?thesis
    by simp
qed

lemma decode_io_write:
  assumes "io_normal e" "io_kind e = EventKind_u8 k"
  shows "decode_io (write_SockIoEvent e @ rest) k = Some e"
proof -
  have "io_wf e" "\<not> unat (io_prefix_len e) > SOCK_IO_PREFIX_LEN"
    using assms by (simp_all add: io_normal_def)
  then show ?thesis
    using assms io_normal_refill [of e]
    by (simp add: decode_io_def sock_io.dec_enc sock_io.length_enc Let_def)
qed

lemma decode_event_kind:
  "b \<noteq> [] \<Longrightarrow> hd b = EventKind_u8 k \<Longrightarrow> decode_event b =
    (case k of
       SockIo \<Rightarrow> map_option DIo (decode_io b SockIo)
     | TlsIo \<Rightarrow> map_option DTlsIo (decode_io b TlsIo)
     | SockIoTimes \<Rightarrow>
         if length b < SOCK_IO_TIMES_EVENT_SIZE \<or> st_kind (read_SockIoTimesEvent b) \<noteq> EventKind_u8 k
         then None else Some (DSockIoTimes (read_SockIoTimesEvent b))
     | TlsHandshake \<Rightarrow>
         if length b < TLS_HANDSHAKE_EVENT_SIZE \<or> hs_kind (read_TlsHandshakeEvent b) \<noteq> EventKind_u8 k
         then None else Some (DTlsHandshake (read_TlsHandshakeEvent b))
     | StackSample \<Rightarrow> None
     | _ \<Rightarrow>
         if length b < SOCK_LATENCY_EVENT_SIZE \<or> sl_kind (read_SockLatencyEvent b) \<noteq> EventKind_u8 k
         then None else Some (DLatency (read_SockLatencyEvent b)))"
  by (cases b; cases k) (simp_all add: decode_event_def Let_def del: EventKind_u8.simps)

primrec event_kind :: "DecodedEvent \<Rightarrow> u8" where
  "event_kind (DLatency ev) = sl_kind ev"
| "event_kind (DIo ev) = io_kind ev"
| "event_kind (DTlsIo ev) = io_kind ev"
| "event_kind (DSockIoTimes ev) = st_kind ev"
| "event_kind (DTlsHandshake ev) = hs_kind ev"

lemma encode_hd: "encode_event d = event_kind d # tl (encode_event d)"
  by (cases d) (simp_all add: write_SockLatencyEvent_def write_SockIoEvent_def
      write_SockIoTimesEvent_def write_TlsHandshakeEvent_def)

lemma encode_hd_append: "encode_event d @ rest \<noteq> []" "hd (encode_event d @ rest) = event_kind d"
  by (subst encode_hd, simp)+

lemma take_encode_hd:
  "0 < n \<Longrightarrow> take n (encode_event d @ rest) \<noteq> []"
  "0 < n \<Longrightarrow> hd (take n (encode_event d @ rest)) = event_kind d"
  using encode_hd_append [of d rest] by (simp_all add: hd_take del: take_append)

lemma decode_encode_other: "event_wf d \<Longrightarrow> (\<forall>e. d \<noteq> DLatency e) \<Longrightarrow>
    decode_event (encode_event d @ rest) = Some d"
  using encode_hd_append [of d rest]
  by (cases d)
    (simp_all add: decode_event_kind decode_io_write io_times.dec_enc handshake.dec_enc
      io_times.length_enc handshake.length_enc del: EventKind_u8.simps append_is_Nil_conv)

lemma decode_encode: "event_wf d \<Longrightarrow> decode_event (encode_event d @ rest) = Some d"
proof (cases d)
  case (DLatency e)
  assume wf: "event_wf d"
  then obtain k where "sl_kind e = EventKind_u8 k" "k = Connect \<or> k = Accept" "latency_wf e"
    using DLatency by (auto simp del: EventKind_u8.simps)
  then show ?thesis
    using encode_hd_append [of d rest] DLatency
    by (auto simp: decode_event_kind latency.dec_enc latency.length_enc
        simp del: EventKind_u8.simps append_is_Nil_conv)
qed (use decode_encode_other [of d rest] in simp_all)

lemma decode_short_kind:
  "b \<noteq> [] \<Longrightarrow> event_wf d \<Longrightarrow> hd b = event_kind d \<Longrightarrow> length b < event_size d \<Longrightarrow> decode_event b = None"
  by (cases d) (auto simp: decode_event_kind decode_io_def TLS_IO_EVENT_SIZE_def
      simp del: EventKind_u8.simps)

lemma decode_short: "event_wf d \<Longrightarrow> n < event_size d \<Longrightarrow>
    decode_event (take n (encode_event d @ rest)) = None"
  using decode_short_kind [of "take n (encode_event d @ rest)" d] take_encode_hd [of n d rest]
  by (cases "n = 0") (simp_all add: decode_event_def del: take_append)

text \<open>C3. A ring-buffer record written by a probe and cut anywhere is decoded to exactly
  the event that was written when the cut leaves the whole record (whatever follows it), and
  rejected when it does not: the demultiplexer never invents a field.\<close>

theorem decode_event_roundtrip:
  "event_wf d \<Longrightarrow> decode_event (take n (encode_event d @ rest)) =
    (if n < event_size d then None else Some d)"
  by (simp add: decode_short take_encode decode_encode del: take_append)

definition demo_io :: SockIoEvent where
  "demo_io = \<lparr>io_kind = 3, io_dir = 2, io_prefix_len = 4, io_fd = 7, io_pid = 11, io_tgid = 10,
    io_ret = 4, io_ts_ns = 99, io_cgroup_id = 0, io_prefix = zero_padded 256 (bstr ''GET '')\<rparr>"

lemma demo_io_normal: "io_normal demo_io"
  by (simp add: demo_io_def io_normal_def io_wf_def SOCK_IO_PREFIX_LEN_def zero_padded_def bstr_def)

theorem decode_event_roundtrip_witness:
  "event_wf (DIo demo_io) \<and>
    decode_event (take 300 (encode_event (DIo demo_io) @ replicate 10 0)) = Some (DIo demo_io)"
  using decode_event_roundtrip [of "DIo demo_io" 300 "replicate 10 0"] demo_io_normal
  by (simp add: demo_io_def SOCK_IO_EVENT_SIZE_def)

text \<open>Every I/O event that leaves the decoder, whatever the bytes were, has a
  256-byte prefix array, a prefix length of at most 256 and zeros after it, so no consumer
  can index past the array or read stale bytes.\<close>

theorem decode_event_io_normal:
  "decode_event b = Some d \<Longrightarrow>
    (case d of DIo e \<Rightarrow> io_normal e \<and> io_kind e = EventKind_u8 SockIo
     | DTlsIo e \<Rightarrow> io_normal e \<and> io_kind e = EventKind_u8 TlsIo | _ \<Rightarrow> True)"
  by (auto simp: decode_event_def Let_def dest: decode_io_normal
      split: list.splits option.splits EventKind.splits if_splits)

theorem decode_event_io_normal_witness:
  "decode_event (encode_event (DIo demo_io)) = Some (DIo demo_io) \<and> io_normal demo_io"
  using decode_event_io_normal [of "encode_event (DIo demo_io)" "DIo demo_io"]
    decode_encode [of "DIo demo_io" "[]"] demo_io_normal
  by (simp add: demo_io_def)

lemma stack_hd: "hd (write_StackSampleEvent e) = ss_kind e" "write_StackSampleEvent e \<noteq> []"
  by (simp_all add: write_StackSampleEvent_def)

text \<open>Stack samples round-trip as well, and an accepted sample never claims more than
  the eight frames its array holds.\<close>

theorem decode_stack_sample_spec:
  "stack_wf e \<Longrightarrow> ss_kind e = EventKind_u8 StackSample \<Longrightarrow>
    decode_stack_sample (write_StackSampleEvent e @ rest) =
      (if unat (ss_frame_count e) \<le> STACK_SAMPLE_MAX_FRAMES then Some e else None)"
  using stack.not_short [of e rest] stack.dec_enc [of e rest] stack_hd [of e]
  by (cases "write_StackSampleEvent e") (auto simp: decode_stack_sample_def Let_def
      simp del: EventKind_u8.simps)

definition demo_stack :: StackSampleEvent where
  "demo_stack = \<lparr>ss_kind = 7, ss_pad0 = replicate 7 0, ss_tgid = 5, ss_pid = 6, ss_ts_ns = 1,
    ss_frame_count = 2, ss_pad1 = replicate 3 0, ss_ips = 4096 # 8192 # replicate 6 0\<rparr>"

theorem decode_stack_sample_spec_witness:
  "decode_stack_sample (write_StackSampleEvent demo_stack @ []) = Some demo_stack"
  using decode_stack_sample_spec [of demo_stack "[]"]
  by (simp add: demo_stack_def stack_wf_def STACK_SAMPLE_MAX_FRAMES_def)

end
