(* ===== verification/Correlate.thy ===== *)
theory Correlate
  imports Decode
begin

text \<open>
  The HTTP/1.1 correlator of \<open>src/agent/src/correlate.rs\<close>: peers, pending requests, exchanges and
  the state machine that pairs the two halves of an exchange on a socket. The component's contract
  is the interface \<open>keyed_machine\<close>: one machine per socket, aged at \<open>TIMEOUT\<close>.
\<close>

section \<open>Model\<close>

definition TIMEOUT :: nat where "TIMEOUT = secs 60"

record SockKey =
  sk_tgid :: u32
  sk_fd :: i32

definition SockKey_from_event :: "SockIoEvent \<Rightarrow> SockKey" where
  "SockKey_from_event ev = \<lparr>sk_tgid = io_tgid ev, sk_fd = io_fd ev\<rparr>"

record PeerAddr =
  pa_family :: u8
  pa_dport_be :: u16
  pa_daddr :: bytes

definition PeerAddr_from_meta_unchecked :: "SockMeta \<Rightarrow> PeerAddr" where
  "PeerAddr_from_meta_unchecked m =
    \<lparr>pa_family = m_family m, pa_dport_be = m_dport_be m, pa_daddr = m_daddr m\<rparr>"

definition PeerAddr_from_v4 :: "u32 \<Rightarrow> u16 \<Rightarrow> PeerAddr" where
  "PeerAddr_from_v4 daddr_be dport_be = PeerAddr_from_meta_unchecked (with_peer_v4 daddr_be dport_be)"

definition PeerAddr_from_meta :: "SockMeta \<Rightarrow> PeerAddr option" where
  "PeerAddr_from_meta m = (if has_addr m then Some (PeerAddr_from_meta_unchecked m) else None)"

definition PeerAddr_v4_addr :: "PeerAddr \<Rightarrow> u32 option" where
  "PeerAddr_v4_addr p =
    (if pa_family p = ucast AF_INET
     then Some (from_le [pa_daddr p ! 0, pa_daddr p ! 1, pa_daddr p ! 2, pa_daddr p ! 3]) else None)"

definition PeerAddr_is_v6 :: "PeerAddr \<Rightarrow> bool" where
  "PeerAddr_is_v6 p \<longleftrightarrow> pa_family p = ucast AF_INET6"

record Pending =
  pn_dir :: IoDir
  pn_ts_ns :: u64
  pn_prefix :: bytes
  pn_at :: instant
  pn_cgroup_id :: u64

record Exchange =
  ex_tgid :: u32
  ex_fd :: i32
  ex_req_prefix :: bytes
  ex_resp_prefix :: bytes
  ex_t_start_ns :: u64
  ex_t_end_ns :: u64
  ex_peer :: "PeerAddr option"
  ex_req_is_write :: bool
  ex_cgroup_id :: u64

definition Exchange_latency_ns :: "Exchange \<Rightarrow> u64" where
  "Exchange_latency_ns ex = sat_sub (ex_t_end_ns ex) (ex_t_start_ns ex)"

record Correlator =
  co_states :: "(SockKey, Pending) hashmap"

definition Correlator_default :: Correlator where
  "Correlator_default = \<lparr>co_states = []\<rparr>"

definition looks_like_request :: "bytes \<Rightarrow> bool" where
  "looks_like_request prefix \<longleftrightarrow>
    starts_with prefix (bstr ''GET '') \<or> starts_with prefix (bstr ''POST '')
    \<or> starts_with prefix (bstr ''PUT '') \<or> starts_with prefix (bstr ''HEAD '')
    \<or> starts_with prefix (bstr ''DELETE '') \<or> starts_with prefix (bstr ''OPTIONS '')
    \<or> starts_with prefix (bstr ''PATCH '')"

definition looks_like_response :: "bytes \<Rightarrow> bool" where
  "looks_like_response prefix \<longleftrightarrow> starts_with prefix (bstr ''HTTP/'')"

definition correlator_evict_stale :: "instant \<Rightarrow> Correlator \<Rightarrow> Correlator" where
  "correlator_evict_stale now c =
    c\<lparr>co_states := hm_retain (\<lambda>_ s. now - pn_at s \<le> TIMEOUT) (co_states c)\<rparr>"

definition new_pending :: "IoDir \<Rightarrow> bytes \<Rightarrow> SockIoEvent \<Rightarrow> instant \<Rightarrow> Pending" where
  "new_pending dir prefix ev now =
    \<lparr>pn_dir = dir, pn_ts_ns = io_ts_ns ev, pn_prefix = prefix, pn_at = now, pn_cgroup_id = io_cgroup_id ev\<rparr>"

definition observe_inner :: "SockIoEvent \<Rightarrow> instant \<Rightarrow> bool \<Rightarrow> Correlator \<Rightarrow> Exchange option \<times> Correlator" where
  "observe_inner ev now client_only c =
    (let c = correlator_evict_stale now c in
     case IoDir_from_u8 (io_dir ev) of None \<Rightarrow> (None, c) | Some dir \<Rightarrow>
     let key = SockKey_from_event ev;
         plen = min (unat (io_prefix_len ev)) (length (io_prefix ev));
         prefix = take plen (io_prefix ev);
         removed = c\<lparr>co_states := hm_remove key (co_states c)\<rparr>;
         insert = c\<lparr>co_states := hm_insert key (new_pending dir prefix ev now) (hm_remove key (co_states c))\<rparr>
     in case hm_get (co_states c) key of
          None \<Rightarrow>
            if is_neg (io_ret ev) \<or> plen = 0 \<or> \<not> looks_like_request prefix then (None, removed)
            else if client_only \<and> dir \<noteq> Write then (None, removed)
            else (None, insert)
        | Some pending \<Rightarrow>
            let opposite = (if client_only then pn_dir pending = Write \<and> dir = Read
                            else (pn_dir pending = Write \<and> dir = Read) \<or> (pn_dir pending = Read \<and> dir = Write))
            in if \<not> opposite \<or> is_neg (io_ret ev) \<or> \<not> looks_like_response prefix
               then if \<not> is_neg (io_ret ev) \<and> looks_like_request prefix \<and> (\<not> client_only \<or> dir = Write)
                    then (None, insert) else (None, removed)
               else (Some \<lparr>ex_tgid = sk_tgid key, ex_fd = sk_fd key, ex_req_prefix = pn_prefix pending,
                       ex_resp_prefix = prefix, ex_t_start_ns = pn_ts_ns pending, ex_t_end_ns = io_ts_ns ev,
                       ex_peer = None, ex_req_is_write = (pn_dir pending = Write),
                       ex_cgroup_id = pn_cgroup_id pending\<rparr>, removed))"

definition observe :: "SockIoEvent \<Rightarrow> instant \<Rightarrow> Correlator \<Rightarrow> Exchange option \<times> Correlator" where
  "observe ev now c = observe_inner ev now False c"

definition observe_client :: "SockIoEvent \<Rightarrow> instant \<Rightarrow> Correlator \<Rightarrow> Exchange option \<times> Correlator" where
  "observe_client ev now c = observe_inner ev now True c"

section \<open>One machine per socket\<close>

text \<open>The events of a history carry the flag of the entry point, \<open>observe\<close> or \<open>observe_client\<close>.\<close>

definition correlate_step :: "SockIoEvent \<times> bool \<Rightarrow> instant \<Rightarrow> Correlator \<Rightarrow> Exchange option \<times> Correlator" where
  "correlate_step e now c = (if snd e then observe_client (fst e) now c else observe (fst e) now c)"

definition event_key :: "SockIoEvent \<times> bool \<Rightarrow> SockKey option" where
  "event_key e = (case IoDir_from_u8 (io_dir (fst e)) of None \<Rightarrow> None | Some _ \<Rightarrow> Some (SockKey_from_event (fst e)))"

text \<open>The machine of one socket. A request-like half (re)starts an exchange, a response-like half in the
  opposite direction ends it, anything else with a valid direction abandons it.\<close>

abbreviation captured :: "SockIoEvent \<Rightarrow> bytes" where
  "captured ev \<equiv> take (min (unat (io_prefix_len ev)) (length (io_prefix ev))) (io_prefix ev)"

definition starts_exchange :: "SockIoEvent \<times> bool \<Rightarrow> IoDir \<Rightarrow> bool" where
  "starts_exchange e dir \<longleftrightarrow> \<not> is_neg (io_ret (fst e)) \<and> looks_like_request (captured (fst e)) \<and>
    (snd e \<longrightarrow> dir = Write)"

definition ends_exchange :: "SockIoEvent \<times> bool \<Rightarrow> IoDir \<Rightarrow> Pending \<Rightarrow> bool" where
  "ends_exchange e dir q \<longleftrightarrow> \<not> is_neg (io_ret (fst e)) \<and> looks_like_response (captured (fst e)) \<and>
    pn_dir q \<noteq> dir \<and> (snd e \<longrightarrow> dir = Read)"

definition exchange_of :: "SockIoEvent \<Rightarrow> Pending \<Rightarrow> Exchange" where
  "exchange_of ev q = \<lparr>ex_tgid = io_tgid ev, ex_fd = io_fd ev, ex_req_prefix = pn_prefix q,
     ex_resp_prefix = captured ev, ex_t_start_ns = pn_ts_ns q, ex_t_end_ns = io_ts_ns ev,
     ex_peer = None, ex_req_is_write = (pn_dir q = Write), ex_cgroup_id = pn_cgroup_id q\<rparr>"

definition slot_step :: "SockIoEvent \<times> bool \<Rightarrow> instant \<Rightarrow> Pending option \<Rightarrow> Exchange option \<times> Pending option" where
  "slot_step e now p =
    (case IoDir_from_u8 (io_dir (fst e)) of None \<Rightarrow> (None, p) | Some dir \<Rightarrow>
     let next = (if starts_exchange e dir then Some (new_pending dir (captured (fst e)) (fst e) now) else None)
     in case p of None \<Rightarrow> (None, next)
        | Some q \<Rightarrow> if ends_exchange e dir q then (Some (exchange_of (fst e) q), None) else (None, next))"

lemma correlate_step_inner: "correlate_step e now c = observe_inner (fst e) now (snd e) c"
  by (simp add: correlate_step_def observe_def observe_client_def)

interpretation correlate_ttl: ttl_store pn_at TIMEOUT
  "\<lambda>now m. co_states (correlator_evict_stale now \<lparr>co_states = m\<rparr>)"
  by unfold_locales (simp add: correlator_evict_stale_def)

lemma request_nonempty [simp]: "\<not> looks_like_request []"
  by (simp add: looks_like_request_def bstr_def)

lemma not_dir_iff: "d \<noteq> (d' :: IoDir) \<longleftrightarrow> (d = Write \<and> d' = Read) \<or> (d = Read \<and> d' = Write)"
  by (cases d; cases d') auto

text \<open>The whole step in terms of the socket's slot.\<close>

lemma observe_inner_slot:
  assumes "IoDir_from_u8 (io_dir ev) = Some dir" "co_states (correlator_evict_stale now c) = m"
    and "slot_step (ev, co) now (hm_get m (SockKey_from_event ev)) = (r, p')"
  shows "observe_inner ev now co c =
    (r, c\<lparr>co_states := (case p' of None \<Rightarrow> hm_remove (SockKey_from_event ev) m
       | Some q \<Rightarrow> hm_insert (SockKey_from_event ev) q (hm_remove (SockKey_from_event ev) m))\<rparr>)"
proof -
  let ?k = "SockKey_from_event ev"
  have c: "correlator_evict_stale now c = c\<lparr>co_states := m\<rparr>"
    using assms(2) by (simp add: correlator_evict_stale_def)
  show ?thesis
  proof (cases "hm_get m ?k")
    case None
    then show ?thesis
      using assms(1,3)
      by (auto simp: observe_inner_def c slot_step_def starts_exchange_def Let_def)
  next
    case (Some q)
    have "ends_exchange (ev, co) dir q \<longleftrightarrow>
      \<not> (\<not> (if co then pn_dir q = Write \<and> dir = Read
        else (pn_dir q = Write \<and> dir = Read) \<or> (pn_dir q = Read \<and> dir = Write)) \<or>
        is_neg (io_ret ev) \<or> \<not> looks_like_response (captured ev))"
      by (auto simp: ends_exchange_def not_dir_iff)
    moreover have "starts_exchange (ev, co) dir \<longleftrightarrow>
      \<not> is_neg (io_ret ev) \<and> looks_like_request (captured ev) \<and> (\<not> co \<or> dir = Write)"
      by (auto simp: starts_exchange_def)
    moreover have "sk_tgid ?k = io_tgid ev" "sk_fd ?k = io_fd ev"
      by (simp_all add: SockKey_from_event_def)
    ultimately show ?thesis
      using assms(1,3) Some
      by (cases "ends_exchange (ev, co) dir q"; cases "starts_exchange (ev, co) dir")
        (simp_all only: observe_inner_def c slot_step_def exchange_of_def Let_def option.case
          if_True if_False fst_conv snd_conv prod.inject simp_thms Correlator.simps, auto)
  qed
qed

lemma observe_inner_invalid:
  "IoDir_from_u8 (io_dir ev) = None \<Longrightarrow> observe_inner ev now co c = (None, correlator_evict_stale now c)"
  by (simp add: observe_inner_def)

lemma correlate_step_slot:
  assumes w: "hm_wf (co_states c)" and m: "m = hm_retain (\<lambda>_ s. now - pn_at s \<le> TIMEOUT) (co_states c)"
  shows "fst (correlate_step e now c) = (case event_key e of None \<Rightarrow> None
      | Some k \<Rightarrow> fst (slot_step e now (hm_get m k))) \<and>
    hm_get (co_states (snd (correlate_step e now c))) k =
      (let old = hm_get m k in if event_key e = Some k then snd (slot_step e now old) else old) \<and>
    hm_wf (co_states (snd (correlate_step e now c)))"
proof -
  obtain ev co where e: "e = (ev, co)"
    by (cases e)
  have ms: "co_states (correlator_evict_stale now c) = m"
    by (simp add: correlator_evict_stale_def m)
  show ?thesis
  proof (cases "IoDir_from_u8 (io_dir ev)")
    case None
    then show ?thesis
      using w ms by (simp add: e m correlate_step_inner observe_inner_invalid event_key_def)
  next
    case (Some dir)
    obtain r p' where p: "slot_step (ev, co) now (hm_get m (SockKey_from_event ev)) = (r, p')"
      by (cases "slot_step (ev, co) now (hm_get m (SockKey_from_event ev))")
    show ?thesis
      using w Some p observe_inner_slot [OF Some ms p]
      by (auto simp: e m correlate_step_inner event_key_def Let_def split: option.split)
  qed
qed

interpretation correlate_sm: keyed_machine co_states pn_at TIMEOUT event_key slot_step correlate_step
  using correlate_step_slot [OF _ refl] by unfold_locales blast+

section \<open>Histories\<close>

definition halves :: "(SockIoEvent \<times> bool) \<Rightarrow> instant \<Rightarrow> SockKey \<Rightarrow> ((SockIoEvent \<times> bool) \<times> instant) list \<Rightarrow> Pending \<Rightarrow> bool" where
  "halves r t k h q \<longleftrightarrow> (\<exists>h1 h2 d. h = h1 @ (r, t) # h2 \<and> event_key r = Some k \<and>
    (\<forall>x \<in> set h2. event_key (fst x) \<noteq> Some k) \<and> IoDir_from_u8 (io_dir (fst r)) = Some d \<and>
    starts_exchange r d \<and> q = new_pending d (captured (fst r)) (fst r) t)"

lemma event_key_dir: "event_key e = Some k \<Longrightarrow> \<exists>d. IoDir_from_u8 (io_dir (fst e)) = Some d"
  by (auto simp: event_key_def split: option.splits)

lemma request_not_response: "looks_like_request p \<Longrightarrow> \<not> looks_like_response p"
  by (cases p; cases "tl p") (auto simp: looks_like_request_def looks_like_response_def bstr_def)

lemma slot_step_pending:
  "IoDir_from_u8 (io_dir (fst e)) = Some d \<Longrightarrow> snd (slot_step e now p) =
    (if starts_exchange e d then Some (new_pending d (captured (fst e)) (fst e) now) else None)"
  using request_not_response
  by (auto simp: slot_step_def starts_exchange_def ends_exchange_def Let_def split: option.split)

lemma default_wf [simp]: "hm_wf (co_states Correlator_default)"
  by (simp add: Correlator_default_def)

lemmas final_wf = correlate_sm.mfinal_wf [OF default_wf]

text \<open>What is pending for a socket: its last half, if that half starts an exchange and no sweep dropped it.\<close>

lemma pending_halves:
  "hm_get (co_states (mfinal correlate_step Correlator_default h)) k = Some q \<Longrightarrow> \<exists>r t. halves r t k h q"
proof (induction h arbitrary: q rule: rev_induct)
  case Nil
  then show ?case
    by (simp add: Correlator_default_def)
next
  case (snoc et h)
  obtain e u where et: "et = (e, u)"
    by (cases et)
  let ?c = "mfinal correlate_step Correlator_default h"
  let ?old = "hm_get (hm_retain (\<lambda>_ v. u - pn_at v \<le> TIMEOUT) (co_states ?c)) k"
  have g: "(if event_key e = Some k then snd (slot_step e u ?old) else ?old) = Some q"
    using snoc.prems correlate_sm.step_get [OF final_wf, of e u h k] by (simp add: et mfinal_append Let_def)
  show ?case
  proof (cases "event_key e = Some k")
    case True
    then obtain d where "IoDir_from_u8 (io_dir (fst e)) = Some d"
      using event_key_dir by blast
    then have "halves e u k (h @ [et]) q"
      unfolding halves_def using g True slot_step_pending [of e d u] et
      by - (rule exI [of _ h], rule exI [of _ "[]"], rule exI [of _ d], simp split: if_splits)
    then show ?thesis
      by blast
  next
    case False
    then have "hm_get (co_states ?c) k = Some q"
      using g final_wf by (simp add: hm.get_ret split: option.splits if_splits)
    then obtain r t h1 h2 d where "h = h1 @ (r, t) # h2" "event_key r = Some k"
      "\<forall>x \<in> set h2. event_key (fst x) \<noteq> Some k" "IoDir_from_u8 (io_dir (fst r)) = Some d"
      "starts_exchange r d" "q = new_pending d (captured (fst r)) (fst r) t"
      using snoc.IH by (auto simp: halves_def)
    then have "halves r t k (h @ [et]) q"
      unfolding halves_def using False et
      by - (rule exI [of _ h1], rule exI [of _ "h2 @ [et]"], rule exI [of _ d], simp)
    then show ?thesis
      by blast
  qed
qed

lemma halves_pending:
  assumes "h = h1 @ (r, t) # h2" "event_key r = Some k" "\<forall>x \<in> set h2. event_key (fst x) \<noteq> Some k"
    and "IoDir_from_u8 (io_dir (fst r)) = Some d" "starts_exchange r d" "\<forall>x \<in> set h2. snd x \<le> t + TIMEOUT"
  shows "hm_get (co_states (mfinal correlate_step Correlator_default h)) k =
    Some (new_pending d (captured (fst r)) (fst r) t)"
  using assms
proof (induction h2 arbitrary: h rule: rev_induct)
  case Nil
  then show ?case
    using correlate_sm.step_get [OF final_wf, of r t h1 k] slot_step_pending [of r d t]
    by (simp add: mfinal_append Let_def)
next
  case (snoc et h2)
  obtain e u where et: "et = (e, u)"
    by (cases et)
  have "hm_get (co_states (mfinal correlate_step Correlator_default (h1 @ (r, t) # h2))) k =
      Some (new_pending d (captured (fst r)) (fst r) t)"
    using snoc.IH [OF refl] snoc.prems by simp
  moreover have "u - t \<le> TIMEOUT" "event_key e \<noteq> Some k"
    using snoc.prems et by auto
  ultimately show ?case
    using correlate_sm.step_get [OF final_wf, of e u "h1 @ (r, t) # h2" k] snoc.prems(1) et
    by (simp add: mfinal_append [of _ _ "h1 @ (r, t) # h2", simplified] hm.get_ret final_wf Let_def new_pending_def)
qed

lemma slot_step_exchange:
  "fst (slot_step e now p) = Some x \<longleftrightarrow> (\<exists>d q. IoDir_from_u8 (io_dir (fst e)) = Some d \<and> p = Some q \<and>
    ends_exchange e d q \<and> x = exchange_of (fst e) q)"
  by (auto simp: slot_step_def Let_def split: option.splits)

text \<open>C16. The correlator reports an exchange exactly when it should, along any history of events with
  non-decreasing clock: an event yields an exchange if and only if the last earlier event of its
  socket was a request-like half in the opposite direction at most 60 s before, the event itself is a
  successful response-like half and, for TLS traffic, the request half was the write. The exchange
  carries the two captured prefixes, the two kernel timestamps and the request half's cgroup.\<close>

theorem correlate_pairs_iff:
  assumes "sorted (map snd h @ [now])"
  shows "fst (correlate_step e now (mfinal correlate_step Correlator_default h)) = Some x \<longleftrightarrow>
    (\<exists>h1 r t h2 d d' k. h = h1 @ (r, t) # h2 \<and> event_key r = Some k \<and> event_key e = Some k \<and>
      (\<forall>y \<in> set h2. event_key (fst y) \<noteq> Some k) \<and> now - t \<le> TIMEOUT \<and>
      IoDir_from_u8 (io_dir (fst r)) = Some d \<and> IoDir_from_u8 (io_dir (fst e)) = Some d' \<and> d \<noteq> d' \<and>
      (snd e \<longrightarrow> d' = Read) \<and> (snd r \<longrightarrow> d = Write) \<and>
      \<not> is_neg (io_ret (fst r)) \<and> \<not> is_neg (io_ret (fst e)) \<and>
      looks_like_request (captured (fst r)) \<and> looks_like_response (captured (fst e)) \<and>
      x = \<lparr>ex_tgid = sk_tgid k, ex_fd = sk_fd k, ex_req_prefix = captured (fst r),
        ex_resp_prefix = captured (fst e), ex_t_start_ns = io_ts_ns (fst r), ex_t_end_ns = io_ts_ns (fst e),
        ex_peer = None, ex_req_is_write = (d = Write), ex_cgroup_id = io_cgroup_id (fst r)\<rparr>)"
    (is "?L \<longleftrightarrow> ?R")
proof
  let ?c = "mfinal correlate_step Correlator_default h"
  assume ?L
  then obtain k where k: "event_key e = Some k"
    and "fst (slot_step e now (hm_get (hm_retain (\<lambda>_ v. now - pn_at v \<le> TIMEOUT) (co_states ?c)) k)) = Some x"
    using correlate_sm.step_out [OF final_wf, of e now h] by (auto split: option.splits)
  then obtain d' q where q: "IoDir_from_u8 (io_dir (fst e)) = Some d'"
    "hm_get (hm_retain (\<lambda>_ v. now - pn_at v \<le> TIMEOUT) (co_states ?c)) k = Some q"
    "ends_exchange e d' q" "x = exchange_of (fst e) q"
    by (auto simp: slot_step_exchange)
  have f: "hm_get (co_states ?c) k = Some q" "now - pn_at q \<le> TIMEOUT"
    using q(2) final_wf by (auto simp: hm.get_ret split: option.splits if_splits)
  obtain r t where "halves r t k h q"
    using pending_halves [OF f(1)] by blast
  then obtain h1 h2 d where "h = h1 @ (r, t) # h2" "event_key r = Some k"
    "\<forall>y \<in> set h2. event_key (fst y) \<noteq> Some k" "IoDir_from_u8 (io_dir (fst r)) = Some d"
    "starts_exchange r d" "q = new_pending d (captured (fst r)) (fst r) t"
    by (auto simp: halves_def)
  then show ?R
    using k q f(2)
    by - (rule exI [of _ h1], rule exI [of _ r], rule exI [of _ t], rule exI [of _ h2], rule exI [of _ d],
      rule exI [of _ d'], rule exI [of _ k],
      auto simp: starts_exchange_def ends_exchange_def exchange_of_def new_pending_def event_key_def SockKey_from_event_def)
next
  assume ?R
  then obtain h1 r t h2 d d' k where h: "h = h1 @ (r, t) # h2" "event_key r = Some k"
    "\<forall>y \<in> set h2. event_key (fst y) \<noteq> Some k" "IoDir_from_u8 (io_dir (fst r)) = Some d"
    and s: "starts_exchange r d" and e: "event_key e = Some k" "now - t \<le> TIMEOUT"
    "IoDir_from_u8 (io_dir (fst e)) = Some d'"
    and q: "ends_exchange e d' (new_pending d (captured (fst r)) (fst r) t)"
    and x: "x = exchange_of (fst e) (new_pending d (captured (fst r)) (fst r) t)"
    by (auto simp: starts_exchange_def ends_exchange_def exchange_of_def new_pending_def event_key_def SockKey_from_event_def)
  have "\<forall>y \<in> set h2. snd y \<le> now"
    using assms h(1) by (auto simp: sorted_append)
  then have "\<forall>y \<in> set h2. snd y \<le> t + TIMEOUT"
    using e(2) by fastforce
  then have "hm_get (co_states (mfinal correlate_step Correlator_default h)) k =
      Some (new_pending d (captured (fst r)) (fst r) t)"
    using halves_pending [OF h s] by simp
  then show ?L
    using correlate_sm.step_out [OF final_wf, of e now h] e q x final_wf
    by (simp add: hm.get_ret new_pending_def slot_step_exchange)
qed

text \<open>C23. Sockets do not interfere: in any interleaved history with non-decreasing clock the results of
  the events of one socket are those of running the correlator on that socket's events alone, although
  every event sweeps the whole table.\<close>

theorem correlator_isolated:
  "sorted (map snd h) \<Longrightarrow>
    outputs (\<lambda>e. event_key e = Some k) (mtrace correlate_step Correlator_default h) =
    outputs (\<lambda>_. True) (mtrace correlate_step Correlator_default (filter (\<lambda>et. event_key (fst et) = Some k) h))"
  by (rule correlate_sm.isolated [OF default_wf])

definition demo_http_req :: SockIoEvent where
  "demo_http_req = demo_io\<lparr>io_ts_ns := 10\<rparr>"

definition demo_http_resp :: SockIoEvent where
  "demo_http_resp = demo_io\<lparr>io_dir := 1, io_prefix_len := 5, io_ts_ns := 25,
    io_prefix := zero_padded 256 (bstr ''HTTP/1.1 200'')\<rparr>"

lemma demo_http:
  "captured demo_http_req = bstr ''GET ''" "captured demo_http_resp = bstr ''HTTP/''"
  by (simp_all add: demo_http_req_def demo_http_resp_def demo_io_def zero_padded_def bstr_def)

theorem correlate_pairs_iff_witness:
  "\<exists>x. fst (correlate_step (demo_http_resp, False) 7
      (mfinal correlate_step Correlator_default [((demo_http_req, False), 3)])) = Some x \<and>
    ex_req_is_write x \<and> ex_t_start_ns x = 10 \<and> ex_t_end_ns x = 25"
proof -
  have k: "event_key (demo_http_req, False) = Some \<lparr>sk_tgid = 10, sk_fd = 7\<rparr>"
    "event_key (demo_http_resp, False) = Some \<lparr>sk_tgid = 10, sk_fd = 7\<rparr>"
    by (simp_all add: event_key_def demo_http_req_def demo_http_resp_def demo_io_def IoDir_from_u8_def
        SockKey_from_event_def)
  have r: "looks_like_request (captured demo_http_req)" "looks_like_response (captured demo_http_resp)"
    by (simp_all add: demo_http looks_like_request_def looks_like_response_def bstr_def)
  have "\<exists>x. fst (correlate_step (demo_http_resp, False) 7
      (mfinal correlate_step Correlator_default [((demo_http_req, False), 3)])) = Some x \<and>
    ex_req_is_write x \<and> ex_t_start_ns x = 10 \<and> ex_t_end_ns x = 25"
    by (subst correlate_pairs_iff)
      (use k r in \<open>auto simp: Cons_eq_append_conv IoDir_from_u8_def demo_http_req_def demo_http_resp_def demo_io_def TIMEOUT_def secs_def\<close>)
  then show ?thesis .
qed

theorem correlator_isolated_witness:
  "outputs (\<lambda>e. event_key e = Some \<lparr>sk_tgid = 10, sk_fd = 7\<rparr>) (mtrace correlate_step Correlator_default
      [((demo_http_req, False), 3), ((demo_http_req\<lparr>io_fd := 8\<rparr>, False), 5), ((demo_http_resp, False), 7)]) =
    outputs (\<lambda>_. True) (mtrace correlate_step Correlator_default
      [((demo_http_req, False), 3), ((demo_http_resp, False), 7)])"
  using correlator_isolated [of "[((demo_http_req, False), 3), ((demo_http_req\<lparr>io_fd := 8\<rparr>, False), 5),
      ((demo_http_resp, False), 7)]" "\<lparr>sk_tgid = 10, sk_fd = 7\<rparr>"]
  by (simp add: event_key_def demo_http_req_def demo_http_resp_def demo_io_def IoDir_from_u8_def
      SockKey_from_event_def del: mtrace.simps)

end
