(* ===== verification/H2_Frame.thy ===== *)
theory H2_Frame
  imports Abi
begin

text \<open>
  HTTP/2 framing (\<open>src/agent/src/h2/frame.rs\<close>): the 9-byte frame header, the
  protocol-detection predicates, and the removal of padding and priority from a header
  block. \<open>write_frame_header\<close>, \<open>frame\<close> and \<open>wrap_fragment\<close> are the sender's side of RFC 9113 4.1
  and 6.2, used to state that the parser inverts it.
\<close>

definition HEADER_LEN :: nat where "HEADER_LEN = 9"

definition CLIENT_PREFACE :: bytes where
  "CLIENT_PREFACE = bstr ''PRI * HTTP/2.0'' @ [13, 10, 13, 10] @ bstr ''SM'' @ [13, 10, 13, 10]"

definition TYPE_DATA :: u8 where "TYPE_DATA = 0"
definition TYPE_HEADERS :: u8 where "TYPE_HEADERS = 1"
definition TYPE_PRIORITY :: u8 where "TYPE_PRIORITY = 2"
definition TYPE_RST_STREAM :: u8 where "TYPE_RST_STREAM = 3"
definition TYPE_SETTINGS :: u8 where "TYPE_SETTINGS = 4"
definition TYPE_PING :: u8 where "TYPE_PING = 6"
definition TYPE_GOAWAY :: u8 where "TYPE_GOAWAY = 7"
definition TYPE_WINDOW_UPDATE :: u8 where "TYPE_WINDOW_UPDATE = 8"
definition TYPE_CONTINUATION :: u8 where "TYPE_CONTINUATION = 9"

definition FLAG_END_STREAM :: u8 where "FLAG_END_STREAM = 1"
definition FLAG_END_HEADERS :: u8 where "FLAG_END_HEADERS = 4"
definition FLAG_PADDED :: u8 where "FLAG_PADDED = 8"
definition FLAG_PRIORITY :: u8 where "FLAG_PRIORITY = 0x20"

lemmas frame_types = TYPE_DATA_def TYPE_HEADERS_def TYPE_PRIORITY_def TYPE_RST_STREAM_def
  TYPE_SETTINGS_def TYPE_PING_def TYPE_GOAWAY_def TYPE_WINDOW_UPDATE_def TYPE_CONTINUATION_def

record FrameHeader =
  fh_length :: u32
  fh_ty :: u8
  fh_flags :: u8
  fh_stream_id :: u32

definition FrameHeader_parse :: "bytes \<Rightarrow> FrameHeader option" where
  "FrameHeader_parse src =
    (if length src < HEADER_LEN then None
     else Some \<lparr>fh_length = from_le (rev [0, src ! 0, src ! 1, src ! 2]),
                fh_ty = src ! 3,
                fh_flags = src ! 4,
                fh_stream_id = from_le (rev [src ! 5, src ! 6, src ! 7, src ! 8]) AND 0x7fffffff\<rparr>)"

definition total_len :: "FrameHeader \<Rightarrow> nat" where
  "total_len h = HEADER_LEN + unat (fh_length h)"

definition looks_like_preface :: "bytes \<Rightarrow> bool" where
  "looks_like_preface b =
    (if b = [] then False
     else if length b \<ge> length CLIENT_PREFACE then starts_with b CLIENT_PREFACE
     else starts_with CLIENT_PREFACE b \<and> starts_with b (bstr ''PRI''))"

definition looks_like_frame :: "bytes \<Rightarrow> bool" where
  "looks_like_frame b =
    (case FrameHeader_parse b of
       None \<Rightarrow> False
     | Some h \<Rightarrow>
         if fh_length h > 16 * 1024 then False
         else if fh_ty h = TYPE_SETTINGS \<or> fh_ty h = TYPE_PING \<or> fh_ty h = TYPE_GOAWAY
         then fh_stream_id h = 0
         else if fh_ty h = TYPE_WINDOW_UPDATE then True
         else if fh_ty h = TYPE_HEADERS \<or> fh_ty h = TYPE_RST_STREAM \<or> fh_ty h = TYPE_CONTINUATION
         then fh_stream_id h \<noteq> 0
         else False)"

definition looks_like_h2 :: "bytes \<Rightarrow> bool" where
  "looks_like_h2 b \<longleftrightarrow> looks_like_preface b \<or> looks_like_frame b"

definition looks_like_http11 :: "bytes \<Rightarrow> bool" where
  "looks_like_http11 b =
    (if starts_with b (bstr ''PRI '') \<or> looks_like_frame b then False
     else http_magic b (of_nat (min (length b) 65535)))"

definition headers_fragment :: "u8 \<Rightarrow> bytes \<Rightarrow> bytes option" where
  "headers_fragment flags payload =
    (let unpadded =
       (if flags AND FLAG_PADDED \<noteq> 0
        then case payload of [] \<Rightarrow> None
             | b0 # p \<Rightarrow> if length p < unat b0 then None else Some (take (length p - unat b0) p)
        else Some payload)
     in case unpadded of None \<Rightarrow> None
        | Some p \<Rightarrow>
            if flags AND FLAG_PRIORITY \<noteq> 0
            then if length p < 5 then None else Some (drop 5 p)
            else Some p)"

section \<open>The sender's side\<close>

definition write_frame_header :: "FrameHeader \<Rightarrow> bytes" where
  "write_frame_header h =
    rev (le_bytes 3 (fh_length h)) @ [fh_ty h, fh_flags h] @ rev (le_bytes 4 (fh_stream_id h))"

definition frame_header_ok :: "FrameHeader \<Rightarrow> bool" where
  "frame_header_ok h \<longleftrightarrow> unat (fh_length h) < 2 ^ 24 \<and> unat (fh_stream_id h) < 2 ^ 31"

text \<open>A header-block fragment as it is carried: optional pad length, optional five octets of
  priority, the fragment, the padding.\<close>

definition wrap_fragment :: "u8 \<Rightarrow> u8 \<Rightarrow> bytes \<Rightarrow> bytes \<Rightarrow> bytes" where
  "wrap_fragment flags pad prio frag =
    (if flags AND FLAG_PADDED \<noteq> 0 then [pad] else [])
    @ (if flags AND FLAG_PRIORITY \<noteq> 0 then prio else [])
    @ frag
    @ (if flags AND FLAG_PADDED \<noteq> 0 then replicate (unat pad) 0 else [])"

section \<open>Lemmas\<close>

lemma length_CLIENT_PREFACE [simp]: "length CLIENT_PREFACE = 24"
  by (simp add: CLIENT_PREFACE_def)

lemma length_write_frame_header [simp]: "length (write_frame_header h) = HEADER_LEN"
  by (simp add: write_frame_header_def HEADER_LEN_def)

lemma total_len_ge: "HEADER_LEN \<le> total_len h"
  by (simp add: total_len_def)

lemma parse_None: "FrameHeader_parse b = None \<longleftrightarrow> length b < HEADER_LEN"
  by (simp add: FrameHeader_parse_def)

lemma from_be4_zero: "from_le (rev [0, a, b, c]) = from_le [c, b, a]"
  using from_le_append_zero [of "[c, b, a]" 1] by simp

lemma parse_length_lt: "FrameHeader_parse b = Some h \<Longrightarrow> unat (fh_length h) < 2 ^ 24"
  using unat_from_le_less [of "[b ! 2, b ! 1, b ! 0]", where 'a = 32]
  by (auto simp: FrameHeader_parse_def from_be4_zero simp del: from_le.simps rev.simps split: if_splits)

lemma parse_total_len: "FrameHeader_parse b = Some h \<Longrightarrow> total_len h < HEADER_LEN + 2 ^ 24"
  using parse_length_lt [of b h] by (simp add: total_len_def)

lemma and_mask31: "x AND 0x7fffffff = take_bit 31 x" for x :: u32
  by (simp add: take_bit_eq_mask mask_eq_exp_minus_1)

lemma parse_stream_lt: "FrameHeader_parse b = Some h \<Longrightarrow> unat (fh_stream_id h) < 2 ^ 31"
proof -
  assume "FrameHeader_parse b = Some h"
  then have "fh_stream_id h = from_le (rev [b ! 5, b ! 6, b ! 7, b ! 8]) AND 0x7fffffff"
    by (auto simp: FrameHeader_parse_def simp del: from_le.simps rev.simps split: if_splits)
  then show ?thesis
    by (simp only: and_mask31 unat_take_bit_less)
qed

lemma length3: "length xs = 3 \<Longrightarrow> \<exists>a b c. xs = [a, b, c]"
  by (auto simp: length_Suc_conv numeral_eq_Suc)

lemma length4: "length xs = 4 \<Longrightarrow> \<exists>a b c d. xs = [a, b, c, d]"
  by (auto simp: length_Suc_conv numeral_eq_Suc)

lemma parse_write:
  assumes "frame_header_ok h"
  shows "FrameHeader_parse (write_frame_header h @ rest) = Some h"
proof -
  let ?l = "le_bytes 3 (fh_length h)" and ?s = "le_bytes 4 (fh_stream_id h)"
  obtain a b c where len: "?l = [a, b, c]"
    using length3 [OF length_le_bytes] by blast
  obtain p q r s where sid: "?s = [p, q, r, s]"
    using length4 [OF length_le_bytes] by blast
  have l: "from_le [a, b, c] = fh_length h"
    using assms from_le_le_bytes [of 3 "fh_length h"]
    by (simp add: len frame_header_ok_def take_bit_word_unat del: from_le.simps)
  have s: "from_le [p, q, r, s] = fh_stream_id h"
    using from_le_le_bytes_full [of 4 "fh_stream_id h"] by (simp add: sid del: from_le.simps)
  have w: "write_frame_header h @ rest
      = [c, b, a, fh_ty h, fh_flags h, s, r, q, p] @ rest"
    by (simp add: write_frame_header_def len sid)
  have "from_le (rev [0, c, b, a]) = fh_length h"
    using l by (simp only: from_be4_zero)
  moreover have "from_le (rev [s, r, q, p]) AND 0x7fffffff = fh_stream_id h"
    using s assms by (simp add: and_mask31 frame_header_ok_def take_bit_word_unat del: from_le.simps)
  ultimately show ?thesis
    unfolding w by (simp add: FrameHeader_parse_def HEADER_LEN_def del: from_le.simps rev.simps)
qed

lemma headers_fragment_length: "headers_fragment flags p = Some f \<Longrightarrow> length f \<le> length p"
  by (auto simp: headers_fragment_def split: if_splits list.splits)

lemma headers_fragment_wrap:
  "length prio = 5 \<Longrightarrow> headers_fragment flags (wrap_fragment flags pad prio frag) = Some frag"
  by (auto simp: headers_fragment_def wrap_fragment_def)

text \<open>The header parser inverts the RFC 9113 frame-header encoding on every length below
  \<open>2^24\<close> and every 31-bit stream id, whatever follows; it accepts nothing shorter than nine bytes; and
  what it returns is always in those ranges, so a frame spans at least 9 and fewer than
  \<open>2^24 + 9\<close> bytes.\<close>

theorem frame_header_codec:
  "frame_header_ok h \<Longrightarrow>
    FrameHeader_parse (write_frame_header h @ rest) = Some h \<and>
    (FrameHeader_parse b = None \<longleftrightarrow> length b < HEADER_LEN) \<and>
    (FrameHeader_parse b = Some g \<longrightarrow> frame_header_ok g \<and> total_len g < HEADER_LEN + 2 ^ 24)"
  using parse_write [of h rest] parse_length_lt [of b g] parse_stream_lt [of b g]
    parse_total_len [of b g]
  by (simp add: parse_None frame_header_ok_def)

definition demo_header :: FrameHeader where
  "demo_header = \<lparr>fh_length = 18, fh_ty = TYPE_HEADERS, fh_flags = FLAG_END_HEADERS, fh_stream_id = 1\<rparr>"

theorem frame_header_codec_witness:
  "frame_header_ok demo_header \<and>
    FrameHeader_parse (write_frame_header demo_header @ [7]) = Some demo_header"
  using frame_header_codec [of demo_header "[7]" "[]" demo_header]
  by (simp add: demo_header_def frame_header_ok_def)

text \<open>Removing padding and priority recovers exactly the header-block fragment that was
  wrapped, for every combination of the two flags and every pad length; and whatever the payload
  is, the result is never longer than it.\<close>

theorem headers_fragment_codec:
  "length prio = 5 \<Longrightarrow>
    headers_fragment flags (wrap_fragment flags pad prio frag) = Some frag \<and>
    (headers_fragment flags p = Some f \<longrightarrow> length f \<le> length p)"
  by (simp add: headers_fragment_wrap headers_fragment_length)

theorem headers_fragment_codec_witness:
  "headers_fragment 0x28 (wrap_fragment 0x28 2 (replicate 5 1) [0x82, 0x86]) = Some [0x82, 0x86]"
  using headers_fragment_codec [where prio = "replicate 5 1" and flags = "0x28" and pad = "2" and frag = "[0x82, 0x86]"]
  by simp

end
