(* ===== verification/Huffman_Code.thy ===== *)
theory Huffman_Code
  imports Abi "HOL-Library.Sublist"
begin

text \<open>
  The HPACK Huffman table of \<open>src/agent/src/h2/hpack.rs\<close> (RFC 7541 Appendix B) and the proof
  that it is a complete prefix code: the table is checked against its decoding tree
  (\<open>huff_tree\<close>), whose paths are a complete prefix code by construction. Uniqueness of decoding and
  the bound of 30 pending bits of the decoder both rest on it.
\<close>

definition HUFF :: "(u32 \<times> nat) list" where
  "HUFF = [
    (0x1ff8, 13), (0x7fffd8, 23), (0xfffffe2, 28), (0xfffffe3, 28),
    (0xfffffe4, 28), (0xfffffe5, 28), (0xfffffe6, 28), (0xfffffe7, 28),
    (0xfffffe8, 28), (0xffffea, 24), (0x3ffffffc, 30), (0xfffffe9, 28),
    (0xfffffea, 28), (0x3ffffffd, 30), (0xfffffeb, 28), (0xfffffec, 28),
    (0xfffffed, 28), (0xfffffee, 28), (0xfffffef, 28), (0xffffff0, 28),
    (0xffffff1, 28), (0xffffff2, 28), (0x3ffffffe, 30), (0xffffff3, 28),
    (0xffffff4, 28), (0xffffff5, 28), (0xffffff6, 28), (0xffffff7, 28),
    (0xffffff8, 28), (0xffffff9, 28), (0xffffffa, 28), (0xffffffb, 28),
    (0x14, 6), (0x3f8, 10), (0x3f9, 10), (0xffa, 12),
    (0x1ff9, 13), (0x15, 6), (0xf8, 8), (0x7fa, 11),
    (0x3fa, 10), (0x3fb, 10), (0xf9, 8), (0x7fb, 11),
    (0xfa, 8), (0x16, 6), (0x17, 6), (0x18, 6),
    (0x0, 5), (0x1, 5), (0x2, 5), (0x19, 6),
    (0x1a, 6), (0x1b, 6), (0x1c, 6), (0x1d, 6),
    (0x1e, 6), (0x1f, 6), (0x5c, 7), (0xfb, 8),
    (0x7ffc, 15), (0x20, 6), (0xffb, 12), (0x3fc, 10),
    (0x1ffa, 13), (0x21, 6), (0x5d, 7), (0x5e, 7),
    (0x5f, 7), (0x60, 7), (0x61, 7), (0x62, 7),
    (0x63, 7), (0x64, 7), (0x65, 7), (0x66, 7),
    (0x67, 7), (0x68, 7), (0x69, 7), (0x6a, 7),
    (0x6b, 7), (0x6c, 7), (0x6d, 7), (0x6e, 7),
    (0x6f, 7), (0x70, 7), (0x71, 7), (0x72, 7),
    (0xfc, 8), (0x73, 7), (0xfd, 8), (0x1ffb, 13),
    (0x7fff0, 19), (0x1ffc, 13), (0x3ffc, 14), (0x22, 6),
    (0x7ffd, 15), (0x3, 5), (0x23, 6), (0x4, 5),
    (0x24, 6), (0x5, 5), (0x25, 6), (0x26, 6),
    (0x27, 6), (0x6, 5), (0x74, 7), (0x75, 7),
    (0x28, 6), (0x29, 6), (0x2a, 6), (0x7, 5),
    (0x2b, 6), (0x76, 7), (0x2c, 6), (0x8, 5),
    (0x9, 5), (0x2d, 6), (0x77, 7), (0x78, 7),
    (0x79, 7), (0x7a, 7), (0x7b, 7), (0x7ffe, 15),
    (0x7fc, 11), (0x3ffd, 14), (0x1ffd, 13), (0xffffffc, 28),
    (0xfffe6, 20), (0x3fffd2, 22), (0xfffe7, 20), (0xfffe8, 20),
    (0x3fffd3, 22), (0x3fffd4, 22), (0x3fffd5, 22), (0x7fffd9, 23),
    (0x3fffd6, 22), (0x7fffda, 23), (0x7fffdb, 23), (0x7fffdc, 23),
    (0x7fffdd, 23), (0x7fffde, 23), (0xffffeb, 24), (0x7fffdf, 23),
    (0xffffec, 24), (0xffffed, 24), (0x3fffd7, 22), (0x7fffe0, 23),
    (0xffffee, 24), (0x7fffe1, 23), (0x7fffe2, 23), (0x7fffe3, 23),
    (0x7fffe4, 23), (0x1fffdc, 21), (0x3fffd8, 22), (0x7fffe5, 23),
    (0x3fffd9, 22), (0x7fffe6, 23), (0x7fffe7, 23), (0xffffef, 24),
    (0x3fffda, 22), (0x1fffdd, 21), (0xfffe9, 20), (0x3fffdb, 22),
    (0x3fffdc, 22), (0x7fffe8, 23), (0x7fffe9, 23), (0x1fffde, 21),
    (0x7fffea, 23), (0x3fffdd, 22), (0x3fffde, 22), (0xfffff0, 24),
    (0x1fffdf, 21), (0x3fffdf, 22), (0x7fffeb, 23), (0x7fffec, 23),
    (0x1fffe0, 21), (0x1fffe1, 21), (0x3fffe0, 22), (0x1fffe2, 21),
    (0x7fffed, 23), (0x3fffe1, 22), (0x7fffee, 23), (0x7fffef, 23),
    (0xfffea, 20), (0x3fffe2, 22), (0x3fffe3, 22), (0x3fffe4, 22),
    (0x7ffff0, 23), (0x3fffe5, 22), (0x3fffe6, 22), (0x7ffff1, 23),
    (0x3ffffe0, 26), (0x3ffffe1, 26), (0xfffeb, 20), (0x7fff1, 19),
    (0x3fffe7, 22), (0x7ffff2, 23), (0x3fffe8, 22), (0x1ffffec, 25),
    (0x3ffffe2, 26), (0x3ffffe3, 26), (0x3ffffe4, 26), (0x7ffffde, 27),
    (0x7ffffdf, 27), (0x3ffffe5, 26), (0xfffff1, 24), (0x1ffffed, 25),
    (0x7fff2, 19), (0x1fffe3, 21), (0x3ffffe6, 26), (0x7ffffe0, 27),
    (0x7ffffe1, 27), (0x3ffffe7, 26), (0x7ffffe2, 27), (0xfffff2, 24),
    (0x1fffe4, 21), (0x1fffe5, 21), (0x3ffffe8, 26), (0x3ffffe9, 26),
    (0xffffffd, 28), (0x7ffffe3, 27), (0x7ffffe4, 27), (0x7ffffe5, 27),
    (0xfffec, 20), (0xfffff3, 24), (0xfffed, 20), (0x1fffe6, 21),
    (0x3fffe9, 22), (0x1fffe7, 21), (0x1fffe8, 21), (0x7ffff3, 23),
    (0x3fffea, 22), (0x3fffeb, 22), (0x1ffffee, 25), (0x1ffffef, 25),
    (0xfffff4, 24), (0xfffff5, 24), (0x3ffffea, 26), (0x7ffff4, 23),
    (0x3ffffeb, 26), (0x7ffffe6, 27), (0x3ffffec, 26), (0x3ffffed, 26),
    (0x7ffffe7, 27), (0x7ffffe8, 27), (0x7ffffe9, 27), (0x7ffffea, 27),
    (0x7ffffeb, 27), (0xffffffe, 28), (0x7ffffec, 27), (0x7ffffed, 27),
    (0x7ffffee, 27), (0x7ffffef, 27), (0x7fffff0, 27), (0x3ffffee, 26),
    (0x3fffffff, 30)
  ]"

section \<open>Bit lists\<close>

definition to_bits :: "nat \<Rightarrow> 'a::len word \<Rightarrow> bool list" where
  "to_bits n x = map (bit x) (rev [0..<n])"

definition code_bits :: "nat \<Rightarrow> bool list" where
  "code_bits sy = (case HUFF ! sy of (code, bits) \<Rightarrow> to_bits bits code)"

text \<open>Decoding trees: \<open>leaves\<close> lists the symbols with their code words and code
  lengths, \<open>paths\<close> with the bits that lead to them.\<close>

datatype htree = Leaf nat | Node htree htree

primrec leaves :: "htree \<Rightarrow> u32 \<Rightarrow> nat \<Rightarrow> (nat \<times> u32 \<times> nat) list" where
  "leaves (Leaf s) v n = [(s, v, n)]"
| "leaves (Node l r) v n = leaves l (2 * v) (n + 1) @ leaves r (2 * v + 1) (n + 1)"

primrec paths :: "htree \<Rightarrow> (bool list \<times> nat) list" where
  "paths (Leaf s) = [([], s)]"
| "paths (Node l r) =
    map (\<lambda>(p, s). (False # p, s)) (paths l) @ map (\<lambda>(p, s). (True # p, s)) (paths r)"

primrec depth :: "htree \<Rightarrow> nat" where
  "depth (Leaf s) = 0"
| "depth (Node l r) = Suc (max (depth l) (depth r))"

definition huff_tree :: htree where
  "huff_tree =
    (Node (Node (Node (Node (Node (Leaf 48) (Leaf 49)) (Node (Leaf 50) (Leaf 97))) (Node (Node (Leaf
    99) (Leaf 101)) (Node (Leaf 105) (Leaf 111)))) (Node (Node (Node (Leaf 115) (Leaf 116)) (Node
    (Node (Leaf 32) (Leaf 37)) (Node (Leaf 45) (Leaf 46)))) (Node (Node (Node (Leaf 47) (Leaf 51))
    (Node (Leaf 52) (Leaf 53))) (Node (Node (Leaf 54) (Leaf 55)) (Node (Leaf 56) (Leaf 57))))))
    (Node (Node (Node (Node (Node (Leaf 61) (Leaf 65)) (Node (Leaf 95) (Leaf 98))) (Node (Node (Leaf
    100) (Leaf 102)) (Node (Leaf 103) (Leaf 104)))) (Node (Node (Node (Leaf 108) (Leaf 109)) (Node
    (Leaf 110) (Leaf 112))) (Node (Node (Leaf 114) (Leaf 117)) (Node (Node (Leaf 58) (Leaf 66))
    (Node (Leaf 67) (Leaf 68)))))) (Node (Node (Node (Node (Node (Leaf 69) (Leaf 70)) (Node (Leaf
    71) (Leaf 72))) (Node (Node (Leaf 73) (Leaf 74)) (Node (Leaf 75) (Leaf 76)))) (Node (Node (Node
    (Leaf 77) (Leaf 78)) (Node (Leaf 79) (Leaf 80))) (Node (Node (Leaf 81) (Leaf 82)) (Node (Leaf
    83) (Leaf 84))))) (Node (Node (Node (Node (Leaf 85) (Leaf 86)) (Node (Leaf 87) (Leaf 89))) (Node
    (Node (Leaf 106) (Leaf 107)) (Node (Leaf 113) (Leaf 118)))) (Node (Node (Node (Leaf 119) (Leaf
    120)) (Node (Leaf 121) (Leaf 122))) (Node (Node (Node (Leaf 38) (Leaf 42)) (Node (Leaf 44) (Leaf
    59))) (Node (Node (Leaf 88) (Leaf 90)) (Node (Node (Node (Leaf 33) (Leaf 34)) (Node (Leaf 40)
    (Leaf 41))) (Node (Node (Leaf 63) (Node (Leaf 39) (Leaf 43))) (Node (Node (Leaf 124) (Node (Leaf
    35) (Leaf 62))) (Node (Node (Node (Leaf 0) (Leaf 36)) (Node (Leaf 64) (Leaf 91))) (Node (Node
    (Leaf 93) (Leaf 126)) (Node (Node (Leaf 94) (Leaf 125)) (Node (Node (Leaf 60) (Leaf 96)) (Node
    (Leaf 123) (Node (Node (Node (Node (Leaf 92) (Leaf 195)) (Node (Leaf 208) (Node (Leaf 128) (Leaf
    130)))) (Node (Node (Node (Leaf 131) (Leaf 162)) (Node (Leaf 184) (Leaf 194))) (Node (Node (Leaf
    224) (Leaf 226)) (Node (Node (Leaf 153) (Leaf 161)) (Node (Leaf 167) (Leaf 172)))))) (Node (Node
    (Node (Node (Node (Leaf 176) (Leaf 177)) (Node (Leaf 179) (Leaf 209))) (Node (Node (Leaf 216)
    (Leaf 217)) (Node (Leaf 227) (Leaf 229)))) (Node (Node (Node (Leaf 230) (Node (Leaf 129) (Leaf
    132))) (Node (Node (Leaf 133) (Leaf 134)) (Node (Leaf 136) (Leaf 146)))) (Node (Node (Node (Leaf
    154) (Leaf 156)) (Node (Leaf 160) (Leaf 163))) (Node (Node (Leaf 164) (Leaf 169)) (Node (Leaf
    170) (Leaf 173)))))) (Node (Node (Node (Node (Node (Leaf 178) (Leaf 181)) (Node (Leaf 185) (Leaf
    186))) (Node (Node (Leaf 187) (Leaf 189)) (Node (Leaf 190) (Leaf 196)))) (Node (Node (Node (Leaf
    198) (Leaf 228)) (Node (Leaf 232) (Leaf 233))) (Node (Node (Node (Leaf 1) (Leaf 135)) (Node
    (Leaf 137) (Leaf 138))) (Node (Node (Leaf 139) (Leaf 140)) (Node (Leaf 141) (Leaf 143))))))
    (Node (Node (Node (Node (Node (Leaf 147) (Leaf 149)) (Node (Leaf 150) (Leaf 151))) (Node (Node
    (Leaf 152) (Leaf 155)) (Node (Leaf 157) (Leaf 158)))) (Node (Node (Node (Leaf 165) (Leaf 166))
    (Node (Leaf 168) (Leaf 174))) (Node (Node (Leaf 175) (Leaf 180)) (Node (Leaf 182) (Leaf 183)))))
    (Node (Node (Node (Node (Leaf 188) (Leaf 191)) (Node (Leaf 197) (Leaf 231))) (Node (Node (Leaf
    239) (Node (Leaf 9) (Leaf 142))) (Node (Node (Leaf 144) (Leaf 145)) (Node (Leaf 148) (Leaf
    159))))) (Node (Node (Node (Node (Leaf 171) (Leaf 206)) (Node (Leaf 215) (Leaf 225))) (Node
    (Node (Leaf 236) (Leaf 237)) (Node (Node (Leaf 199) (Leaf 207)) (Node (Leaf 234) (Leaf 235)))))
    (Node (Node (Node (Node (Node (Leaf 192) (Leaf 193)) (Node (Leaf 200) (Leaf 201))) (Node (Node
    (Leaf 202) (Leaf 205)) (Node (Leaf 210) (Leaf 213)))) (Node (Node (Node (Leaf 218) (Leaf 219))
    (Node (Leaf 238) (Leaf 240))) (Node (Node (Leaf 242) (Leaf 243)) (Node (Leaf 255) (Node (Leaf
    203) (Leaf 204)))))) (Node (Node (Node (Node (Node (Leaf 211) (Leaf 212)) (Node (Leaf 214) (Leaf
    221))) (Node (Node (Leaf 222) (Leaf 223)) (Node (Leaf 241) (Leaf 244)))) (Node (Node (Node (Leaf
    245) (Leaf 246)) (Node (Leaf 247) (Leaf 248))) (Node (Node (Leaf 250) (Leaf 251)) (Node (Leaf
    252) (Leaf 253))))) (Node (Node (Node (Node (Leaf 254) (Node (Leaf 2) (Leaf 3))) (Node (Node
    (Leaf 4) (Leaf 5)) (Node (Leaf 6) (Leaf 7)))) (Node (Node (Node (Leaf 8) (Leaf 11)) (Node (Leaf
    12) (Leaf 14))) (Node (Node (Leaf 15) (Leaf 16)) (Node (Leaf 17) (Leaf 18))))) (Node (Node (Node
    (Node (Leaf 19) (Leaf 20)) (Node (Leaf 21) (Leaf 23))) (Node (Node (Leaf 24) (Leaf 25)) (Node
    (Leaf 26) (Leaf 27)))) (Node (Node (Node (Leaf 28) (Leaf 29)) (Node (Leaf 30) (Leaf 31))) (Node
    (Node (Leaf 127) (Leaf 220)) (Node (Leaf 249) (Node (Node (Leaf 10) (Leaf 13)) (Node (Leaf 22)
    (Leaf 256)))))))))))))))))))))))))))))))"

definition huff_leaves :: "(nat \<times> u32 \<times> nat) list" where
  "huff_leaves = [
    (48, 0x0, 5), (49, 0x1, 5), (50, 0x2, 5), (97, 0x3, 5), (99, 0x4, 5), (101, 0x5, 5), (105, 0x6,
    5), (111, 0x7, 5), (115, 0x8, 5), (116, 0x9, 5), (32, 0x14, 6), (37, 0x15, 6), (45, 0x16, 6),
    (46, 0x17, 6), (47, 0x18, 6), (51, 0x19, 6), (52, 0x1a, 6), (53, 0x1b, 6), (54, 0x1c, 6), (55,
    0x1d, 6), (56, 0x1e, 6), (57, 0x1f, 6), (61, 0x20, 6), (65, 0x21, 6), (95, 0x22, 6), (98, 0x23,
    6), (100, 0x24, 6), (102, 0x25, 6), (103, 0x26, 6), (104, 0x27, 6), (108, 0x28, 6), (109, 0x29,
    6), (110, 0x2a, 6), (112, 0x2b, 6), (114, 0x2c, 6), (117, 0x2d, 6), (58, 0x5c, 7), (66, 0x5d,
    7), (67, 0x5e, 7), (68, 0x5f, 7), (69, 0x60, 7), (70, 0x61, 7), (71, 0x62, 7), (72, 0x63, 7),
    (73, 0x64, 7), (74, 0x65, 7), (75, 0x66, 7), (76, 0x67, 7), (77, 0x68, 7), (78, 0x69, 7), (79,
    0x6a, 7), (80, 0x6b, 7), (81, 0x6c, 7), (82, 0x6d, 7), (83, 0x6e, 7), (84, 0x6f, 7), (85, 0x70,
    7), (86, 0x71, 7), (87, 0x72, 7), (89, 0x73, 7), (106, 0x74, 7), (107, 0x75, 7), (113, 0x76, 7),
    (118, 0x77, 7), (119, 0x78, 7), (120, 0x79, 7), (121, 0x7a, 7), (122, 0x7b, 7), (38, 0xf8, 8),
    (42, 0xf9, 8), (44, 0xfa, 8), (59, 0xfb, 8), (88, 0xfc, 8), (90, 0xfd, 8), (33, 0x3f8, 10), (34,
    0x3f9, 10), (40, 0x3fa, 10), (41, 0x3fb, 10), (63, 0x3fc, 10), (39, 0x7fa, 11), (43, 0x7fb, 11),
    (124, 0x7fc, 11), (35, 0xffa, 12), (62, 0xffb, 12), (0, 0x1ff8, 13), (36, 0x1ff9, 13), (64,
    0x1ffa, 13), (91, 0x1ffb, 13), (93, 0x1ffc, 13), (126, 0x1ffd, 13), (94, 0x3ffc, 14), (125,
    0x3ffd, 14), (60, 0x7ffc, 15), (96, 0x7ffd, 15), (123, 0x7ffe, 15), (92, 0x7fff0, 19), (195,
    0x7fff1, 19), (208, 0x7fff2, 19), (128, 0xfffe6, 20), (130, 0xfffe7, 20), (131, 0xfffe8, 20),
    (162, 0xfffe9, 20), (184, 0xfffea, 20), (194, 0xfffeb, 20), (224, 0xfffec, 20), (226, 0xfffed,
    20), (153, 0x1fffdc, 21), (161, 0x1fffdd, 21), (167, 0x1fffde, 21), (172, 0x1fffdf, 21), (176,
    0x1fffe0, 21), (177, 0x1fffe1, 21), (179, 0x1fffe2, 21), (209, 0x1fffe3, 21), (216, 0x1fffe4,
    21), (217, 0x1fffe5, 21), (227, 0x1fffe6, 21), (229, 0x1fffe7, 21), (230, 0x1fffe8, 21), (129,
    0x3fffd2, 22), (132, 0x3fffd3, 22), (133, 0x3fffd4, 22), (134, 0x3fffd5, 22), (136, 0x3fffd6,
    22), (146, 0x3fffd7, 22), (154, 0x3fffd8, 22), (156, 0x3fffd9, 22), (160, 0x3fffda, 22), (163,
    0x3fffdb, 22), (164, 0x3fffdc, 22), (169, 0x3fffdd, 22), (170, 0x3fffde, 22), (173, 0x3fffdf,
    22), (178, 0x3fffe0, 22), (181, 0x3fffe1, 22), (185, 0x3fffe2, 22), (186, 0x3fffe3, 22), (187,
    0x3fffe4, 22), (189, 0x3fffe5, 22), (190, 0x3fffe6, 22), (196, 0x3fffe7, 22), (198, 0x3fffe8,
    22), (228, 0x3fffe9, 22), (232, 0x3fffea, 22), (233, 0x3fffeb, 22), (1, 0x7fffd8, 23), (135,
    0x7fffd9, 23), (137, 0x7fffda, 23), (138, 0x7fffdb, 23), (139, 0x7fffdc, 23), (140, 0x7fffdd,
    23), (141, 0x7fffde, 23), (143, 0x7fffdf, 23), (147, 0x7fffe0, 23), (149, 0x7fffe1, 23), (150,
    0x7fffe2, 23), (151, 0x7fffe3, 23), (152, 0x7fffe4, 23), (155, 0x7fffe5, 23), (157, 0x7fffe6,
    23), (158, 0x7fffe7, 23), (165, 0x7fffe8, 23), (166, 0x7fffe9, 23), (168, 0x7fffea, 23), (174,
    0x7fffeb, 23), (175, 0x7fffec, 23), (180, 0x7fffed, 23), (182, 0x7fffee, 23), (183, 0x7fffef,
    23), (188, 0x7ffff0, 23), (191, 0x7ffff1, 23), (197, 0x7ffff2, 23), (231, 0x7ffff3, 23), (239,
    0x7ffff4, 23), (9, 0xffffea, 24), (142, 0xffffeb, 24), (144, 0xffffec, 24), (145, 0xffffed, 24),
    (148, 0xffffee, 24), (159, 0xffffef, 24), (171, 0xfffff0, 24), (206, 0xfffff1, 24), (215,
    0xfffff2, 24), (225, 0xfffff3, 24), (236, 0xfffff4, 24), (237, 0xfffff5, 24), (199, 0x1ffffec,
    25), (207, 0x1ffffed, 25), (234, 0x1ffffee, 25), (235, 0x1ffffef, 25), (192, 0x3ffffe0, 26),
    (193, 0x3ffffe1, 26), (200, 0x3ffffe2, 26), (201, 0x3ffffe3, 26), (202, 0x3ffffe4, 26), (205,
    0x3ffffe5, 26), (210, 0x3ffffe6, 26), (213, 0x3ffffe7, 26), (218, 0x3ffffe8, 26), (219,
    0x3ffffe9, 26), (238, 0x3ffffea, 26), (240, 0x3ffffeb, 26), (242, 0x3ffffec, 26), (243,
    0x3ffffed, 26), (255, 0x3ffffee, 26), (203, 0x7ffffde, 27), (204, 0x7ffffdf, 27), (211,
    0x7ffffe0, 27), (212, 0x7ffffe1, 27), (214, 0x7ffffe2, 27), (221, 0x7ffffe3, 27), (222,
    0x7ffffe4, 27), (223, 0x7ffffe5, 27), (241, 0x7ffffe6, 27), (244, 0x7ffffe7, 27), (245,
    0x7ffffe8, 27), (246, 0x7ffffe9, 27), (247, 0x7ffffea, 27), (248, 0x7ffffeb, 27), (250,
    0x7ffffec, 27), (251, 0x7ffffed, 27), (252, 0x7ffffee, 27), (253, 0x7ffffef, 27), (254,
    0x7fffff0, 27), (2, 0xfffffe2, 28), (3, 0xfffffe3, 28), (4, 0xfffffe4, 28), (5, 0xfffffe5, 28),
    (6, 0xfffffe6, 28), (7, 0xfffffe7, 28), (8, 0xfffffe8, 28), (11, 0xfffffe9, 28), (12, 0xfffffea,
    28), (14, 0xfffffeb, 28), (15, 0xfffffec, 28), (16, 0xfffffed, 28), (17, 0xfffffee, 28), (18,
    0xfffffef, 28), (19, 0xffffff0, 28), (20, 0xffffff1, 28), (21, 0xffffff2, 28), (23, 0xffffff3,
    28), (24, 0xffffff4, 28), (25, 0xffffff5, 28), (26, 0xffffff6, 28), (27, 0xffffff7, 28), (28,
    0xffffff8, 28), (29, 0xffffff9, 28), (30, 0xffffffa, 28), (31, 0xffffffb, 28), (127, 0xffffffc,
    28), (220, 0xffffffd, 28), (249, 0xffffffe, 28), (10, 0x3ffffffc, 30), (13, 0x3ffffffd, 30),
    (22, 0x3ffffffe, 30), (256, 0x3fffffff, 30)
  ]"

section \<open>Lemmas on bit lists\<close>

lemma length_to_bits [simp]: "length (to_bits n x) = n"
  by (simp add: to_bits_def)

lemma nth_to_bits: "i < n \<Longrightarrow> to_bits n x ! i = bit x (n - 1 - i)"
  by (simp add: to_bits_def rev_nth)

lemma take_to_bits: "b \<le> n \<Longrightarrow> take b (to_bits n x) = to_bits b (drop_bit (n - b) x)"
  by (rule nth_equalityI) (auto simp: nth_to_bits bit_simps intro!: arg_cong [of _ _ "bit x"])

lemma drop_to_bits: "u \<le> n \<Longrightarrow> drop u (to_bits n x) = to_bits (n - u) x"
  by (rule nth_equalityI) (auto simp: nth_to_bits)

lemma to_bits_take_bit: "n \<le> m \<Longrightarrow> to_bits n (take_bit m x) = to_bits n x"
  by (rule nth_equalityI) (auto simp: nth_to_bits bit_simps dest: bit_imp_le_length)

lemma to_bits_push:
  fixes acc :: u64 and b :: u8
  assumes "n + 8 \<le> 64"
  shows "to_bits (n + 8) (push_bit 8 acc OR ucast b) = to_bits n acc @ to_bits 8 b"
proof (rule nth_equalityI)
  fix i assume i: "i < length (to_bits (n + 8) (push_bit 8 acc OR ucast b))"
  show "to_bits (n + 8) (push_bit 8 acc OR ucast b) ! i = (to_bits n acc @ to_bits 8 b) ! i"
  proof (cases "i < n")
    case True
    then show ?thesis
      using assms by (auto simp: nth_to_bits nth_append bit_simps dest: bit_imp_le_length)
  next
    case False
    then have "n + 8 - 1 - i = 8 - 1 - (i - n)" "n + 7 - i < 8"
      using i by auto
    then show ?thesis
      using False i assms by (auto simp: nth_to_bits nth_append bit_simps)
  qed
qed simp

lemma to_bits_eqD: "to_bits n x = to_bits n y \<Longrightarrow> i < n \<Longrightarrow> bit x i = bit y i"
  by (auto simp: to_bits_def)

lemma HUFF_lengths: "list_all (\<lambda>(code, bits). 5 \<le> bits \<and> bits \<le> 30) HUFF"
  by (simp add: HUFF_def)

lemma length_HUFF: "length HUFF = 257"
  by (simp add: HUFF_def)

lemma HUFF_nth_lengths: "s < 257 \<Longrightarrow> 5 \<le> snd (HUFF ! s) \<and> snd (HUFF ! s) \<le> 30"
  using HUFF_lengths by (cases "HUFF ! s") (auto simp: list_all_length length_HUFF)

lemma bit_child:
  "bit (2 * v) i \<longleftrightarrow> 0 < i \<and> i < LENGTH('a) \<and> bit v (i - 1)"
  "bit (2 * v + 1) i \<longleftrightarrow> i = 0 \<or> (0 < i \<and> i < LENGTH('a) \<and> bit v (i - 1))"
  for v :: "'a::len word"
  using even_bit_succ_iff [of "2 * v" i]
  by (auto simp: bit_double_iff add.commute [of 1])

lemma to_bits_child:
  "n < LENGTH('a) \<Longrightarrow> to_bits (Suc n) (2 * v) = to_bits n v @ [False]"
  "n < LENGTH('a) \<Longrightarrow> to_bits (Suc n) (2 * v + 1) = to_bits n v @ [True]"
  for v :: "'a::len word"
  by (rule nth_equalityI; auto simp: nth_to_bits nth_append bit_child less_Suc_eq)+

section \<open>The table is a complete prefix code\<close>

lemma leaves_huff_tree: "leaves huff_tree 0 0 = huff_leaves"
  unfolding huff_tree_def huff_leaves_def by simp

lemma huff_leaves_HUFF: "list_all (\<lambda>(s, v, n). HUFF ! s = (v, n)) huff_leaves"
  unfolding huff_leaves_def HUFF_def by simp

lemma huff_leaves_symbols: "length huff_leaves = 257" "list_all (\<lambda>(s, v, n). s < 257) huff_leaves"
  unfolding huff_leaves_def by simp_all

lemma depth_huff_tree: "depth huff_tree = 30"
  unfolding huff_tree_def by simp

lemma HUFF_fits: "list_all (\<lambda>(code, bits). unat code < 2 ^ bits) HUFF"
  by (simp add: HUFF_def)

lemma leaves_paths:
  "n + depth t \<le> 32 \<Longrightarrow> map (\<lambda>(s, w, m). (to_bits m w, s)) (leaves t v n) =
    map (\<lambda>(p, s). (to_bits n v @ p, s)) (paths t)"
proof (induction t arbitrary: v n)
  case (Node l r)
  have "to_bits (Suc n) (2 * v) = to_bits n v @ [False]"
    "to_bits (Suc n) (2 * v + 1) = to_bits n v @ [True]"
    using Node.prems by (simp_all add: to_bits_child)
  then show ?case
    using Node by (simp add: comp_def case_prod_unfold)
qed simp

lemma paths_prefix_free:
  "(p, s) \<in> set (paths t) \<Longrightarrow> (q, r) \<in> set (paths t) \<Longrightarrow> prefix p q \<Longrightarrow> p = q \<and> s = r"
  by (induction t arbitrary: p q) auto

lemma distinct_paths: "distinct (paths t)"
  by (induction t) (auto simp: distinct_map inj_on_def)

lemma paths_complete: "depth t \<le> length bs \<Longrightarrow> \<exists>p s. (p, s) \<in> set (paths t) \<and> prefix p bs"
proof (induction t arbitrary: bs)
  case (Node l r)
  then obtain b bs' where bs: "bs = b # bs'"
    by (cases bs) auto
  show ?case
  proof (cases b)
    case True
    then obtain p s where "(p, s) \<in> set (paths r)" "prefix p bs'"
      using Node.IH(2) [of bs'] Node.prems bs by auto
    then have "(True # p, s) \<in> set (paths (Node l r))" "prefix (True # p) bs"
      using True bs by force+
    then show ?thesis
      by blast
  next
    case False
    then obtain p s where "(p, s) \<in> set (paths l)" "prefix p bs'"
      using Node.IH(1) [of bs'] Node.prems bs by auto
    then have "(False # p, s) \<in> set (paths (Node l r))" "prefix (False # p) bs"
      using False bs by force+
    then show ?thesis
      by blast
  qed
qed simp

lemma paths_huff_tree: "paths huff_tree = map (\<lambda>(s, w, m). (to_bits m w, s)) huff_leaves"
proof -
  have "map (\<lambda>(s, w, m). (to_bits m w, s)) (leaves huff_tree 0 0) =
      map (\<lambda>(p, s). (to_bits 0 (0 :: u32) @ p, s)) (paths huff_tree)"
    by (rule leaves_paths) (simp add: depth_huff_tree)
  then show ?thesis
    by (simp add: leaves_huff_tree to_bits_def)
qed

lemma path_is_code: "(p, s) \<in> set (paths huff_tree) \<Longrightarrow> s < 257 \<and> p = code_bits s"
  using huff_leaves_HUFF huff_leaves_symbols(2)
  by (fastforce simp: paths_huff_tree list_all_iff code_bits_def)

lemma code_is_path:
  assumes "s < 257"
  shows "(code_bits s, s) \<in> set (paths huff_tree)"
proof -
  have inj: "inj_on snd (set (paths huff_tree))"
    by (auto simp: inj_on_def) (metis path_is_code)
  have "card (snd ` set (paths huff_tree)) = 257"
    using card_image [OF inj] distinct_card [OF distinct_paths [of huff_tree]]
    by (simp add: paths_huff_tree huff_leaves_symbols)
  moreover have "snd ` set (paths huff_tree) \<subseteq> {..<257}"
    by (auto dest: path_is_code)
  ultimately have "snd ` set (paths huff_tree) = {..<257}"
    by (simp add: card_subset_eq)
  then have "s \<in> snd ` set (paths huff_tree)"
    using assms by simp
  then obtain p where "(p, s) \<in> set (paths huff_tree)"
    by auto
  then show ?thesis
    using path_is_code by blast
qed

lemma code_prefix_unique:
  assumes "s < 257" "r < 257" "prefix (code_bits s) bs" "prefix (code_bits r) bs"
  shows "s = r"
  using prefix_same_cases [OF assms(3,4)] code_is_path [OF assms(1)] code_is_path [OF assms(2)]
    paths_prefix_free by blast

lemma code_prefix_exists: "30 \<le> length bs \<Longrightarrow> \<exists>s < 257. prefix (code_bits s) bs"
  using paths_complete [of huff_tree bs] by (auto simp: depth_huff_tree dest: path_is_code)

end
