(* ===== verification/Huffman.thy ===== *)
theory Huffman
  imports Huffman_Code
begin

text \<open>
  The HPACK Huffman decoder of \<open>src/agent/src/h2/hpack.rs\<close>: the linear scan for a code at the
  top of the 64-bit accumulator, the inner loop that consumes codes, and the byte loop with
  its padding check. The specification is RFC 7541 5.2 on bit lists: \<open>huff_bits\<close>
  concatenates the codes of the symbols, and the last byte is filled with at most seven ones.
\<close>

primrec huff_scan :: "u64 \<Rightarrow> nat \<Rightarrow> nat \<Rightarrow> (u32 \<times> nat) list \<Rightarrow> (nat \<times> nat) option" where
  "huff_scan acc nbits sy [] = None"
| "huff_scan acc nbits sy (e # es) =
    (case e of (code, bits) \<Rightarrow>
       if nbits < bits then huff_scan acc nbits (Suc sy) es
       else if drop_bit (nbits - bits) acc = ucast code then Some (sy, bits)
       else huff_scan acc nbits (Suc sy) es)"

definition match_huff :: "u64 \<Rightarrow> nat \<Rightarrow> (nat \<times> nat) option" where
  "match_huff acc nbits = (if nbits < 5 then None else huff_scan acc nbits 0 HUFF)"

lemma huff_scan_used:
  "huff_scan acc nbits k es = Some (sy, used) \<Longrightarrow>
    k \<le> sy \<and> sy - k < length es \<and> used = snd (es ! (sy - k)) \<and> used \<le> nbits \<and>
    drop_bit (nbits - used) acc = ucast (fst (es ! (sy - k)))"
proof (induction es arbitrary: k)
  case (Cons e es)
  show ?case
  proof (cases "sy = k")
    case True
    then show ?thesis
      using Cons.prems Cons.IH [of "Suc k"] by (auto split: prod.splits if_splits)
  next
    case False
    then have "huff_scan acc nbits (Suc k) es = Some (sy, used)"
      using Cons.prems by (auto split: prod.splits if_splits)
    moreover from this have "sy - k = Suc (sy - Suc k)"
      using Cons.IH [of "Suc k"] by auto
    ultimately show ?thesis
      using Cons.IH [of "Suc k"] by auto
  qed
qed simp

lemma match_huff_used: "match_huff acc nbits = Some (sy, used) \<Longrightarrow> 5 \<le> used \<and> used \<le> nbits"
  using huff_scan_used [of acc nbits 0 HUFF sy used] HUFF_nth_lengths [of sy]
  by (auto simp: match_huff_def length_HUFF split: if_splits)

text \<open>The inner \<open>while let\<close>: \<open>None\<close> is the early return on EOS.\<close>

function drain_huff :: "u64 \<Rightarrow> nat \<Rightarrow> bytes \<Rightarrow> (u64 \<times> nat \<times> bytes) option" where
  "drain_huff acc nbits out =
    (case match_huff acc nbits of
       None \<Rightarrow> Some (acc, nbits, out)
     | Some (sy, used) \<Rightarrow>
         let nbits' = nbits - used;
             acc' = acc AND (push_bit nbits' 1 - 1)
         in if sy = 256 then None
            else if sy > 255 then None
            else drain_huff acc' nbits' (out @ [of_nat sy]))"
  by pat_completeness auto
termination
proof (relation "measure (\<lambda>(acc, nbits, out). nbits)")
  fix acc :: u64 and nbits :: nat and out :: bytes
    and x2 :: "nat \<times> nat" and sy used :: nat and nbits' :: nat and acc' :: u64
  assume "match_huff acc nbits = Some x2" "(sy, used) = x2" "nbits' = nbits - used"
  then show "((acc', nbits', out @ [of_nat sy]), acc, nbits, out)
      \<in> measure (\<lambda>(acc, nbits, out). nbits)"
    using match_huff_used [of acc nbits sy used] by auto
qed simp

declare drain_huff.simps [simp del]

primrec huff_bytes :: "bytes \<Rightarrow> u64 \<Rightarrow> nat \<Rightarrow> bytes \<Rightarrow> (u64 \<times> nat \<times> bytes) option" where
  "huff_bytes [] acc nbits out = Some (acc, nbits, out)"
| "huff_bytes (b # bs) acc nbits out =
    (case drain_huff (push_bit 8 acc OR ucast b) (nbits + 8) out of
       None \<Rightarrow> None
     | Some (acc, nbits, out) \<Rightarrow> huff_bytes bs acc nbits out)"

definition decode_huffman :: "bytes \<Rightarrow> bytes option" where
  "decode_huffman src =
    (case huff_bytes src 0 0 [] of
       None \<Rightarrow> None
     | Some (acc, nbits, out) \<Rightarrow>
         if nbits > 7 then None
         else if nbits > 0 \<and> acc \<noteq> push_bit nbits 1 - 1 then None
         else Some out)"

section \<open>Specification\<close>

definition huff_bits :: "bytes \<Rightarrow> bool list" where
  "huff_bits x = concat (map (\<lambda>b. code_bits (unat b)) x)"

definition bits_of_bytes :: "bytes \<Rightarrow> bool list" where
  "bits_of_bytes src = concat (map (to_bits 8) src)"

text \<open>The encoder: bits packed eight to a byte, the last byte filled with ones.\<close>

definition byte_of_bits :: "bool list \<Rightarrow> u8" where
  "byte_of_bits bs = foldl (\<lambda>w b. 2 * w + (if b then 1 else 0)) 0 bs"

function pack :: "bool list \<Rightarrow> bytes" where
  "pack bs = (if bs = [] then []
    else byte_of_bits (take 8 (bs @ replicate 7 True)) # pack (drop 8 bs))"
  by pat_completeness auto
termination
  by (relation "measure length") auto

declare pack.simps [simp del]

definition huffman_encode :: "bytes \<Rightarrow> bytes" where
  "huffman_encode x = pack (huff_bits x)"

section \<open>The scan finds the unique code at the top of the accumulator\<close>

lemma huff_scan_None:
  "huff_scan acc nbits k es = None \<Longrightarrow> (code, bits) \<in> set es \<Longrightarrow> bits \<le> nbits \<Longrightarrow>
    drop_bit (nbits - bits) acc \<noteq> ucast code"
  by (induction es arbitrary: k) (auto split: if_splits)

lemma length_code_bits: "length (code_bits s) = snd (HUFF ! s)"
  by (simp add: code_bits_def split: prod.splits)

lemma code_bits_long: "s < 257 \<Longrightarrow> 5 \<le> length (code_bits s) \<and> length (code_bits s) \<le> 30"
  by (simp add: length_code_bits HUFF_nth_lengths)

lemma HUFF_nth_fits: "s < 257 \<Longrightarrow> unat (fst (HUFF ! s)) < 2 ^ snd (HUFF ! s)"
  using HUFF_fits by (cases "HUFF ! s") (auto simp: list_all_length length_HUFF)

lemma prefix_to_bits: "b \<le> n \<Longrightarrow> prefix p (to_bits n x) \<and> length p = b \<longleftrightarrow>
    p = to_bits b (drop_bit (n - b) x)"
  by (auto simp: take_to_bits [symmetric] prefix_def take_is_prefix
      intro: exI [of _ "drop b (to_bits n x)"])

lemma code_at_top:
  fixes acc :: u64 and c :: u32
  assumes "b \<le> n" "take_bit n acc = acc" "unat c < 2 ^ b" "b \<le> 32"
  shows "drop_bit (n - b) acc = ucast c \<longleftrightarrow> prefix (to_bits b c) (to_bits n acc)"
proof
  assume "drop_bit (n - b) acc = ucast c"
  moreover have "to_bits b (ucast c :: u64) = to_bits b c"
    using assms(4) by (intro nth_equalityI) (auto simp: nth_to_bits bit_simps dest: bit_imp_le_length)
  ultimately show "prefix (to_bits b c) (to_bits n acc)"
    using assms(1) prefix_to_bits [of b n "to_bits b c" acc] by simp
next
  assume "prefix (to_bits b c) (to_bits n acc)"
  then have eq: "to_bits b (drop_bit (n - b) acc) = to_bits b c"
    using assms(1) prefix_to_bits [of b n "to_bits b c" acc] by simp
  have hi: "\<not> bit (drop_bit (n - b) acc) i" "\<not> bit c i" if "b \<le> i" for i
    using that assms(1) arg_cong [OF assms(2), of "\<lambda>x. bit x (n - b + i)"]
      arg_cong [OF take_bit_word_unat [OF assms(3)], of "\<lambda>x. bit x i"]
    by (auto simp: bit_simps)
  show "drop_bit (n - b) acc = ucast c"
  proof (rule bit_word_eqI)
    fix i assume "i < LENGTH(64)"
    show "bit (drop_bit (n - b) acc) i = bit (ucast c :: u64) i"
    proof (cases "i < b")
      case True
      have "bit (drop_bit (n - b) acc) i = bit c i"
        using True by (rule to_bits_eqD [OF eq])
      then show ?thesis
        using \<open>i < LENGTH(64)\<close> by (simp add: bit_ucast_iff)
    next
      case False
      then show ?thesis
        using hi [of i] by (simp add: bit_ucast_iff)
    qed
  qed
qed

lemma code_at_top_HUFF:
  fixes acc :: u64
  assumes "s < 257" "snd (HUFF ! s) \<le> n" "take_bit n acc = acc"
  shows "drop_bit (n - snd (HUFF ! s)) acc = ucast (fst (HUFF ! s)) \<longleftrightarrow>
    prefix (code_bits s) (to_bits n acc)"
  using code_at_top [of "snd (HUFF ! s)" n acc "fst (HUFF ! s)"] assms HUFF_nth_lengths [of s]
    HUFF_nth_fits [of s]
  by (simp add: code_bits_def split: prod.splits)

lemma match_huff_Some:
  assumes "take_bit n acc = acc" "match_huff acc n = Some (s, u)"
  shows "s < 257 \<and> u = length (code_bits s) \<and> u \<le> n \<and> prefix (code_bits s) (to_bits n acc)"
  using huff_scan_used [of acc n 0 HUFF s u] code_at_top_HUFF [of s n acc] assms
  by (auto simp: match_huff_def length_HUFF length_code_bits split: if_splits)

lemma match_huff_None:
  assumes "take_bit n acc = acc" "match_huff acc n = None" "s < 257"
  shows "\<not> prefix (code_bits s) (to_bits n acc)"
proof
  assume p: "prefix (code_bits s) (to_bits n acc)"
  then have le: "snd (HUFF ! s) \<le> n"
    by (metis length_code_bits length_to_bits prefix_length_le)
  then have "huff_scan acc n 0 HUFF = None"
    using assms HUFF_nth_lengths [of s] by (simp add: match_huff_def split: if_splits)
  moreover have "HUFF ! s \<in> set HUFF"
    using assms(3) by (simp add: length_HUFF)
  ultimately have "drop_bit (n - snd (HUFF ! s)) acc \<noteq> ucast (fst (HUFF ! s))"
    using le huff_scan_None [of acc n 0 HUFF "fst (HUFF ! s)" "snd (HUFF ! s)"] by simp
  then show False
    using code_at_top_HUFF [OF assms(3) le assms(1)] p by simp
qed

section \<open>The loops\<close>

definition stuck :: "bool list \<Rightarrow> bool" where
  "stuck bs \<longleftrightarrow> (\<forall>s < 257. \<not> prefix (code_bits s) bs)"

lemma stuck_short: "stuck bs \<Longrightarrow> length bs < 30"
  using code_prefix_exists [of bs] by (fastforce simp: stuck_def)

lemma huff_bits_simps [simp]:
  "huff_bits [] = []" "huff_bits (b # x) = code_bits (unat b) @ huff_bits x"
  "huff_bits (x @ y) = huff_bits x @ huff_bits y"
  by (simp_all add: huff_bits_def)

lemma bits_of_bytes_simps [simp]:
  "bits_of_bytes [] = []" "bits_of_bytes (b # x) = to_bits 8 b @ bits_of_bytes x"
  by (simp_all add: bits_of_bytes_def)

lemma low_mask: "acc AND (2 ^ n - 1) = take_bit n acc" for acc :: u64
  by (simp add: take_bit_eq_mask mask_eq_exp_minus_1)

lemma consume_code:
  assumes "take_bit n acc = acc" "match_huff acc n = Some (s, u)"
  shows "to_bits n acc = code_bits s @ to_bits (n - u) (take_bit (n - u) acc)"
proof -
  have m: "u = length (code_bits s)" "u \<le> n" "prefix (code_bits s) (to_bits n acc)"
    using match_huff_Some [OF assms] by auto
  then have "to_bits n acc = code_bits s @ drop u (to_bits n acc)"
    by (auto simp: prefix_def)
  then show ?thesis
    using m by (simp add: drop_to_bits to_bits_take_bit)
qed

definition drain_post :: "bool list \<Rightarrow> bytes \<Rightarrow> (u64 \<times> nat \<times> bytes) option \<Rightarrow> bool" where
  "drain_post bs out r \<longleftrightarrow>
    (case r of
       None \<Rightarrow> \<exists>x rest. bs = huff_bits x @ code_bits 256 @ rest
     | Some (acc, n, out') \<Rightarrow> \<exists>x. out' = out @ x \<and> bs = huff_bits x @ to_bits n acc
         \<and> take_bit n acc = acc \<and> stuck (to_bits n acc))"

lemma drain_post_Cons:
  "drain_post bs (out @ [b]) r \<Longrightarrow> drain_post (code_bits (unat b) @ bs) out r"
proof (cases r)
  case None
  assume "drain_post bs (out @ [b]) r"
  then obtain x rest where "bs = huff_bits x @ code_bits 256 @ rest"
    using None by (auto simp: drain_post_def)
  then have "code_bits (unat b) @ bs = huff_bits (b # x) @ code_bits 256 @ rest"
    by simp
  then show ?thesis
    unfolding drain_post_def None option.case by blast
next
  case (Some t)
  assume "drain_post bs (out @ [b]) r"
  moreover obtain acc n out' where t: "t = (acc, n, out')"
    by (cases t)
  ultimately obtain x where "out' = out @ (b # x)"
    "code_bits (unat b) @ bs = huff_bits (b # x) @ to_bits n acc"
    "take_bit n acc = acc" "stuck (to_bits n acc)"
    using Some by (auto simp: drain_post_def)
  then show ?thesis
    unfolding drain_post_def Some t option.case prod.case by blast
qed

lemma drain_huff_post: "take_bit n acc = acc \<Longrightarrow> drain_post (to_bits n acc) out (drain_huff acc n out)"
proof (induction acc n out rule: drain_huff.induct)
  case (1 acc n out)
  show ?case
  proof (cases "match_huff acc n")
    case None
    then have "stuck (to_bits n acc)"
      using match_huff_None [OF "1.prems"] by (simp add: stuck_def)
    then show ?thesis
      using None "1.prems" by (simp add: drain_huff.simps drain_post_def)
  next
    case (Some r)
    obtain s u where r: "r = (s, u)"
      by force
    have bs: "to_bits n acc = code_bits s @ to_bits (n - u) (take_bit (n - u) acc)"
      using consume_code "1.prems" Some r by simp
    show ?thesis
    proof (cases "s < 256")
      case True
      have "drain_post (to_bits (n - u) (take_bit (n - u) acc)) (out @ [of_nat s])
          (drain_huff (take_bit (n - u) acc) (n - u) (out @ [of_nat s]))"
        using "1.IH" [OF Some r [symmetric] refl refl] True by (simp add: low_mask)
      moreover have "unat (of_nat s :: u8) = s"
        using True by (simp add: unat_of_nat take_bit_nat_eq_self)
      ultimately have "drain_post (to_bits n acc) out
          (drain_huff (take_bit (n - u) acc) (n - u) (out @ [of_nat s]))"
        using drain_post_Cons [of _ out "of_nat s"] bs by metis
      then show ?thesis
        using True by (subst drain_huff.simps) (simp add: Some r low_mask Let_def)
    next
      case False
      then have "s = 256"
        using match_huff_Some [OF "1.prems"] Some r by fastforce
      then have "drain_huff acc n out = None"
        by (subst drain_huff.simps) (simp add: Some r Let_def)
      then show ?thesis
        using bs \<open>s = 256\<close> by (auto simp: drain_post_def intro: exI [of _ "[]"])
    qed
  qed
qed

lemma push_byte_fits:
  fixes acc :: u64 and b :: u8
  assumes "take_bit n acc = acc"
  shows "take_bit (n + 8) (push_bit 8 acc OR ucast b) = push_bit 8 acc OR ucast b"
proof (rule bit_word_eqI)
  fix i assume "i < LENGTH(64)"
  have "\<not> bit acc (i - 8)" if "n + 8 \<le> i"
    using that arg_cong [OF assms, of "\<lambda>x. bit x (i - 8)"] by (auto simp: bit_simps)
  moreover have "\<not> bit b i" if "n + 8 \<le> i"
    using that by (auto dest: bit_imp_le_length)
  ultimately show "bit (take_bit (n + 8) (push_bit 8 acc OR ucast b)) i =
      bit (push_bit 8 acc OR ucast b) i"
    by (auto simp: bit_simps not_less)
qed

lemma huff_bytes_post:
  "take_bit n acc = acc \<Longrightarrow> stuck (to_bits n acc) \<Longrightarrow>
    drain_post (to_bits n acc @ bits_of_bytes src) out (huff_bytes src acc n out)"
proof (induction src arbitrary: acc n out)
  case Nil
  then show ?case
    by (auto simp: drain_post_def)
next
  case (Cons b src)
  let ?acc = "push_bit 8 acc OR ucast b :: u64"
  have n: "n < 30"
    using stuck_short [OF Cons.prems(2)] by simp
  have bits: "to_bits n acc @ to_bits 8 b = to_bits (n + 8) ?acc"
    using n by (simp add: to_bits_push)
  have d: "drain_post (to_bits (n + 8) ?acc) out (drain_huff ?acc (n + 8) out)"
    using push_byte_fits [OF Cons.prems(1)] by (rule drain_huff_post)
  show ?case
  proof (cases "drain_huff ?acc (n + 8) out")
    case None
    then obtain x rest where "to_bits (n + 8) ?acc = huff_bits x @ code_bits 256 @ rest"
      using d by (auto simp: drain_post_def)
    then have "to_bits n acc @ bits_of_bytes (b # src) =
        huff_bits x @ code_bits 256 @ (rest @ bits_of_bytes src)"
      using bits by (metis append_assoc bits_of_bytes_simps(2))
    moreover have res: "huff_bytes (b # src) acc n out = None"
      using None by simp
    ultimately show ?thesis
      unfolding drain_post_def res option.case by blast
  next
    case (Some r)
    obtain acc' n' out' where r: "r = (acc', n', out')"
      by (cases r)
    then obtain x where x: "out' = out @ x" "to_bits (n + 8) ?acc = huff_bits x @ to_bits n' acc'"
      "take_bit n' acc' = acc'" "stuck (to_bits n' acc')"
      using d Some by (auto simp: drain_post_def)
    have "drain_post (to_bits n' acc' @ bits_of_bytes src) out' (huff_bytes src acc' n' out')"
      using Cons.IH x by simp
    moreover have "to_bits n acc @ bits_of_bytes (b # src) =
        huff_bits x @ to_bits n' acc' @ bits_of_bytes src"
      using bits x(2) by (metis append_assoc bits_of_bytes_simps(2))
    ultimately show ?thesis
      using Some r x(1) by (auto simp: drain_post_def split: option.splits)
        (metis append_assoc huff_bits_simps(3))+
  qed
qed

lemma stuck_nil: "stuck []"
  using code_bits_long by (force simp: stuck_def)

lemma huff_bytes_start: "drain_post (bits_of_bytes src) [] (huff_bytes src 0 0 [])"
  using huff_bytes_post [of 0 0 src "[]"] by (simp add: to_bits_def stuck_nil)

section \<open>Unique decoding\<close>

lemma code_bits_EOS: "code_bits 256 = replicate 30 True"
proof -
  have "HUFF ! 256 = (0x3fffffff, 30)"
    by (simp add: HUFF_def)
  moreover have "to_bits 30 (0x3fffffff :: u32) = replicate 30 True"
  proof (rule nth_equalityI)
    fix i assume "i < length (to_bits 30 (0x3fffffff :: u32))"
    then show "to_bits 30 (0x3fffffff :: u32) ! i = replicate 30 True ! i"
      using bit_mask_iff [where 'a = u32, of 30 "29 - i"]
      by (auto simp: nth_to_bits mask_eq_exp_minus_1)
  qed simp
  ultimately show ?thesis
    by (simp add: code_bits_def)
qed

lemma no_code_in_padding: "s < 257 \<Longrightarrow> k < 8 \<Longrightarrow> \<not> prefix (code_bits s) (replicate k True)"
proof
  assume s: "s < 257" and k: "k < 8" and p: "prefix (code_bits s) (replicate k True)"
  have "prefix (replicate k True) (replicate 30 True)"
    using k by (intro prefixI [of _ _ "replicate (30 - k) True"]) (simp flip: replicate_add)
  then have "prefix (code_bits s) (code_bits 256)"
    using p code_bits_EOS prefix_order.trans by metis
  then have "s = 256"
    using code_prefix_unique [of s 256 "code_bits 256"] s by simp
  then show False
    using p k prefix_length_le by (fastforce simp: code_bits_EOS)
qed

lemma parse_unique:
  assumes "huff_bits x @ bs = huff_bits y @ replicate k True" "k < 8"
    and "\<forall>s < 256. \<not> prefix (code_bits s) bs"
  shows "x = y \<and> bs = replicate k True"
  using assms(1)
proof (induction x arbitrary: y)
  case Nil
  show ?case
  proof (cases y)
    case (Cons b y')
    then have "prefix (code_bits (unat b)) bs"
      using Nil by simp
    then show ?thesis
      using assms(3) u8_less [of b] by auto
  qed (use Nil in simp)
next
  case (Cons a x)
  have a: "unat a < 257"
    using u8_less [of a] by simp
  show ?case
  proof (cases y)
    case Nil
    then have "prefix (code_bits (unat a)) (replicate k True)"
      using Cons.prems by (metis append_Nil append_assoc huff_bits_simps(1,2) prefixI)
    then show ?thesis
      using no_code_in_padding [OF a assms(2)] by simp
  next
    case y: (Cons b y')
    have "unat b < 257"
      using u8_less [of b] by simp
    moreover have "prefix (code_bits (unat a)) (huff_bits (a # x) @ bs)"
      by simp
    moreover have "prefix (code_bits (unat b)) (huff_bits (a # x) @ bs)"
      using Cons.prems y by (metis append_assoc huff_bits_simps(2) prefixI)
    ultimately have "unat a = unat b"
      using a code_prefix_unique by blast
    then have "a = b"
      by (rule unsigned_word_eqI)
    then show ?thesis
      using Cons.IH [of y'] Cons.prems y by simp
  qed
qed

lemma EOS_not_parsed:
  assumes "huff_bits x @ code_bits 256 @ rest = huff_bits y @ replicate k True" "k < 8"
  shows False
proof -
  have "\<forall>s < 256. \<not> prefix (code_bits s) (code_bits 256 @ rest)"
  proof (intro allI impI notI)
    fix s :: nat assume "s < 256" "prefix (code_bits s) (code_bits 256 @ rest)"
    then show False
      using code_prefix_unique [of s 256 "code_bits 256 @ rest"] by simp
  qed
  then have "code_bits 256 @ rest = replicate k True"
    using parse_unique [OF assms] by simp
  then have "30 + length rest = k"
    by (metis code_bits_EOS length_append length_replicate)
  then show False
    using assms(2) by simp
qed

lemma padding_bits:
  "n \<le> 7 \<Longrightarrow> take_bit n acc = acc \<Longrightarrow>
    (n > 0 \<and> acc \<noteq> push_bit n 1 - 1) \<longleftrightarrow> to_bits n acc \<noteq> replicate n True" for acc :: u64
proof -
  assume n: "n \<le> 7" and acc: "take_bit n acc = acc"
  have "acc = mask n \<longleftrightarrow> to_bits n acc = replicate n True"
  proof
    assume "acc = mask n"
    then show "to_bits n acc = replicate n True"
      using n by (intro nth_equalityI) (auto simp: nth_to_bits bit_mask_iff)
  next
    assume eq: "to_bits n acc = replicate n True"
    have "bit acc i \<longleftrightarrow> i < n" for i
      using arg_cong [OF acc, of "\<lambda>x. bit x i"] arg_cong [OF eq, of "\<lambda>x. x ! (n - 1 - i)"]
      by (auto simp: nth_to_bits bit_simps)
    then show "acc = mask n"
      by (intro bit_word_eqI) (simp add: bit_mask_iff)
  qed
  then show ?thesis
    by (cases "n = 0") (auto simp: mask_eq_exp_minus_1 to_bits_def)
qed

lemma decode_huffman_char:
  "decode_huffman src = Some x \<longleftrightarrow>
    (\<exists>k < 8. bits_of_bytes src = huff_bits x @ replicate k True)"
proof (cases "huff_bytes src 0 0 []")
  case None
  obtain y rest where "bits_of_bytes src = huff_bits y @ code_bits 256 @ rest"
    using None huff_bytes_start [of src] by (auto simp: drain_post_def)
  then show ?thesis
    using None EOS_not_parsed by (auto simp: decode_huffman_def)
next
  case (Some r)
  obtain acc n out where r: "r = (acc, n, out)"
    by (cases r)
  have f: "bits_of_bytes src = huff_bits out @ to_bits n acc" "take_bit n acc = acc"
    "stuck (to_bits n acc)"
    using Some r huff_bytes_start [of src] by (auto simp: drain_post_def)
  have "decode_huffman src = Some x \<longleftrightarrow> n \<le> 7 \<and> to_bits n acc = replicate n True \<and> out = x"
    using padding_bits [of n acc] f(2) by (auto simp: decode_huffman_def Some r)
  also have "\<dots> \<longleftrightarrow> (\<exists>k < 8. bits_of_bytes src = huff_bits x @ replicate k True)"
  proof
    assume "n \<le> 7 \<and> to_bits n acc = replicate n True \<and> out = x"
    then show "\<exists>k < 8. bits_of_bytes src = huff_bits x @ replicate k True"
      using f(1) by (intro exI [of _ n]) simp
  next
    assume "\<exists>k < 8. bits_of_bytes src = huff_bits x @ replicate k True"
    then obtain k where k: "k < 8" "huff_bits out @ to_bits n acc = huff_bits x @ replicate k True"
      using f(1) by auto
    then have e: "out = x" "to_bits n acc = replicate k True"
      using f(3) parse_unique [OF k(2,1)] by (auto simp: stuck_def)
    moreover have "n = k"
      using arg_cong [OF e(2), of length] by simp
    ultimately show "n \<le> 7 \<and> to_bits n acc = replicate n True \<and> out = x"
      using k(1) by simp
  qed
  finally show ?thesis .
qed

section \<open>The encoder\<close>

lemma to_bits_byte: "length bs \<le> 8 \<Longrightarrow> to_bits (length bs) (byte_of_bits bs) = bs"
proof (induction bs rule: rev_induct)
  case (snoc b bs)
  then show ?case
    using to_bits_child [of "length bs" "byte_of_bits bs"] by (simp add: byte_of_bits_def)
qed (simp add: to_bits_def)

lemma bits_pack: "\<exists>k < 8. bits_of_bytes (pack bs) = bs @ replicate k True"
proof (induction bs rule: pack.induct)
  case (1 bs)
  show ?case
  proof (cases "bs = []")
    case False
    let ?c = "take 8 (bs @ replicate 7 True)"
    have "length ?c = 8"
      using False by (cases bs) auto
    then have c: "to_bits 8 (byte_of_bits ?c) = ?c"
      using to_bits_byte [of ?c] by (simp only: order_refl)
    have p: "pack bs = byte_of_bits ?c # pack (drop 8 bs)"
      using False by (subst pack.simps) simp
    have step: "bits_of_bytes (pack bs) = ?c @ bits_of_bytes (pack (drop 8 bs))"
      by (simp only: p bits_of_bytes_simps c)
    show ?thesis
    proof (cases "length bs < 8")
      case True
      then have "?c = bs @ replicate (8 - length bs) True" "pack (drop 8 bs) = []"
        using False by (cases bs; simp add: pack.simps)+
      then have "bits_of_bytes (pack bs) = bs @ replicate (8 - length bs) True"
        using step by simp
      then show ?thesis
        using False by (intro exI [of _ "8 - length bs"]) auto
    next
      case long: False
      then have "?c = take 8 bs"
        by simp
      then show ?thesis
        using 1 [OF False] step by (metis append_assoc append_take_drop_id)
    qed
  qed (simp add: pack.simps)
qed


lemma decode_huffman_encode: "decode_huffman (huffman_encode x) = Some x"
  using bits_pack [of "huff_bits x"] by (simp add: decode_huffman_char huffman_encode_def)

lemma huff_bytes_bound:
  "huff_bytes src 0 0 [] = Some (acc, nbits, out) \<Longrightarrow> nbits < 30 \<and> take_bit nbits acc = acc"
  using huff_bytes_start [of src] stuck_short [of "to_bits nbits acc"] by (auto simp: drain_post_def)

text \<open>C4. The Huffman decoder accepts exactly the byte strings RFC 7541 5.2 allows and
  returns exactly the encoded symbols: it yields \<open>x\<close> if and only if the bits of the input are the
  codes of \<open>x\<close> followed by fewer than eight one bits. So EOS and bad padding are refused, and every
  string is recovered from its encoding.\<close>

theorem decode_huffman_iff:
  "(decode_huffman src = Some x \<longleftrightarrow>
      (\<exists>k. k < 8 \<and> bits_of_bytes src = huff_bits x @ replicate k True)) \<and>
    decode_huffman (huffman_encode x) = Some x"
  by (simp add: decode_huffman_char decode_huffman_encode)

text \<open>C15. Between two input bytes fewer than 30 bits are pending in the accumulator and
  no bit above them is set, whatever the input: appending a byte needs at most 37 of its 64 bits,
  so no shift overflows.\<close>

theorem huffman_accumulator_bound:
  "huff_bytes (take i src) 0 0 [] = Some (acc, nbits, out) \<Longrightarrow>
    nbits < 30 \<and> unat acc < 2 ^ nbits \<and> nbits + 8 < 64"
  using huff_bytes_bound [of "take i src" acc nbits out] unat_take_bit_less [of nbits acc] by auto

lemma match_huff_example: "match_huff 7 8 = Some (48, 5)" "match_huff 7 3 = None"
  by (simp_all add: match_huff_def HUFF_def)

lemma drain_huff_example: "drain_huff 7 8 [] = Some (7, 3, [48])"
  by (simp add: drain_huff.simps match_huff_example)

theorem huffman_accumulator_bound_witness:
  "huff_bytes (take 1 [0x07, 0xff]) 0 0 [] = Some (7, 3, [48]) \<and> unat (7 :: u64) < 2 ^ 3"
  using huffman_accumulator_bound [of 1 "[0x07, 0xff]" 7 3 "[48]"] by (simp add: drain_huff_example)

end
