(* ===== verification/Hpack.thy ===== *)
theory Hpack
  imports Huffman
begin

text \<open>
  The HPACK decoder of \<open>src/agent/src/h2/hpack.rs\<close>: static table, bounded dynamic table with
  RFC 7541 eviction, integer and string primitives, the four field representations, and the
  fail-closed \<open>decode_block\<close>. A Rust \<open>String\<close> is a HOL \<open>string\<close> with one character per UTF-8 byte;
  \<open>String::from_utf8\<close> and \<open>str::parse::<u16>\<close> are modelled from the standard library. The
  sender's side (\<open>enc_field\<close>) and the meaning of a list of representations (\<open>rfc_fields\<close>, which shares no operation
  with the decoder) are the specification the decoder is shown to implement.
\<close>

definition DYNAMIC_CAP :: nat where "DYNAMIC_CAP = 32"

definition DEFAULT_TABLE_SIZE :: nat where "DEFAULT_TABLE_SIZE = 4096"

definition ENTRY_OVERHEAD :: nat where "ENTRY_OVERHEAD = 32"

definition STATIC :: "(string \<times> string) list" where
  "STATIC = [
    ('':authority'', []),
    ('':method'', ''GET''),
    ('':method'', ''POST''),
    ('':path'', ''/''),
    ('':path'', ''/index.html''),
    ('':scheme'', ''http''),
    ('':scheme'', ''https''),
    ('':status'', ''200''),
    ('':status'', ''204''),
    ('':status'', ''206''),
    ('':status'', ''304''),
    ('':status'', ''400''),
    ('':status'', ''404''),
    ('':status'', ''500''),
    (''accept-charset'', []),
    (''accept-encoding'', ''gzip, deflate''),
    (''accept-language'', []),
    (''accept-ranges'', []),
    (''accept'', []),
    (''access-control-allow-origin'', []),
    (''age'', []),
    (''allow'', []),
    (''authorization'', []),
    (''cache-control'', []),
    (''content-disposition'', []),
    (''content-encoding'', []),
    (''content-language'', []),
    (''content-length'', []),
    (''content-location'', []),
    (''content-range'', []),
    (''content-type'', []),
    (''cookie'', []),
    (''date'', []),
    (''etag'', []),
    (''expect'', []),
    (''expires'', []),
    (''from'', []),
    (''host'', []),
    (''if-match'', []),
    (''if-modified-since'', []),
    (''if-none-match'', []),
    (''if-range'', []),
    (''if-unmodified-since'', []),
    (''last-modified'', []),
    (''link'', []),
    (''location'', []),
    (''max-forwards'', []),
    (''proxy-authenticate'', []),
    (''proxy-authorization'', []),
    (''range'', []),
    (''referer'', []),
    (''refresh'', []),
    (''retry-after'', []),
    (''server'', []),
    (''set-cookie'', []),
    (''strict-transport-security'', []),
    (''transfer-encoding'', []),
    (''user-agent'', []),
    (''vary'', []),
    (''via'', []),
    (''www-authenticate'', [])
  ]"

record Pseudo =
  ps_method :: "string option"
  ps_path :: "string option"
  ps_status :: "u16 option"
  ps_authority :: "string option"

definition Pseudo_default :: Pseudo where
  "Pseudo_default = \<lparr>ps_method = None, ps_path = None, ps_status = None, ps_authority = None\<rparr>"

record Decoder =
  d_dynamic :: "(string \<times> string) list"
  d_max_size :: nat

definition Decoder_default :: Decoder where
  "Decoder_default = \<lparr>d_dynamic = [], d_max_size = DEFAULT_TABLE_SIZE\<rparr>"

definition hpack_reset :: "Decoder \<Rightarrow> Decoder" where
  "hpack_reset d = d\<lparr>d_dynamic := [], d_max_size := DEFAULT_TABLE_SIZE\<rparr>"

section \<open>Standard-library helpers\<close>

definition cont_byte :: "u8 \<Rightarrow> bool" where
  "cont_byte b \<longleftrightarrow> 0x80 \<le> b \<and> b \<le> 0xBF"

fun utf8_valid :: "bytes \<Rightarrow> bool" where
  "utf8_valid [] = True"
| "utf8_valid (a # r) =
    (if a < 0x80 then utf8_valid r
     else if 0xC2 \<le> a \<and> a \<le> 0xDF then
       (case r of b # r' \<Rightarrow> cont_byte b \<and> utf8_valid r' | _ \<Rightarrow> False)
     else if 0xE0 \<le> a \<and> a \<le> 0xEF then
       (case r of b # c # r' \<Rightarrow>
          (if a = 0xE0 then 0xA0 \<le> b \<and> b \<le> 0xBF
           else if a = 0xED then 0x80 \<le> b \<and> b \<le> 0x9F else cont_byte b)
          \<and> cont_byte c \<and> utf8_valid r' | _ \<Rightarrow> False)
     else if 0xF0 \<le> a \<and> a \<le> 0xF4 then
       (case r of b # c # e # r' \<Rightarrow>
          (if a = 0xF0 then 0x90 \<le> b \<and> b \<le> 0xBF
           else if a = 0xF4 then 0x80 \<le> b \<and> b \<le> 0x8F else cont_byte b)
          \<and> cont_byte c \<and> cont_byte e \<and> utf8_valid r' | _ \<Rightarrow> False)
     else False)"

definition String_from_utf8 :: "bytes \<Rightarrow> string option" where
  "String_from_utf8 b = (if utf8_valid b then Some (str_of_bytes b) else None)"

definition digit_value :: "char \<Rightarrow> nat option" where
  "digit_value c = (let n = of_char c in if 48 \<le> n \<and> n \<le> 57 then Some (n - 48) else None)"

primrec parse_digits :: "string \<Rightarrow> nat \<Rightarrow> nat \<Rightarrow> nat option" where
  "parse_digits [] hi acc = Some acc"
| "parse_digits (c # cs) hi acc =
    (case digit_value c of None \<Rightarrow> None
     | Some d \<Rightarrow> let a = acc * 10 + d in if a > hi then None else parse_digits cs hi a)"

definition parse_u16 :: "string \<Rightarrow> u16 option" where
  "parse_u16 s =
    (case s of [] \<Rightarrow> None
     | c # cs \<Rightarrow>
         if c = CHR ''+'' then (if cs = [] then None else map_option of_nat (parse_digits cs 65535 0))
         else map_option of_nat (parse_digits s 65535 0))"

section \<open>Primitives\<close>

primrec decode_int_loop :: "bytes \<Rightarrow> u64 \<Rightarrow> nat \<Rightarrow> (u64 \<times> bytes) option" where
  "decode_int_loop [] v shift = None"
| "decode_int_loop (b # bs) v shift =
    (let v = v + push_bit shift (ucast (b AND 0x7f)) in
     if b AND 0x80 = 0 then Some (v, bs)
     else let shift = shift + 7 in
       if shift > 28 then None else decode_int_loop bs v shift)"

definition decode_int :: "bytes \<Rightarrow> nat \<Rightarrow> (u64 \<times> bytes) option" where
  "decode_int src prefix_bits =
    (case src of [] \<Rightarrow> None
     | b0 # bs \<Rightarrow>
         let msk = push_bit prefix_bits 1 - 1 :: u8;
             v = ucast (b0 AND msk) :: u64
         in if v < ucast msk then Some (v, bs) else decode_int_loop bs v 0)"

definition decode_string :: "bytes \<Rightarrow> (string \<times> bytes) option" where
  "decode_string src =
    (case src of [] \<Rightarrow> None
     | b0 # _ \<Rightarrow>
         let huffman = (b0 AND 0x80 \<noteq> 0) in
         (case decode_int src 7 of None \<Rightarrow> None
          | Some (len, rest) \<Rightarrow>
              let n = unat len in
              if length rest < n then None
              else let raw = take n rest in
                (case (if huffman then decode_huffman raw else Some raw) of None \<Rightarrow> None
                 | Some bs \<Rightarrow> map_option (\<lambda>s. (s, drop n rest)) (String_from_utf8 bs))))"

section \<open>The table\<close>

definition table_octets :: "(string \<times> string) list \<Rightarrow> nat" where
  "table_octets dyn = sum_list (map (\<lambda>(n, v). ENTRY_OVERHEAD + length n + length v) dyn)"

function evict :: "Decoder \<Rightarrow> Decoder" where
  "evict d =
    (if length (d_dynamic d) > DYNAMIC_CAP \<or> table_octets (d_dynamic d) > d_max_size d
     then if d_dynamic d = [] then d else evict (d\<lparr>d_dynamic := butlast (d_dynamic d)\<rparr>)
     else d)"
  by pat_completeness auto
termination
  by (relation "measure (\<lambda>d. length (d_dynamic d))") auto

declare evict.simps [simp del]

definition set_max_size :: "Decoder \<Rightarrow> u64 \<Rightarrow> Decoder option" where
  "set_max_size d sz =
    (if sz > of_nat DEFAULT_TABLE_SIZE then None
     else Some (evict (d\<lparr>d_max_size := unat sz\<rparr>)))"

definition hpack_lookup :: "Decoder \<Rightarrow> u64 \<Rightarrow> (string \<times> string) option" where
  "hpack_lookup d idx =
    (if idx = 0 then None
     else let i = unat idx in
       if i \<le> length STATIC then Some (STATIC ! (i - 1))
       else let k = i - length STATIC - 1 in
         if k < length (d_dynamic d) then Some (d_dynamic d ! k) else None)"

definition hpack_push :: "Decoder \<Rightarrow> string \<Rightarrow> string \<Rightarrow> Decoder" where
  "hpack_push d name val = evict (d\<lparr>d_dynamic := (name, val) # d_dynamic d\<rparr>)"

definition decode_literal :: "Decoder \<Rightarrow> bytes \<Rightarrow> nat \<Rightarrow> (string \<times> string \<times> bytes) option" where
  "decode_literal d src prefix_bits =
    (case decode_int src prefix_bits of None \<Rightarrow> None
     | Some (idx, rest) \<Rightarrow>
         (case (if idx = 0 then decode_string rest
                else map_option (\<lambda>(n, _). (n, rest)) (hpack_lookup d idx)) of None \<Rightarrow> None
          | Some (name, rest) \<Rightarrow>
              map_option (\<lambda>(val, rest). (name, val, rest)) (decode_string rest)))"

definition apply_pseudo :: "Pseudo \<Rightarrow> string \<Rightarrow> string \<Rightarrow> Pseudo" where
  "apply_pseudo out name val =
    (if name = '':method'' then out\<lparr>ps_method := Some val\<rparr>
     else if name = '':path'' then out\<lparr>ps_path := Some val\<rparr>
     else if name = '':authority'' then out\<lparr>ps_authority := Some val\<rparr>
     else if name = '':status'' then out\<lparr>ps_status := parse_u16 val\<rparr>
     else out)"

lemma decode_int_loop_shrinks: "decode_int_loop src v shift = Some (v', rest) \<Longrightarrow> length rest < length src"
proof (induction src arbitrary: v shift)
  case (Cons b bs)
  then show ?case
    by (fastforce simp: Let_def split: if_splits)
qed simp

lemma decode_int_shrinks: "decode_int src p = Some (v, rest) \<Longrightarrow> length rest < length src"
  by (cases src) (auto simp: decode_int_def Let_def split: if_splits dest: decode_int_loop_shrinks)

lemma decode_string_shrinks: "decode_string src = Some (s, rest) \<Longrightarrow> length rest < length src"
  by (cases src)
    (auto simp: decode_string_def Let_def split: if_splits option.splits dest!: decode_int_shrinks)

lemma decode_literal_shrinks: "decode_literal d src p = Some (n, v, rest) \<Longrightarrow> length rest < length src"
  by (auto simp: decode_literal_def split: option.splits if_splits
      dest!: decode_int_shrinks decode_string_shrinks)

text \<open>\<open>try_decode\<close> returns the decoder with its changes also when it fails; \<open>decode_block\<close>
  discards them.\<close>

function try_decode :: "Decoder \<Rightarrow> Pseudo \<Rightarrow> bytes \<Rightarrow> Pseudo option \<times> Decoder" where
  "try_decode d out src =
    (case src of [] \<Rightarrow> (Some out, d)
     | b0 # _ \<Rightarrow>
         if b0 AND 0x80 \<noteq> 0 then
           (case decode_int src 7 of None \<Rightarrow> (None, d)
            | Some (idx, rest) \<Rightarrow>
                (case hpack_lookup d idx of None \<Rightarrow> (None, d)
                 | Some (n, v) \<Rightarrow> try_decode d (apply_pseudo out n v) rest))
         else if b0 AND 0x40 \<noteq> 0 then
           (case decode_literal d src 6 of None \<Rightarrow> (None, d)
            | Some (name, val, rest) \<Rightarrow>
                try_decode (hpack_push d name val) (apply_pseudo out name val) rest)
         else if b0 AND 0x20 \<noteq> 0 then
           (case decode_int src 5 of None \<Rightarrow> (None, d)
            | Some (sz, rest) \<Rightarrow>
                (case set_max_size d sz of None \<Rightarrow> (None, d)
                 | Some d' \<Rightarrow> try_decode d' out rest))
         else
           (case decode_literal d src 4 of None \<Rightarrow> (None, d)
            | Some (name, val, rest) \<Rightarrow> try_decode d (apply_pseudo out name val) rest))"
  by pat_completeness auto
termination
  by (relation "measure (\<lambda>(d, out, src). length src)")
    (auto dest: decode_int_shrinks decode_literal_shrinks)

declare try_decode.simps [simp del]

definition decode_block :: "Decoder \<Rightarrow> bytes \<Rightarrow> Pseudo option \<times> Decoder" where
  "decode_block d src =
    (case try_decode d Pseudo_default src of
       (Some p, d') \<Rightarrow> (Some p, d')
     | (None, d') \<Rightarrow> (None, hpack_reset d'))"

section \<open>Specification: representations and their encoding\<close>

function enc_rest :: "nat \<Rightarrow> bytes" where
  "enc_rest v = (if v < 128 then [of_nat v] else of_nat (v mod 128 + 128) # enc_rest (v div 128))"
  by pat_completeness auto
termination
  by (relation "measure id") auto

declare enc_rest.simps [simp del]

definition enc_int :: "u8 \<Rightarrow> nat \<Rightarrow> nat \<Rightarrow> bytes" where
  "enc_int hi p v =
    (if v < 2 ^ p - 1 then [hi OR of_nat v] else (hi OR of_nat (2 ^ p - 1)) # enc_rest (v - (2 ^ p - 1)))"

definition enc_string :: "bool \<Rightarrow> bytes \<Rightarrow> bytes" where
  "enc_string huffman s =
    (let raw = (if huffman then huffman_encode s else s)
     in enc_int (if huffman then 0x80 else 0) 7 (length raw) @ raw)"

datatype hname = Name_Index nat | Name_Lit bool bytes

datatype hfield =
    Indexed nat
  | Literal bool hname bool bytes
  | Size_Update nat

primrec enc_name :: "u8 \<Rightarrow> nat \<Rightarrow> hname \<Rightarrow> bytes" where
  "enc_name hi p (Name_Index i) = enc_int hi p i"
| "enc_name hi p (Name_Lit h s) = enc_int hi p 0 @ enc_string h s"

primrec enc_field :: "hfield \<Rightarrow> bytes" where
  "enc_field (Indexed i) = enc_int 0x80 7 i"
| "enc_field (Literal inc nm h v) =
    (if inc then enc_name 0x40 6 nm else enc_name 0 4 nm) @ enc_string h v"
| "enc_field (Size_Update n) = enc_int 0x20 5 n"

primrec name_ok :: "hname \<Rightarrow> bool" where
  "name_ok (Name_Index i) = (0 < i \<and> i < 2 ^ 35)"
| "name_ok (Name_Lit h s) = (utf8_valid s \<and> length s < 2 ^ 32)"

primrec field_ok :: "hfield \<Rightarrow> bool" where
  "field_ok (Indexed i) = (i < 2 ^ 35)"
| "field_ok (Literal inc nm h v) = (name_ok nm \<and> utf8_valid v \<and> length v < 2 ^ 32)"
| "field_ok (Size_Update n) = (n < 2 ^ 35)"

primrec name_of :: "Decoder \<Rightarrow> hname \<Rightarrow> string option" where
  "name_of d (Name_Index i) = map_option fst (hpack_lookup d (of_nat i))"
| "name_of d (Name_Lit h s) = Some (str_of_bytes s)"

text \<open>The decoder on representations instead of bytes; a step between the two sides of the main theorem.\<close>

primrec run_field :: "Decoder \<Rightarrow> Pseudo \<Rightarrow> hfield \<Rightarrow> (Pseudo \<times> Decoder) option" where
  "run_field d out (Indexed i) =
    map_option (\<lambda>(n, v). (apply_pseudo out n v, d)) (hpack_lookup d (of_nat i))"
| "run_field d out (Literal inc nm h v) =
    map_option (\<lambda>n. (apply_pseudo out n (str_of_bytes v),
                     if inc then hpack_push d n (str_of_bytes v) else d)) (name_of d nm)"
| "run_field d out (Size_Update n) =
    (if n > DEFAULT_TABLE_SIZE then None else Some (out, evict (d\<lparr>d_max_size := n\<rparr>)))"

primrec run_fields :: "Decoder \<Rightarrow> Pseudo \<Rightarrow> hfield list \<Rightarrow> Pseudo option \<times> Decoder" where
  "run_fields d out [] = (Some out, d)"
| "run_fields d out (f # fs) =
    (case run_field d out f of None \<Rightarrow> (None, d) | Some (out', d') \<Rightarrow> run_fields d' out' fs)"

section \<open>Integers\<close>

lemma unat_and_7f: "unat (b AND 0x7f) = unat b mod 128" for b :: u8
proof -
  have "b AND 0x7f = take_bit 7 b"
    by (simp add: take_bit_eq_mask mask_eq_exp_minus_1)
  then have "unat (b AND 0x7f) = take_bit 7 (unat b)"
    by (simp only: unsigned_take_bit_eq)
  then show ?thesis
    by (simp add: take_bit_eq_mod)
qed

lemma and_80_eq_0: "b AND 0x80 = 0 \<longleftrightarrow> unat b < 128" for b :: u8
proof -
  have "b AND 0x80 = 0 \<longleftrightarrow> \<not> bit (unat b) 7"
    using and_exp_eq_0_iff_not_bit [of b 7] by (simp add: bit_unsigned_iff)
  also have "\<dots> \<longleftrightarrow> even (unat b div 128)"
    by (simp add: bit_iff_odd)
  also have "\<dots> \<longleftrightarrow> unat b < 128"
  proof (cases "unat b < 128")
    case False
    then have "unat b div 128 = 1"
      using u8_less [of b] by (simp add: div_nat_eqI)
    then show ?thesis
      using False by simp
  qed simp
  finally show ?thesis .
qed

text \<open>The value a continuation adds, on natural numbers.\<close>

lemma unat_add_shifted:
  fixes v :: u64 and b :: u8
  assumes "unat v + (unat b mod 128) * 2 ^ shift < 2 ^ 64"
  shows "unat (v + push_bit shift (ucast (b AND 0x7f))) = unat v + (unat b mod 128) * 2 ^ shift"
proof -
  let ?x = "ucast (b AND 0x7f) :: u64"
  have x: "unat ?x = unat b mod 128"
    by (simp add: unat_ucast_up unat_and_7f)
  have "unat (push_bit shift ?x) = (unat b mod 128) * 2 ^ shift"
    using assms unfolding unsigned_push_bit_eq x by (simp add: push_bit_eq_mult take_bit_nat_eq_self)
  then show ?thesis
    using assms by (simp add: unat_add_lem [THEN iffD1])
qed

lemma decode_int_loop_bound:
  assumes "decode_int_loop src v shift = Some (v', rest)" "unat v < 2 ^ (shift + 7)"
    "shift \<le> 28"
  shows "unat v' < 2 ^ 36"
  using assms
proof (induction src arbitrary: v shift)
  case (Cons b bs)
  have s: "(2::nat) ^ (shift + 7) \<le> 2 ^ 35"
    using Cons.prems(3) by (intro power_increasing) auto
  have m: "(unat b mod 128) * 2 ^ shift < 2 ^ (shift + 7)"
    by (simp add: power_add)
  let ?v = "v + push_bit shift (ucast (b AND 0x7f)) :: u64"
  have v: "unat ?v = unat v + (unat b mod 128) * 2 ^ shift"
    using s m Cons.prems(2) by (intro unat_add_shifted) simp
  show ?case
  proof (cases "b AND 0x80 = 0")
    case True
    then show ?thesis
      using Cons.prems v m s by (simp add: Let_def)
  next
    case False
    have "(2::nat) ^ (shift + 7 + 7) = 128 * 2 ^ (shift + 7)"
      by (simp add: power_add)
    then have "unat ?v < 2 ^ (shift + 7 + 7)"
      using v m Cons.prems(2) by linarith
    then show ?thesis
      using False Cons.prems(1) Cons.IH [of ?v "shift + 7"] by (simp add: Let_def split: if_splits)
  qed
qed simp

lemma u8_of_nat: "n < 256 \<Longrightarrow> unat (of_nat n :: u8) = n"
  by (simp add: unat_of_nat take_bit_nat_eq_self)

lemma and_prefix_mask: "b AND (push_bit p 1 - 1) = take_bit p b" for b :: u8
  by (simp add: take_bit_eq_mask mask_eq_exp_minus_1)

lemma unat_prefix_mask: "p \<le> 7 \<Longrightarrow> unat (push_bit p 1 - 1 :: u8) = 2 ^ p - 1"
proof -
  assume p: "p \<le> 7"
  then have "(2::nat) ^ p < 256"
    using power_strict_increasing [of p 8 "2::nat"] by simp
  then have "unat (2 ^ p :: u8) = 2 ^ p"
    using u8_of_nat [of "2 ^ p"] by simp
  then show ?thesis
    by (simp add: unat_sub word_le_nat_alt)
qed

lemma decode_int_bound:
  assumes "decode_int src p = Some (v, rest)" "p \<le> 7"
  shows "unat v < 2 ^ 36"
proof (cases src)
  case (Cons b0 bs)
  have "unat (take_bit p b0) < 2 ^ 7"
    using unat_take_bit_less [of p b0] power_increasing [of p 7 "2::nat"] assms(2) by simp
  then have "unat (ucast (take_bit p b0) :: u64) < 2 ^ 7"
    by (simp add: unat_ucast_up)
  then show ?thesis
    using assms(1) Cons decode_int_loop_bound [of bs "ucast (take_bit p b0)" 0 v rest]
    by (auto simp: decode_int_def and_prefix_mask Let_def simp del: push_bit_of_1 split: if_splits)
qed (use assms in \<open>simp add: decode_int_def\<close>)

lemma split_shift: "(r mod 128) * 2 ^ k + (r div 128) * 2 ^ (k + 7) = r * 2 ^ k" for r :: nat
proof -
  have "(r div 128) * 2 ^ (k + 7) = (r div 128 * 128) * 2 ^ k"
    by (simp add: power_add)
  then have "(r mod 128) * 2 ^ k + (r div 128) * 2 ^ (k + 7) = (r mod 128 + r div 128 * 128) * 2 ^ k"
    by (simp only: distrib_right)
  then show ?thesis
    by (simp only: mod_div_mult_eq)
qed

lemma div_pow_bound: "r < 2 ^ (35 - k) \<Longrightarrow> k \<le> 28 \<Longrightarrow> r div 128 < 2 ^ (28 - k)" for r :: nat
proof -
  assume r: "r < 2 ^ (35 - k)" and k: "k \<le> 28"
  have "(35::nat) - k = (28 - k) + 7"
    using k by presburger
  then have "r < 2 ^ (28 - k) * 2 ^ 7"
    using r by (simp only: power_add)
  then show ?thesis
    by (simp add: div_less_iff_less_mult)
qed

lemma decode_int_loop_enc:
  assumes "r < 2 ^ (35 - shift)" "shift \<le> 28" "7 dvd shift" "unat v < 2 ^ (shift + 7)"
  shows "\<exists>v'. decode_int_loop (enc_rest r @ rest) v shift = Some (v', rest)
    \<and> unat v' = unat v + r * 2 ^ shift"
  using assms
proof (induction r arbitrary: v shift rule: enc_rest.induct)
  case (1 r)
  define b :: u8 where "b = of_nat (if r < 128 then r else r mod 128 + 128)"
  let ?v = "v + push_bit shift (ucast (b AND 0x7f)) :: u64"
  have enc: "enc_rest r = b # (if r < 128 then [] else enc_rest (r div 128))"
    by (subst enc_rest.simps) (simp add: b_def)
  have b: "unat b = (if r < 128 then r else r mod 128 + 128)" "unat b mod 128 = r mod 128"
    by (auto simp: b_def u8_of_nat)
  have s: "(2::nat) ^ (shift + 7) \<le> 2 ^ 35"
    using "1.prems"(2) by (intro power_increasing) auto
  have m: "(r mod 128) * 2 ^ shift < 2 ^ (shift + 7)"
    by (simp add: power_add)
  have v: "unat ?v = unat v + (r mod 128) * 2 ^ shift"
    using unat_add_shifted [of v b shift] b(2) s m "1.prems"(4) by simp
  show ?case
  proof (cases "r < 128")
    case True
    then show ?thesis
      using b v by (simp add: enc Let_def and_80_eq_0)
  next
    case False
    have "shift \<noteq> 28"
      using False "1.prems"(1) by auto
    then have sh: "shift + 7 \<le> 28"
      using "1.prems"(2,3) by presburger
    have "r div 128 < 2 ^ (35 - (shift + 7))"
      using div_pow_bound [OF "1.prems"(1,2)] by simp
    moreover have "(2::nat) ^ (shift + 7 + 7) = 128 * 2 ^ (shift + 7)"
      by (simp add: power_add)
    then have "unat ?v < 2 ^ (shift + 7 + 7)"
      using v m "1.prems"(4) by linarith
    ultimately obtain v' where
      "decode_int_loop (enc_rest (r div 128) @ rest) ?v (shift + 7) = Some (v', rest)"
      "unat v' = unat ?v + (r div 128) * 2 ^ (shift + 7)"
      using "1.IH" [OF False, of "shift + 7" ?v] sh "1.prems"(3) by auto
    moreover have "(r mod 128) * 2 ^ shift + (r div 128) * 2 ^ (shift + 7) = r * 2 ^ shift"
      by (rule split_shift)
    ultimately show ?thesis
      using False b v sh by (simp add: enc Let_def and_80_eq_0)
  qed
qed

lemma take_bit_or_hi:
  fixes hi :: u8
  assumes "take_bit p hi = 0" "n < 2 ^ p" "p \<le> 7"
  shows "unat (take_bit p (hi OR of_nat n)) = n"
proof -
  have "n < 256"
    using assms(2,3) power_increasing [of p 8 "2::nat"] by simp
  then have u: "unat (of_nat n :: u8) = n"
    by (rule u8_of_nat)
  then have "take_bit p (of_nat n :: u8) = of_nat n"
    using assms(2) by (simp add: take_bit_word_unat)
  then show ?thesis
    using assms(1) u by simp
qed

lemma decode_int_enc:
  assumes "take_bit p hi = 0" "1 \<le> p" "p \<le> 7" "v < 2 ^ 35"
  shows "\<exists>w. decode_int (enc_int hi p v @ rest) p = Some (w, rest) \<and> unat w = v"
proof (cases "v < 2 ^ p - 1")
  case True
  let ?w = "ucast (take_bit p (hi OR of_nat v)) :: u64"
  have w: "unat ?w = v"
    using take_bit_or_hi [of p hi v] assms True by (simp add: unat_ucast_up)
  then have "?w < ucast (push_bit p 1 - 1 :: u8)"
    using True assms(3) unat_prefix_mask [of p] by (simp add: word_less_nat_alt unat_ucast_up)
  then show ?thesis
    using True w
    by (simp add: enc_int_def decode_int_def Let_def and_prefix_mask del: push_bit_of_1 take_bit_or)
next
  case False
  let ?w = "ucast (take_bit p (hi OR of_nat (2 ^ p - 1))) :: u64"
  have w: "unat ?w = 2 ^ p - 1"
    using take_bit_or_hi [of p hi "2 ^ p - 1"] assms by (simp add: unat_ucast_up)
  then have nlt: "\<not> ?w < ucast (push_bit p 1 - 1 :: u8)"
    using assms(3) unat_prefix_mask [of p] by (simp add: word_less_nat_alt unat_ucast_up)
  have "unat ?w < 2 ^ (0 + 7)"
    using w assms(3) power_increasing [of p 7 "2::nat"] by simp
  moreover have "v - (2 ^ p - 1) < 2 ^ (35 - 0)"
    using assms(4) by (simp only: diff_zero less_imp_diff_less)
  ultimately obtain v' where
    "decode_int_loop (enc_rest (v - (2 ^ p - 1)) @ rest) ?w 0 = Some (v', rest)"
    "unat v' = unat ?w + (v - (2 ^ p - 1)) * 2 ^ 0"
    using decode_int_loop_enc [of "v - (2 ^ p - 1)" 0 ?w rest] by blast
  then show ?thesis
    using False w nlt
    by (simp add: enc_int_def decode_int_def Let_def and_prefix_mask del: push_bit_of_1 take_bit_or)
qed

lemma decode_int_enc_of_nat:
  assumes "take_bit p hi = 0" "1 \<le> p" "p \<le> 7" "v < 2 ^ 35"
  shows "decode_int (enc_int hi p v @ rest) p = Some (of_nat v, rest)"
  using decode_int_enc [OF assms, of rest] by auto

lemma enc_int_first:
  assumes "p \<le> 7"
  shows "\<exists>b r. enc_int hi p v = b # r \<and> (\<forall>k. p \<le> k \<longrightarrow> bit b k = bit hi k)"
proof -
  define n where "n = (if v < 2 ^ p - 1 then v else 2 ^ p - 1)"
  obtain r where n: "enc_int hi p v = (hi OR of_nat n) # r" "n < 2 ^ p"
    by (cases "v < 2 ^ p - 1") (simp_all add: enc_int_def n_def)
  have "n < 256"
    using n(2) assms power_increasing [of p 8 "2::nat"] by simp
  then have "take_bit p (of_nat n :: u8) = of_nat n"
    using n(2) by (simp add: take_bit_word_unat u8_of_nat)
  then have "\<not> bit (of_nat n :: u8) k" if "p \<le> k" for k
    using that by (metis bit_take_bit_iff leD)
  then have "bit (hi OR of_nat n) k = bit hi k" if "p \<le> k" for k
    using that by (simp add: bit_or_iff)
  then show ?thesis
    using n(1) by blast
qed

section \<open>Strings, literals and fields\<close>

lemma length_bits_of_bytes: "length (bits_of_bytes b) = 8 * length b"
  by (induction b) simp_all

lemma length_huff_bits: "length (huff_bits x) \<le> 30 * length x"
proof (induction x)
  case (Cons b x)
  then show ?case
    using code_bits_long [of "unat b"] u8_less [of b] by simp
qed simp

lemma length_huffman_encode: "length s < 2 ^ 32 \<Longrightarrow> length (huffman_encode s) < 2 ^ 35"
proof -
  assume s: "length s < 2 ^ 32"
  obtain k where "k < 8" "bits_of_bytes (huffman_encode s) = huff_bits s @ replicate k True"
    using bits_pack [of "huff_bits s"] by (auto simp: huffman_encode_def)
  then have "8 * length (huffman_encode s) \<le> 30 * length s + 7"
    using length_huff_bits [of s] length_bits_of_bytes [of "huffman_encode s"] by simp
  then show ?thesis
    using s by simp
qed

lemma and_bit_tests:
  "b AND 0x80 = 0 \<longleftrightarrow> \<not> bit b 7" "b AND 0x40 = 0 \<longleftrightarrow> \<not> bit b 6" "b AND 0x20 = 0 \<longleftrightarrow> \<not> bit b 5"
  for b :: u8
  using and_exp_eq_0_iff_not_bit [of b 7] and_exp_eq_0_iff_not_bit [of b 6]
    and_exp_eq_0_iff_not_bit [of b 5] by simp_all

lemma decode_string_enc:
  assumes "utf8_valid s" "length s < 2 ^ 32"
  shows "decode_string (enc_string h s @ rest) = Some (str_of_bytes s, rest)"
proof -
  define raw where "raw = (if h then huffman_encode s else s)"
  define hi :: u8 where "hi = (if h then 0x80 else 0)"
  have len: "length raw < 2 ^ 35"
    using assms(2) length_huffman_encode [OF assms(2)] by (auto simp: raw_def)
  have enc: "enc_string h s @ rest = enc_int hi 7 (length raw) @ raw @ rest"
    by (simp add: enc_string_def raw_def hi_def Let_def)
  obtain b r where b: "enc_int hi 7 (length raw) = b # r" "bit b 7 = bit hi 7"
    using enc_int_first [of 7 hi "length raw"] by auto
  have h: "b AND 0x80 \<noteq> 0 \<longleftrightarrow> h"
    using b(2) by (auto simp: and_bit_tests hi_def)
  have int: "decode_int (enc_int hi 7 (length raw) @ raw @ rest) 7
      = Some (of_nat (length raw), raw @ rest)"
    using len by (intro decode_int_enc_of_nat) (auto simp: hi_def)
  have n: "unat (of_nat (length raw) :: u64) = length raw"
    using len by (simp add: unat_of_nat take_bit_nat_eq_self)
  have "(if h then decode_huffman raw else Some raw) = Some s"
    by (simp add: raw_def decode_huffman_encode)
  then show ?thesis
    using assms(1) b(1) h int n unfolding enc
    by (simp add: decode_string_def Let_def String_from_utf8_def)
qed

lemma unat_of_nat_35: "n < 2 ^ 35 \<Longrightarrow> unat (of_nat n :: u64) = n"
  by (simp add: unat_of_nat take_bit_nat_eq_self)

lemma decode_literal_enc:
  assumes "take_bit p hi = 0" "1 \<le> p" "p \<le> 7" "name_ok nm" "utf8_valid v" "length v < 2 ^ 32"
  shows "decode_literal d (enc_name hi p nm @ enc_string h v @ rest) p =
    map_option (\<lambda>n. (n, str_of_bytes v, rest)) (name_of d nm)"
proof (cases nm)
  case (Name_Index i)
  then have i: "0 < i" "i < 2 ^ 35"
    using assms(4) by auto
  then have "(of_nat i :: u64) \<noteq> 0"
    using unat_of_nat_35 [OF i(2)] by auto
  then show ?thesis
    using Name_Index decode_int_enc_of_nat [OF assms(1-3) i(2), of "enc_string h v @ rest"]
      decode_string_enc [OF assms(5,6)]
    by (cases "hpack_lookup d (of_nat i)") (auto simp: decode_literal_def)
next
  case (Name_Lit h' s)
  then have "decode_string (enc_string h' s @ enc_string h v @ rest)
      = Some (str_of_bytes s, enc_string h v @ rest)"
    using assms(4) by (intro decode_string_enc) auto
  then show ?thesis
    using Name_Lit decode_string_enc [OF assms(5,6)]
      decode_int_enc_of_nat [OF assms(1-3), of 0 "enc_string h' s @ enc_string h v @ rest"]
    by (simp add: decode_literal_def)
qed

lemma enc_name_first: "p \<le> 7 \<Longrightarrow> \<exists>b r. enc_name hi p nm = b # r \<and> (\<forall>k. p \<le> k \<longrightarrow> bit b k = bit hi k)"
proof (cases nm)
  case (Name_Lit h s)
  assume "p \<le> 7"
  then obtain b r where "enc_int hi p 0 = b # r" "\<forall>k. p \<le> k \<longrightarrow> bit b k = bit hi k"
    using enc_int_first by blast
  then show ?thesis
    by (simp add: Name_Lit)
qed (simp only: enc_name.simps enc_int_first)

lemma try_decode_Cons:
  "try_decode d out (b # r) =
    (if bit b 7 then
       (case decode_int (b # r) 7 of None \<Rightarrow> (None, d)
        | Some (idx, rest) \<Rightarrow>
            (case hpack_lookup d idx of None \<Rightarrow> (None, d)
             | Some (n, v) \<Rightarrow> try_decode d (apply_pseudo out n v) rest))
     else if bit b 6 then
       (case decode_literal d (b # r) 6 of None \<Rightarrow> (None, d)
        | Some (name, val, rest) \<Rightarrow>
            try_decode (hpack_push d name val) (apply_pseudo out name val) rest)
     else if bit b 5 then
       (case decode_int (b # r) 5 of None \<Rightarrow> (None, d)
        | Some (sz, rest) \<Rightarrow>
            (case set_max_size d sz of None \<Rightarrow> (None, d) | Some d' \<Rightarrow> try_decode d' out rest))
     else
       (case decode_literal d (b # r) 4 of None \<Rightarrow> (None, d)
        | Some (name, val, rest) \<Rightarrow> try_decode d (apply_pseudo out name val) rest))"
  by (subst try_decode.simps) (simp add: and_bit_tests)

lemma try_decode_nil: "try_decode d out [] = (Some out, d)"
  by (subst try_decode.simps) simp

lemma try_decode_indexed:
  assumes "i < 2 ^ 35"
  shows "try_decode d out (enc_int 0x80 7 i @ rest) =
    (case hpack_lookup d (of_nat i) of None \<Rightarrow> (None, d)
     | Some (n, v) \<Rightarrow> try_decode d (apply_pseudo out n v) rest)"
proof -
  obtain b r where b: "enc_int 0x80 7 i = b # r" "\<forall>k. 7 \<le> k \<longrightarrow> bit b k = bit (0x80 :: u8) k"
    using enc_int_first [of 7 "0x80" i] by auto
  have "bit b 7"
    using b(2) by simp
  moreover have "decode_int (b # r @ rest) 7 = Some (of_nat i, rest)"
    using decode_int_enc_of_nat [of 7 "0x80" i rest] assms b(1) by simp
  ultimately show ?thesis
    using b(1) by (simp add: try_decode_Cons)
qed

lemma try_decode_size:
  assumes "n < 2 ^ 35"
  shows "try_decode d out (enc_int 0x20 5 n @ rest) =
    (if n > DEFAULT_TABLE_SIZE then (None, d) else try_decode (evict (d\<lparr>d_max_size := n\<rparr>)) out rest)"
proof -
  obtain b r where b: "enc_int 0x20 5 n = b # r" "\<forall>k. 5 \<le> k \<longrightarrow> bit b k = bit (0x20 :: u8) k"
    using enc_int_first [of 5 "0x20" n] by auto
  have "\<not> bit b 7" "\<not> bit b 6" "bit b 5"
    using b(2) by simp_all
  moreover have "decode_int (b # r @ rest) 5 = Some (of_nat n, rest)"
    using decode_int_enc_of_nat [of 5 "0x20" n rest] assms b(1) by simp
  moreover have "set_max_size d (of_nat n) =
      (if n > DEFAULT_TABLE_SIZE then None else Some (evict (d\<lparr>d_max_size := n\<rparr>)))"
    using unat_of_nat_35 [OF assms] by (simp add: set_max_size_def word_less_nat_alt DEFAULT_TABLE_SIZE_def)
  ultimately show ?thesis
    using b(1) by (simp add: try_decode_Cons)
qed

lemma try_decode_literal:
  assumes "name_ok nm" "utf8_valid v" "length v < 2 ^ 32"
  shows "try_decode d out (enc_field (Literal inc nm h v) @ rest) =
    (case name_of d nm of None \<Rightarrow> (None, d)
     | Some n \<Rightarrow> try_decode (if inc then hpack_push d n (str_of_bytes v) else d)
         (apply_pseudo out n (str_of_bytes v)) rest)"
proof -
  define hi :: u8 and p :: nat where "hi = (if inc then 0x40 else 0)" and "p = (if inc then 6 else 4)"
  have p: "take_bit p hi = 0" "1 \<le> p" "p \<le> 7"
    by (auto simp: hi_def p_def)
  obtain b r where b: "enc_name hi p nm = b # r" "\<forall>k. p \<le> k \<longrightarrow> bit b k = bit hi k"
    using enc_name_first [OF p(3)] by blast
  have bits: "\<not> bit b 7" "bit b 6 = inc" "\<not> inc \<longrightarrow> \<not> bit b 5"
    using b(2) by (auto simp: hi_def p_def)
  have "enc_field (Literal inc nm h v) @ rest = b # r @ enc_string h v @ rest"
    using b(1) by (auto simp: hi_def p_def split: if_splits)
  moreover have "decode_literal d (b # r @ enc_string h v @ rest) p =
      map_option (\<lambda>n. (n, str_of_bytes v, rest)) (name_of d nm)"
    using decode_literal_enc [OF p assms, of d h rest] b(1) by simp
  ultimately show ?thesis
    using bits by (cases "name_of d nm"; cases inc) (simp_all add: try_decode_Cons p_def)
qed

lemma try_decode_field:
  "field_ok f \<Longrightarrow> try_decode d out (enc_field f @ rest) =
    (case run_field d out f of None \<Rightarrow> (None, d) | Some (out', d') \<Rightarrow> try_decode d' out' rest)"
proof (cases f)
  case (Literal inc nm h v)
  assume "field_ok f"
  then show ?thesis
    using Literal try_decode_literal [of nm v d out inc h rest]
    by (auto split: option.splits simp del: enc_field.simps)
qed (auto simp: try_decode_indexed try_decode_size split: option.splits)

lemma try_decode_fields:
  "list_all field_ok fs \<Longrightarrow> try_decode d out (concat (map enc_field fs)) = run_fields d out fs"
proof (induction fs arbitrary: d out)
  case (Cons f fs)
  then show ?case
    by (auto simp: try_decode_field split: option.splits)
qed (simp add: try_decode_nil)

section \<open>The table bound\<close>

definition decoder_ok :: "Decoder \<Rightarrow> bool" where
  "decoder_ok d \<longleftrightarrow> length (d_dynamic d) \<le> DYNAMIC_CAP \<and> table_octets (d_dynamic d) \<le> d_max_size d
    \<and> d_max_size d \<le> DEFAULT_TABLE_SIZE"

definition within :: "nat \<Rightarrow> (string \<times> string) list \<Rightarrow> bool" where
  "within limit dyn \<longleftrightarrow> length dyn \<le> DYNAMIC_CAP \<and> table_octets dyn \<le> limit"

lemma evict_max_size [simp]: "d_max_size (evict d) = d_max_size d"
  by (induction d rule: evict.induct) (subst evict.simps, simp)

lemma evict_within: "within (d_max_size d) (d_dynamic (evict d))"
proof (induction d rule: evict.induct)
  case (1 d)
  then show ?case
    by (subst evict.simps) (auto simp: within_def table_octets_def not_less)
qed

lemma evict_longest:
  "\<exists>n \<le> length (d_dynamic d). d_dynamic (evict d) = take n (d_dynamic d) \<and>
    (\<forall>m. n < m \<and> m \<le> length (d_dynamic d) \<longrightarrow> \<not> within (d_max_size d) (take m (d_dynamic d)))"
proof (induction d rule: evict.induct)
  case (1 d)
  let ?dyn = "d_dynamic d"
  show ?case
  proof (cases "within (d_max_size d) ?dyn \<or> ?dyn = []")
    case True
    then show ?thesis
      by (intro exI [of _ "length ?dyn"]) (subst evict.simps, auto simp: within_def)
  next
    case False
    then have e: "evict d = evict (d\<lparr>d_dynamic := butlast ?dyn\<rparr>)"
      by (subst evict.simps) (auto simp: within_def)
    obtain n where n: "n \<le> length ?dyn - 1" "d_dynamic (evict d) = take n (butlast ?dyn)"
      "\<forall>m. n < m \<and> m \<le> length ?dyn - 1 \<longrightarrow> \<not> within (d_max_size d) (take m (butlast ?dyn))"
      using 1 False e by (auto simp: within_def not_le)
    have t: "take m (butlast ?dyn) = take m ?dyn" if "m \<le> length ?dyn - 1" for m
      using that by (simp add: butlast_conv_take min_def)
    have "\<not> within (d_max_size d) (take m ?dyn)" if "n < m" "m \<le> length ?dyn" for m
    proof (cases "m = length ?dyn")
      case False
      then show ?thesis
        using n(3) t [of m] that by force
    qed (use \<open>\<not> (within (d_max_size d) ?dyn \<or> ?dyn = [])\<close> in simp)
    then show ?thesis
      using n(1,2) t [of n] by (intro exI [of _ n]) auto
  qed
qed

lemma decoder_ok_default: "decoder_ok Decoder_default" "decoder_ok (hpack_reset d)"
  by (simp_all add: decoder_ok_def Decoder_default_def hpack_reset_def table_octets_def)

lemma decoder_ok_evict: "d_max_size d \<le> DEFAULT_TABLE_SIZE \<Longrightarrow> decoder_ok (evict d)"
  using evict_within [of d] by (simp add: decoder_ok_def within_def)

lemma decoder_ok_set_max_size: "set_max_size d sz = Some d' \<Longrightarrow> decoder_ok d'"
  by (auto simp: set_max_size_def word_less_nat_alt DEFAULT_TABLE_SIZE_def not_less
      intro!: decoder_ok_evict split: if_splits)

lemma decoder_ok_push: "decoder_ok d \<Longrightarrow> decoder_ok (hpack_push d n v)"
  by (simp add: hpack_push_def decoder_ok_evict decoder_ok_def [of d])

lemma decoder_ok_try: "decoder_ok d \<Longrightarrow> decoder_ok (snd (try_decode d out src))"
proof (induction "length src" arbitrary: d out src rule: less_induct)
  case less
  show ?case
  proof (cases src)
    case (Cons b r)
    have IH: "decoder_ok (snd (try_decode d' out' rest))"
      if "decoder_ok d'" "length rest < length (b # r)" for d' out' rest
      using less(1) that Cons by blast
    consider "bit b 7" | "\<not> bit b 7" "bit b 6" | "\<not> bit b 7" "\<not> bit b 6" "bit b 5"
      | "\<not> bit b 7" "\<not> bit b 6" "\<not> bit b 5"
      by blast
    then show ?thesis
    proof cases
      case 1
      then show ?thesis
        using less(2) IH by (auto simp: Cons try_decode_Cons split: option.split
            dest: decode_int_shrinks)
    next
      case 2
      then show ?thesis
        using less(2) IH by (auto simp: Cons try_decode_Cons decoder_ok_push split: option.split
            dest: decode_literal_shrinks)
    next
      case 3
      then show ?thesis
        using less(2) IH [OF decoder_ok_set_max_size]
        by (auto simp: Cons try_decode_Cons split: option.split dest: decode_int_shrinks)
    next
      case 4
      then show ?thesis
        using less(2) IH by (auto simp: Cons try_decode_Cons split: option.split
            dest: decode_literal_shrinks)
    qed
  qed (use less in \<open>simp add: try_decode_nil\<close>)
qed

lemma decoder_ok_block: "decoder_ok d \<Longrightarrow> decoder_ok (snd (decode_block d src))"
  using decoder_ok_try [of d Pseudo_default src]
  by (auto simp: decode_block_def decoder_ok_default split: prod.splits option.splits)

section \<open>Properties\<close>

text \<open>C14. HPACK integers: decoding inverts the RFC 7541 5.1 encoding for every prefix width
  the decoder uses, every value below \<open>2^35\<close> and any following bytes; and whatever
  the input, an accepted integer is below \<open>2^36\<close>, so the 64-bit sum never wraps.\<close>

theorem hpack_integer_codec:
  "take_bit p hi = 0 \<Longrightarrow> 1 \<le> p \<Longrightarrow> p \<le> 7 \<Longrightarrow> v < 2 ^ 35 \<Longrightarrow>
    decode_int (enc_int hi p v @ rest) p = Some (of_nat v, rest) \<and>
    (decode_int src p = Some (w, rest') \<longrightarrow> unat w < 2 ^ 36 \<and> length rest' < length src)"
  using decode_int_enc_of_nat [of p hi v rest] decode_int_bound [of src p w rest']
    decode_int_shrinks [of src p w rest'] by blast

theorem hpack_integer_codec_witness:
  "decode_int (enc_int 0x20 5 1337 @ [1]) 5 = Some (1337, [1])"
  using hpack_integer_codec [of 5 "0x20" 1337 "[1]" "[]" 0 "[]"] by simp

section \<open>The meaning of a header block\<close>

text \<open>The static table of RFC 7541 Appendix A, by header name.\<close>

definition rfc_static :: "(string \<times> string) list" where
  "rfc_static = ('':authority'', []) # concat (map (\<lambda>(n, vs). map (Pair n) vs)
      [('':method'', [''GET'', ''POST'']), ('':path'', [''/'', ''/index.html'']), ('':scheme'', [''http'', ''https'']),
       ('':status'', [''200'', ''204'', ''206'', ''304'', ''400'', ''404'', ''500'']), (''accept-charset'', [[]]),
       (''accept-encoding'', [''gzip, deflate''])]) @
    map (\<lambda>n. (n, [])) [''accept-language'', ''accept-ranges'', ''accept'', ''access-control-allow-origin'', ''age'', ''allow'',
      ''authorization'', ''cache-control'', ''content-disposition'', ''content-encoding'', ''content-language'', ''content-length'',
      ''content-location'', ''content-range'', ''content-type'', ''cookie'', ''date'', ''etag'', ''expect'', ''expires'', ''from'',
      ''host'', ''if-match'', ''if-modified-since'', ''if-none-match'', ''if-range'', ''if-unmodified-since'', ''last-modified'',
      ''link'', ''location'', ''max-forwards'', ''proxy-authenticate'', ''proxy-authorization'', ''range'', ''referer'', ''refresh'',
      ''retry-after'', ''server'', ''set-cookie'', ''strict-transport-security'', ''transfer-encoding'', ''user-agent'', ''vary'',
      ''via'', ''www-authenticate'']"

text \<open>One address space: index 1 is the first static entry, and the newest dynamic entry follows the static ones.\<close>

definition rfc_entry :: "(string \<times> string) list \<Rightarrow> nat \<Rightarrow> (string \<times> string) option" where
  "rfc_entry t i = (let es = rfc_static @ t in if 0 < i \<and> i \<le> length es then Some (es ! (i - 1)) else None)"

text \<open>The newest entries, at most \<open>k\<close> of them, that fit \<open>m\<close> octets; an entry takes 32 octets and its two strings.\<close>

fun newest :: "nat \<Rightarrow> nat \<Rightarrow> (string \<times> string) list \<Rightarrow> (string \<times> string) list" where
  "newest k m [] = []"
| "newest k m ((n, v) # t) =
    (let sz = 32 + length n + length v
     in if k = 0 \<or> m < sz then [] else (n, v) # newest (k - 1) (m - sz) t)"

text \<open>One representation on a table \<open>t\<close> of maximum size \<open>m\<close>: the header it stands for, if any, and the new table.\<close>

primrec rfc_name :: "(string \<times> string) list \<Rightarrow> hname \<Rightarrow> string option" where
  "rfc_name t (Name_Index i) = map_option fst (rfc_entry t i)"
| "rfc_name t (Name_Lit h s) = Some (str_of_bytes s)"

primrec rfc_field :: "(string \<times> string) list \<Rightarrow> nat \<Rightarrow> hfield \<Rightarrow> ((string \<times> string) list \<times> (string \<times> string) list \<times> nat) option" where
  "rfc_field t m (Indexed i) = map_option (\<lambda>h. ([h], t, m)) (rfc_entry t i)"
| "rfc_field t m (Literal inc nm huff v) =
    map_option (\<lambda>n. let h = (n, str_of_bytes v) in ([h], if inc then newest 32 m (h # t) else t, m)) (rfc_name t nm)"
| "rfc_field t m (Size_Update n) = (if n \<le> 4096 then Some ([], newest 32 n t, n) else None)"

primrec rfc_fields :: "(string \<times> string) list \<Rightarrow> nat \<Rightarrow> hfield list \<Rightarrow> ((string \<times> string) list \<times> (string \<times> string) list \<times> nat) option" where
  "rfc_fields t m [] = Some ([], t, m)"
| "rfc_fields t m (f # fs) =
    (case rfc_field t m f of None \<Rightarrow> None
     | Some (hs, t', m') \<Rightarrow> map_option (\<lambda>(hs', r). (hs @ hs', r)) (rfc_fields t' m' fs))"

text \<open>The pseudo-headers of a header list: the last one of each name counts.\<close>

definition pseudo_of :: "(string \<times> string) list \<Rightarrow> Pseudo" where
  "pseudo_of hs = (let final = map_of (rev hs)
    in \<lparr>ps_method = final '':method'', ps_path = final '':path'', ps_status = Option.bind (final '':status'') parse_u16,
        ps_authority = final '':authority''\<rparr>)"

lemma rfc_static_STATIC: "rfc_static = STATIC"
  by (simp add: rfc_static_def STATIC_def)

lemma hpack_lookup_entry:
  assumes "i < 2 ^ 35"
  shows "hpack_lookup d (of_nat i) = rfc_entry (d_dynamic d) i"
proof (cases "i = 0")
  case False
  have u: "unat (of_nat i :: u64) = i"
    by (rule unat_of_nat_35 [OF assms])
  then have "(of_nat i :: u64) \<noteq> 0"
    using False by (metis unat_0)
  then show ?thesis
    using False u unfolding hpack_lookup_def rfc_entry_def rfc_static_STATIC Let_def
    by (simp add: nth_append) linarith
qed (simp add: hpack_lookup_def rfc_entry_def)

lemma newest_all: "length t \<le> k \<Longrightarrow> table_octets t \<le> m \<Longrightarrow> newest k m t = t"
  by (induction k m t rule: newest.induct) (auto simp: table_octets_def ENTRY_OVERHEAD_def Let_def)

lemma newest_butlast:
  "t \<noteq> [] \<Longrightarrow> length t > k \<or> table_octets t > m \<Longrightarrow> newest k m (butlast t) = newest k m t"
proof (induction k m t rule: newest.induct)
  case (2 k m n v t)
  let ?sz = "32 + length n + length v"
  show ?case
  proof (cases "t = [] \<or> k = 0 \<or> m < ?sz")
    case True
    then show ?thesis
      using 2(3) by (auto simp: table_octets_def ENTRY_OVERHEAD_def Let_def)
  next
    case False
    have "table_octets ((n, v) # t) = ?sz + table_octets t"
      by (simp add: table_octets_def ENTRY_OVERHEAD_def)
    then have "length t > k - 1 \<or> table_octets t > m - ?sz"
      using 2(3) False by auto
    then show ?thesis
      using 2(1) [OF refl] False by (simp add: Let_def)
  qed
qed simp

lemma evict_newest: "d_dynamic (evict d) = newest 32 (d_max_size d) (d_dynamic d)" "d_max_size (evict d) = d_max_size d"
proof (induction d rule: evict.induct)
  case (1 d)
  {
    case 1
    show ?case
      using "1.IH"(1) newest_all [of "d_dynamic d" 32 "d_max_size d"] newest_butlast [of "d_dynamic d" 32 "d_max_size d"]
      by (subst evict.simps) (auto simp: DYNAMIC_CAP_def not_less)
  next
    case 2
    show ?case
      using "1.IH"(2) by (subst evict.simps) auto
  }
qed

lemma evict_eq: "evict d = \<lparr>d_dynamic = newest 32 (d_max_size d) (d_dynamic d), d_max_size = d_max_size d\<rparr>"
  using evict_newest [of d] by (cases "evict d") simp

lemma decoder_eta: "\<lparr>d_dynamic = d_dynamic d, d_max_size = d_max_size d\<rparr> = d"
  by (cases d) simp

lemma run_field_rfc:
  "field_ok f \<Longrightarrow> run_field d out f =
    map_option (\<lambda>(hs, t, m). (foldl (\<lambda>o1 (n, v). apply_pseudo o1 n v) out hs, \<lparr>d_dynamic = t, d_max_size = m\<rparr>))
      (rfc_field (d_dynamic d) (d_max_size d) f)"
proof (cases f)
  case (Literal inc nm h v)
  assume "field_ok f"
  then have "name_of d nm = rfc_name (d_dynamic d) nm"
    by (cases nm) (simp_all add: Literal hpack_lookup_entry)
  then show ?thesis
    by (cases "rfc_name (d_dynamic d) nm") (simp_all add: Literal hpack_push_def evict_eq Let_def decoder_eta)
qed (auto simp: hpack_lookup_entry option.map_comp comp_def case_prod_unfold evict_eq DEFAULT_TABLE_SIZE_def decoder_eta)

lemma run_fields_rfc:
  "list_all field_ok fs \<Longrightarrow> (case rfc_fields (d_dynamic d) (d_max_size d) fs of
     None \<Rightarrow> fst (run_fields d out fs) = None
   | Some (hs, t, m) \<Rightarrow>
     run_fields d out fs = (Some (foldl (\<lambda>o1 (n, v). apply_pseudo o1 n v) out hs), \<lparr>d_dynamic = t, d_max_size = m\<rparr>))"
proof (induction fs arbitrary: d out)
  case (Cons f fs)
  show ?case
  proof (cases "rfc_field (d_dynamic d) (d_max_size d) f")
    case None
    then show ?thesis
      using Cons.prems by (simp add: run_field_rfc)
  next
    case (Some x)
    obtain hs t m where x: "x = (hs, t, m)"
      by (cases x)
    show ?thesis
      using Cons.IH [of "\<lparr>d_dynamic = t, d_max_size = m\<rparr>" "foldl (\<lambda>o1 (n, v). apply_pseudo o1 n v) out hs"] Cons.prems Some
      by (auto simp: run_field_rfc x split: option.splits)
  qed
qed simp

lemma apply_pseudos: "foldl (\<lambda>o1 (n, v). apply_pseudo o1 n v) Pseudo_default hs = pseudo_of hs"
  by (induction hs rule: rev_induct) (auto simp: pseudo_of_def Pseudo_default_def apply_pseudo_def Let_def)

text \<open>C2. Header-block decoding against the meaning of the representations in RFC 7541. Take a list of field
  representations: indexed, literal with or without indexing, with plain or Huffman strings that are valid UTF-8,
  table-size updates. On its encoding the decoder returns the pseudo-headers of the header list that the representations
  stand for, the last of each name, and its table is then the newest entries that fit the maximum size, at most
  32 of them, a limit of this decoder that the RFC does not have. A representation that refers to
  no entry of the static table followed by the dynamic one, or a size update above 4096, fails the block and resets the decoder.\<close>

theorem decode_block_refines:
  "list_all field_ok fs \<Longrightarrow>
    decode_block d (concat (map enc_field fs)) =
      (case rfc_fields (d_dynamic d) (d_max_size d) fs of
         Some (hs, t, m) \<Rightarrow> (Some (pseudo_of hs), \<lparr>d_dynamic = t, d_max_size = m\<rparr>)
       | None \<Rightarrow> (None, \<lparr>d_dynamic = [], d_max_size = 4096\<rparr>))"
  using run_fields_rfc [of fs d Pseudo_default]
  by (auto simp: decode_block_def try_decode_fields apply_pseudos hpack_reset_def DEFAULT_TABLE_SIZE_def
      split: prod.splits option.splits)

definition demo_fields :: "hfield list" where
  "demo_fields = [Indexed 2, Literal True (Name_Index 4) True (bstr ''/v1/a''), Size_Update 100]"

lemma demo_fields_ok: "list_all field_ok demo_fields"
  by (simp add: demo_fields_def bstr_def)

lemma demo_fields_meaning:
  "rfc_fields [] 4096 demo_fields =
    Some ([('':method'', ''GET''), ('':path'', ''/v1/a'')], [('':path'', ''/v1/a'')], 100)"
  by (simp add: demo_fields_def rfc_entry_def rfc_static_def nth_append Let_def)

theorem decode_block_refines_witness:
  "decode_block \<lparr>d_dynamic = [], d_max_size = 4096\<rparr> (concat (map enc_field demo_fields)) =
    (Some \<lparr>ps_method = Some ''GET'', ps_path = Some ''/v1/a'', ps_status = None, ps_authority = None\<rparr>,
     \<lparr>d_dynamic = [('':path'', ''/v1/a'')], d_max_size = 100\<rparr>)"
  using decode_block_refines [OF demo_fields_ok, of "\<lparr>d_dynamic = [], d_max_size = 4096\<rparr>"]
  by (simp add: demo_fields_meaning pseudo_of_def)

text \<open>The dynamic table never holds more than 32 entries, nor more octets (32 per
  entry plus name and value) than the current maximum size, which never exceeds 4096, over any sequence of
  header blocks, valid or not.\<close>

theorem hpack_table_bounded:
  "decoder_ok (foldl (\<lambda>d src. snd (decode_block d src)) Decoder_default blocks)"
proof -
  have "decoder_ok (foldl (\<lambda>d src. snd (decode_block d src)) d blocks)" if "decoder_ok d" for d
    using that by (induction blocks arbitrary: d) (auto simp: decoder_ok_block)
  then show ?thesis
    by (simp add: decoder_ok_default)
qed

text \<open>Eviction keeps the longest run of most recent entries that fits the two limits:
  the result is a prefix of the table that fits, and every longer prefix does not.\<close>

theorem evict_keeps_longest_fit:
  "\<exists>n. n \<le> length (d_dynamic d) \<and> d_dynamic (evict d) = take n (d_dynamic d) \<and>
    within (d_max_size d) (take n (d_dynamic d)) \<and>
    (\<nexists>m. n < m \<and> m \<le> length (d_dynamic d) \<and> within (d_max_size d) (take m (d_dynamic d)))"
  using evict_longest [of d] evict_within [of d] by auto

end
