(* ===== verification/H2_Conn.thy ===== *)
theory H2_Conn
  imports Correlate H2_Frame Hpack
begin

text \<open>
  HTTP/2 connection tracking (\<open>src/agent/src/h2/conn.rs\<close>): per-descriptor connections, each
  with one byte pipe per direction (leftover bytes, payload bytes still to skip, HPACK
  decoder, header block under continuation) and the streams waiting for a response. \<open>push_bytes\<close>
  and \<open>drain_frames\<close> are the source's two loops; \<open>feed\<close> is the entry point of the event loop.
  Counters are natural numbers; the \<open>u64\<close> counters of the source cannot overflow in practice.
\<close>

definition LEFTOVER_CAP :: nat where "LEFTOVER_CAP = 8 * 1024"

definition MAX_CONNS :: nat where "MAX_CONNS = 8192"

definition MAX_STREAMS :: nat where "MAX_STREAMS = 2048"

record ConnKey =
  ck_tgid :: u32
  ck_fd :: i32

record H2Exchange =
  hx_tgid :: u32
  hx_fd :: i32
  hx_stream_id :: u32
  hx_method :: string
  hx_path :: string
  hx_status :: u16
  hx_t_start_ns :: u64
  hx_t_end_ns :: u64
  hx_protocol :: string
  hx_req_dir :: IoDir
  hx_cgroup_id :: u64

definition H2Exchange_latency_ns :: "H2Exchange \<Rightarrow> u64" where
  "H2Exchange_latency_ns x = sat_sub (hx_t_end_ns x) (hx_t_start_ns x)"

record H2Stats =
  hs_conn_count :: nat
  hs_exchanges :: nat
  hs_dropped_conns :: nat
  hs_dropped_streams :: nat
  hs_missing_path :: nat
  hs_headers_req :: nat
  hs_headers_resp :: nat
  hs_unpaired_status :: nat
  hs_desync :: nat

definition H2Stats_default :: H2Stats where
  "H2Stats_default = \<lparr>hs_conn_count = 0, hs_exchanges = 0, hs_dropped_conns = 0,
    hs_dropped_streams = 0, hs_missing_path = 0, hs_headers_req = 0, hs_headers_resp = 0,
    hs_unpaired_status = 0, hs_desync = 0\<rparr>"

record PendingStream =
  pg_method :: string
  pg_path :: string
  pg_t_start_ns :: u64
  pg_req_dir :: IoDir

record DirPipe =
  dp_leftover :: bytes
  dp_skip :: nat
  dp_decoder :: Decoder
  dp_header_block :: "(u32 \<times> bytes) option"

definition DirPipe_new :: DirPipe where
  "DirPipe_new = \<lparr>dp_leftover = [], dp_skip = 0, dp_decoder = Decoder_default,
    dp_header_block = None\<rparr>"

record H2Conn =
  hc_read :: DirPipe
  hc_write :: DirPipe
  hc_streams :: "(u32, PendingStream) hashmap"
  hc_at :: instant

definition H2Conn_new :: "instant \<Rightarrow> H2Conn" where
  "H2Conn_new now = \<lparr>hc_read = DirPipe_new, hc_write = DirPipe_new, hc_streams = [], hc_at = now\<rparr>"

text \<open>\<open>pipe_mut\<close>: reading and updating the pipe of a direction.\<close>

definition pipe_of :: "IoDir \<Rightarrow> H2Conn \<Rightarrow> DirPipe" where
  "pipe_of dir c = (case dir of Read \<Rightarrow> hc_read c | Write \<Rightarrow> hc_write c)"

definition pipe_mut :: "IoDir \<Rightarrow> (DirPipe \<Rightarrow> DirPipe) \<Rightarrow> H2Conn \<Rightarrow> H2Conn" where
  "pipe_mut dir f c =
    (case dir of Read \<Rightarrow> c\<lparr>hc_read := f (hc_read c)\<rparr> | Write \<Rightarrow> c\<lparr>hc_write := f (hc_write c)\<rparr>)"

record FrameOutcome =
  fo_goaway :: bool
  fo_desync :: bool
  fo_missing_path :: nat
  fo_dropped_streams :: nat
  fo_headers_req :: nat
  fo_headers_resp :: nat
  fo_unpaired_status :: nat

definition empty_outcome :: FrameOutcome where
  "empty_outcome = \<lparr>fo_goaway = False, fo_desync = False, fo_missing_path = 0,
    fo_dropped_streams = 0, fo_headers_req = 0, fo_headers_resp = 0, fo_unpaired_status = 0\<rparr>"

definition merge_outcome :: "FrameOutcome \<Rightarrow> FrameOutcome \<Rightarrow> FrameOutcome" where
  "merge_outcome dst src =
    \<lparr>fo_goaway = fo_goaway dst \<or> fo_goaway src,
     fo_desync = fo_desync dst \<or> fo_desync src,
     fo_missing_path = fo_missing_path dst + fo_missing_path src,
     fo_dropped_streams = fo_dropped_streams dst + fo_dropped_streams src,
     fo_headers_req = fo_headers_req dst + fo_headers_req src,
     fo_headers_resp = fo_headers_resp dst + fo_headers_resp src,
     fo_unpaired_status = fo_unpaired_status dst + fo_unpaired_status src\<rparr>"

definition take_skip :: "DirPipe \<Rightarrow> bytes \<Rightarrow> DirPipe \<times> bytes" where
  "take_skip pipe src =
    (if dp_skip pipe = 0 \<or> src = [] then (pipe, src)
     else let n = min (length src) (dp_skip pipe)
       in (pipe\<lparr>dp_skip := dp_skip pipe - n\<rparr>, drop n src))"

definition skip_payload :: "FrameHeader \<Rightarrow> bool" where
  "skip_payload hdr =
    (if fh_ty hdr = TYPE_HEADERS \<or> fh_ty hdr = TYPE_CONTINUATION
     then total_len hdr > LEFTOVER_CAP else True)"

definition classify_protocol :: "string \<Rightarrow> string" where
  "classify_protocol path =
    (let rest = (if starts_with path ''/'' then drop 1 path else path)
     in if CHR ''.'' \<in> set rest \<and> CHR ''/'' \<in> set rest then ''grpc'' else ''h2'')"

text \<open>The mutable arguments of the frame handlers: connection, completed exchanges, outcome.\<close>

type_synonym fstate = "H2Conn \<times> H2Exchange list \<times> FrameOutcome"

definition on_header_block :: "IoDir \<Rightarrow> u32 \<Rightarrow> bytes \<Rightarrow> u64 \<Rightarrow> fstate \<Rightarrow> fstate" where
  "on_header_block dir stream_id frag ts_ns st =
    (case st of (conn, out, oc) \<Rightarrow>
     if stream_id = 0 then (conn, out, oc)
     else
       (case decode_block (dp_decoder (pipe_of dir conn)) frag of (res, dec) \<Rightarrow>
        let conn = pipe_mut dir (\<lambda>p. p\<lparr>dp_decoder := dec\<rparr>) conn in
        (case res of
           None \<Rightarrow> (conn, out, oc\<lparr>fo_missing_path := fo_missing_path oc + 1\<rparr>)
         | Some decoded \<Rightarrow>
            (case ps_status decoded of
               Some status \<Rightarrow>
                 let oc = oc\<lparr>fo_headers_resp := fo_headers_resp oc + 1\<rparr> in
                 (case hm_get (hc_streams conn) stream_id of
                    None \<Rightarrow> (conn, out, oc\<lparr>fo_unpaired_status := fo_unpaired_status oc + 1\<rparr>)
                  | Some pending \<Rightarrow>
                      let conn = conn\<lparr>hc_streams := hm_remove stream_id (hc_streams conn)\<rparr> in
                      if pg_path pending = []
                      then (conn, out, oc\<lparr>fo_missing_path := fo_missing_path oc + 1\<rparr>)
                      else (conn, out @ [\<lparr>hx_tgid = 0, hx_fd = 0, hx_stream_id = stream_id,
                              hx_method = pg_method pending, hx_path = pg_path pending,
                              hx_status = status, hx_t_start_ns = pg_t_start_ns pending,
                              hx_t_end_ns = ts_ns,
                              hx_protocol = classify_protocol (pg_path pending),
                              hx_req_dir = pg_req_dir pending, hx_cgroup_id = 0\<rparr>], oc))
             | None \<Rightarrow>
                 (case ps_method decoded of
                    None \<Rightarrow> (conn, out, oc)
                  | Some method \<Rightarrow>
                      (case ps_path decoded of
                         None \<Rightarrow> (conn, out, oc\<lparr>fo_missing_path := fo_missing_path oc + 1\<rparr>)
                       | Some path \<Rightarrow>
                           if path = []
                           then (conn, out, oc\<lparr>fo_missing_path := fo_missing_path oc + 1\<rparr>)
                           else if length (hc_streams conn) \<ge> MAX_STREAMS
                             \<and> \<not> hm_contains (hc_streams conn) stream_id
                           then (conn, out, oc\<lparr>fo_dropped_streams := fo_dropped_streams oc + 1\<rparr>)
                           else (conn\<lparr>hc_streams := hm_insert stream_id
                                   \<lparr>pg_method = method, pg_path = path, pg_t_start_ns = ts_ns,
                                    pg_req_dir = dir\<rparr> (hc_streams conn)\<rparr>, out,
                                 oc\<lparr>fo_headers_req := fo_headers_req oc + 1\<rparr>)))))))"

definition apply_control :: "IoDir \<Rightarrow> FrameHeader \<Rightarrow> H2Conn \<Rightarrow> FrameOutcome \<Rightarrow> H2Conn \<times> FrameOutcome" where
  "apply_control dir hdr conn oc =
    (if fh_ty hdr = TYPE_RST_STREAM
     then (conn\<lparr>hc_streams := hm_remove (fh_stream_id hdr) (hc_streams conn)\<rparr>, oc)
     else if fh_ty hdr = TYPE_GOAWAY then (conn, oc\<lparr>fo_goaway := True\<rparr>)
     else if fh_ty hdr = TYPE_HEADERS \<or> fh_ty hdr = TYPE_CONTINUATION
     then (pipe_mut dir (\<lambda>p. p\<lparr>dp_header_block := None\<rparr>) conn, oc)
     else (conn, oc))"

definition apply_headers_or_control :: "IoDir \<Rightarrow> FrameHeader \<Rightarrow> bytes \<Rightarrow> u64 \<Rightarrow> fstate \<Rightarrow> fstate" where
  "apply_headers_or_control dir hdr payload ts_ns st =
    (case st of (conn, out, oc) \<Rightarrow>
     if fh_ty hdr = TYPE_HEADERS then
       (case headers_fragment (fh_flags hdr) payload of
          None \<Rightarrow> (conn, out, oc)
        | Some frag \<Rightarrow>
            if fh_flags hdr AND FLAG_END_HEADERS \<noteq> 0
            then on_header_block dir (fh_stream_id hdr) frag ts_ns (conn, out, oc)
            else (pipe_mut dir (\<lambda>p. p\<lparr>dp_header_block := Some (fh_stream_id hdr, frag)\<rparr>) conn, out, oc))
     else if fh_ty hdr = TYPE_CONTINUATION then
       (case dp_header_block (pipe_of dir conn) of
          None \<Rightarrow> (conn, out, oc)
        | Some (sid, acc) \<Rightarrow>
            let conn = pipe_mut dir (\<lambda>p. p\<lparr>dp_header_block := None\<rparr>) conn in
            if sid \<noteq> fh_stream_id hdr then (conn, out, oc\<lparr>fo_desync := True\<rparr>)
            else if length acc + length payload > LEFTOVER_CAP
            then (conn, out, oc\<lparr>fo_missing_path := fo_missing_path oc + 1\<rparr>)
            else if fh_flags hdr AND FLAG_END_HEADERS \<noteq> 0
            then on_header_block dir sid (acc @ payload) ts_ns (conn, out, oc)
            else (pipe_mut dir (\<lambda>p. p\<lparr>dp_header_block := Some (sid, acc @ payload)\<rparr>) conn, out, oc))
     else if fh_ty hdr = TYPE_RST_STREAM
     then (conn\<lparr>hc_streams := hm_remove (fh_stream_id hdr) (hc_streams conn)\<rparr>, out, oc)
     else if fh_ty hdr = TYPE_GOAWAY then (conn, out, oc\<lparr>fo_goaway := True\<rparr>)
     else (conn, out, oc))"

definition waiting_preface :: "bytes \<Rightarrow> bool" where
  "waiting_preface buf \<longleftrightarrow> starts_with buf (bstr ''PRI'') \<and> length buf < length CLIENT_PREFACE
    \<and> starts_with CLIENT_PREFACE buf"

definition strip_preface :: "bytes \<Rightarrow> bytes" where
  "strip_preface buf =
    (if starts_with buf CLIENT_PREFACE then drop (length CLIENT_PREFACE) buf else buf)"

definition halted :: "FrameOutcome \<Rightarrow> bool" where
  "halted oc \<longleftrightarrow> fo_goaway oc \<or> fo_desync oc"

text \<open>Loop bodies say whether the loop breaks or continues. \<open>drain_iter\<close> is one turn of the loop of
  \<open>drain_frames\<close> on its local buffer.\<close>

datatype 'a loop_ctl = Break 'a | Continue 'a

definition drain_iter :: "IoDir \<Rightarrow> u64 \<Rightarrow> bytes \<Rightarrow> fstate \<Rightarrow> (bytes \<times> fstate) loop_ctl" where
  "drain_iter dir ts_ns buf st =
    (case st of (conn, out, oc) \<Rightarrow>
     if length buf < HEADER_LEN then Break (buf, conn, out, oc)
     else
       (case FrameHeader_parse buf of
          None \<Rightarrow> Break ([], conn, out, oc\<lparr>fo_desync := True\<rparr>)
        | Some hdr \<Rightarrow>
            let total = total_len hdr in
            if skip_payload hdr then
              let oc = (if fh_ty hdr = TYPE_HEADERS \<or> fh_ty hdr = TYPE_CONTINUATION
                        then oc\<lparr>fo_missing_path := fo_missing_path oc + 1\<rparr> else oc);
                  conn = (if length buf \<ge> total then conn
                          else pipe_mut dir (\<lambda>p. p\<lparr>dp_skip := total - length buf\<rparr>) conn);
                  buf = (if length buf \<ge> total then drop total buf else [])
              in (case apply_control dir hdr conn oc of (conn, oc) \<Rightarrow>
                    if halted oc then Break (buf, conn, out, oc) else Continue (buf, conn, out, oc))
            else if length buf < total then Break (buf, conn, out, oc)
            else
              let payload = take (total - HEADER_LEN) (drop HEADER_LEN buf);
                  buf = drop total buf
              in (case apply_headers_or_control dir hdr payload ts_ns (conn, out, oc) of
                    (conn, out, oc) \<Rightarrow>
                      if halted oc then Break (buf, conn, out, oc)
                      else Continue (buf, conn, out, oc))))"

lemma drain_iter_shrinks: "drain_iter dir ts buf st = Continue (buf', st') \<Longrightarrow> length buf' < length buf"
  by (auto simp: drain_iter_def Let_def total_len_def HEADER_LEN_def
      split: prod.splits option.splits if_splits)

function drain_loop :: "IoDir \<Rightarrow> u64 \<Rightarrow> bytes \<Rightarrow> fstate \<Rightarrow> bytes \<times> fstate" where
  "drain_loop dir ts_ns buf st =
    (case drain_iter dir ts_ns buf st of
       Break r \<Rightarrow> r
     | Continue (buf', st') \<Rightarrow> drain_loop dir ts_ns buf' st')"
  by pat_completeness auto
termination
  by (relation "measure (\<lambda>(dir, ts, buf, st). length buf)") (auto dest: drain_iter_shrinks)

declare drain_loop.simps [simp del]

definition drain_frames :: "IoDir \<Rightarrow> u64 \<Rightarrow> H2Conn \<Rightarrow> H2Exchange list \<Rightarrow> fstate" where
  "drain_frames dir ts_ns conn out =
    (let buf = dp_leftover (pipe_of dir conn);
         conn = pipe_mut dir (\<lambda>p. p\<lparr>dp_leftover := []\<rparr>) conn
     in if waiting_preface buf
        then (pipe_mut dir (\<lambda>p. p\<lparr>dp_leftover := buf\<rparr>) conn, out, empty_outcome)
        else case drain_loop dir ts_ns (strip_preface buf) (conn, out, empty_outcome) of
          (buf, conn, out, oc) \<Rightarrow> (pipe_mut dir (\<lambda>p. p\<lparr>dp_leftover := buf\<rparr>) conn, out, oc))"

section \<open>Pipes\<close>

lemma pipe_of_mut [simp]:
  "pipe_of d (pipe_mut d' f c) = (if d = d' then f (pipe_of d c) else pipe_of d c)"
  by (cases d; cases d') (simp_all add: pipe_of_def pipe_mut_def)

lemma pipe_mut_fields [simp]:
  "hc_streams (pipe_mut d f c) = hc_streams c" "hc_at (pipe_mut d f c) = hc_at c"
  by (cases d; simp add: pipe_mut_def)+

lemma pipe_of_update [simp]:
  "pipe_of d (c\<lparr>hc_streams := s\<rparr>) = pipe_of d c" "pipe_of d (c\<lparr>hc_at := t\<rparr>) = pipe_of d c"
  by (cases d; simp add: pipe_of_def)+

lemma pipe_mut_mut [simp]: "pipe_mut d f (pipe_mut d g c) = pipe_mut d (\<lambda>p. f (g p)) c"
  by (cases d) (simp_all add: pipe_mut_def)

lemma pipe_mut_id: "f (pipe_of d c) = pipe_of d c \<Longrightarrow> pipe_mut d f c = c"
  by (cases d) (simp_all add: pipe_mut_def pipe_of_def)

lemma on_header_block_pipe [simp]:
  "dp_skip (pipe_of d (fst (on_header_block dir sid frag ts st))) = dp_skip (pipe_of d (fst st))"
  "dp_leftover (pipe_of d (fst (on_header_block dir sid frag ts st))) = dp_leftover (pipe_of d (fst st))"
  "dp_header_block (pipe_of d (fst (on_header_block dir sid frag ts st))) = dp_header_block (pipe_of d (fst st))"
  by (simp_all add: on_header_block_def Let_def split: prod.split option.split)

lemma apply_control_pipe [simp]:
  "dp_skip (pipe_of d (fst (apply_control dir hdr c oc))) = dp_skip (pipe_of d c)"
  "dp_leftover (pipe_of d (fst (apply_control dir hdr c oc))) = dp_leftover (pipe_of d c)"
  by (simp_all add: apply_control_def)

lemma apply_headers_pipe [simp]:
  "dp_skip (pipe_of d (fst (apply_headers_or_control dir hdr pl ts st))) = dp_skip (pipe_of d (fst st))"
  "dp_leftover (pipe_of d (fst (apply_headers_or_control dir hdr pl ts st))) = dp_leftover (pipe_of d (fst st))"
  by (simp_all add: apply_headers_or_control_def Let_def split: prod.split option.split)

text \<open>What one turn does, by cases.\<close>

lemma drain_iter_cases:
  assumes "drain_iter dir ts buf st = r"
  obtains (short) "length buf < HEADER_LEN" "r = Break (buf, st)"
  | (skip) conn out oc hdr oc1 conn1 buf1 conn2 oc2 where
      "HEADER_LEN \<le> length buf" "st = (conn, out, oc)"
      "FrameHeader_parse buf = Some hdr" "skip_payload hdr"
      "oc1 = (if fh_ty hdr = TYPE_HEADERS \<or> fh_ty hdr = TYPE_CONTINUATION
        then oc\<lparr>fo_missing_path := fo_missing_path oc + 1\<rparr> else oc)"
      "conn1 = (if total_len hdr \<le> length buf then conn
        else pipe_mut dir (\<lambda>p. p\<lparr>dp_skip := total_len hdr - length buf\<rparr>) conn)"
      "buf1 = (if total_len hdr \<le> length buf then drop (total_len hdr) buf else [])"
      "apply_control dir hdr conn1 oc1 = (conn2, oc2)"
      "r = (if halted oc2 then Break (buf1, conn2, out, oc2) else Continue (buf1, conn2, out, oc2))"
  | (partial) hdr where
      "HEADER_LEN \<le> length buf" "FrameHeader_parse buf = Some hdr" "\<not> skip_payload hdr"
      "length buf < total_len hdr" "r = Break (buf, st)"
  | (frame) hdr conn2 out2 oc2 where
      "FrameHeader_parse buf = Some hdr" "\<not> skip_payload hdr" "total_len hdr \<le> length buf"
      "apply_headers_or_control dir hdr (take (total_len hdr - HEADER_LEN) (drop HEADER_LEN buf)) ts st
        = (conn2, out2, oc2)"
      "r = (if halted oc2 then Break (drop (total_len hdr) buf, conn2, out2, oc2)
        else Continue (drop (total_len hdr) buf, conn2, out2, oc2))"
proof -
  obtain conn out oc where st: "st = (conn, out, oc)"
    by (cases st)
  show thesis
  proof (cases "length buf < HEADER_LEN")
    case True
    then show thesis
      using assms short by (simp add: drain_iter_def st)
  next
    case long: False
    then obtain hdr where h: "FrameHeader_parse buf = Some hdr"
      by (metis not_None_eq parse_None)
    show thesis
    proof (cases "skip_payload hdr")
      case True
      then show thesis
        using assms long by (intro skip [OF _ st h True refl refl refl prod.collapse [symmetric]])
          (auto simp: drain_iter_def st h Let_def split: prod.split)
    next
      case False
      show thesis
      proof (cases "length buf < total_len hdr")
        case True
        then show thesis
          using assms long False h by (intro partial) (auto simp: drain_iter_def st)
      next
        case full: False
        obtain c o' oc' where r: "apply_headers_or_control dir hdr
            (take (total_len hdr - HEADER_LEN) (drop HEADER_LEN buf)) ts st = (c, o', oc')"
          by (metis prod_cases3)
        then show thesis
          using assms long False h full
          by (intro frame [OF h False _ r]) (auto simp: drain_iter_def st Let_def)
      qed
    qed
  qed
qed

text \<open>The buffer that \<open>drain_loop\<close> hands back never reaches the cap, and bytes are being skipped
  only when it is empty.\<close>

definition buf_ok :: "nat \<Rightarrow> bytes \<Rightarrow> bool" where
  "buf_ok skip buf \<longleftrightarrow> (skip > 0 \<longrightarrow> buf = [])"

lemma drain_iter_buf:
  assumes "buf_ok (dp_skip (pipe_of dir (fst st))) buf"
    "drain_iter dir ts buf st = Break (buf', st') \<or> drain_iter dir ts buf st = Continue (buf', st')"
  shows "buf_ok (dp_skip (pipe_of dir (fst st'))) buf'"
proof -
  obtain r where r: "drain_iter dir ts buf st = r" "r = Break (buf', st') \<or> r = Continue (buf', st')"
    using assms(2) by blast
  from r(1) show ?thesis
  proof (cases rule: drain_iter_cases)
    case (skip conn out oc hdr oc1 conn1 buf1 conn2 oc2)
    have "dp_skip (pipe_of dir conn2) = dp_skip (pipe_of dir conn1)"
      using apply_control_pipe(1) [of dir dir hdr conn1 oc1] skip(8) by simp
    then show ?thesis
      using skip assms(1) r(2) by (auto simp: buf_ok_def HEADER_LEN_def split: if_splits)
  next
    case (frame hdr conn2 out2 oc2)
    have "dp_skip (pipe_of dir conn2) = dp_skip (pipe_of dir (fst st))"
      using apply_headers_pipe(1) [of dir dir hdr _ ts st] frame(4) by (metis fst_conv)
    then show ?thesis
      using frame assms(1) r(2) by (auto simp: buf_ok_def split: if_splits)
  qed (use assms(1) r(2) in auto)
qed

lemma drain_iter_break_short:
  assumes "drain_iter dir ts buf st = Break (buf', st')" "\<not> halted (snd (snd st'))"
  shows "length buf' < LEFTOVER_CAP \<and> st' = st \<and> buf' = buf"
  using assms(1)
proof (cases rule: drain_iter_cases)
  case (partial hdr)
  then show ?thesis
    by (auto simp: skip_payload_def split: if_splits)
qed (use assms(2) in \<open>auto simp: HEADER_LEN_def LEFTOVER_CAP_def split: if_splits\<close>)

lemma drain_loop_buf:
  "buf_ok (dp_skip (pipe_of dir (fst st))) buf \<Longrightarrow> drain_loop dir ts buf st = (buf', st') \<Longrightarrow>
    buf_ok (dp_skip (pipe_of dir (fst st'))) buf'
    \<and> (halted (snd (snd st')) \<or> length buf' < LEFTOVER_CAP) \<and> length buf' \<le> length buf"
proof (induction dir ts buf st rule: drain_loop.induct)
  case (1 dir ts buf st)
  show ?case
  proof (cases "drain_iter dir ts buf st")
    case (Break r)
    then have r: "r = (buf', st')"
      using "1.prems"(2) by (subst (asm) drain_loop.simps) simp
    have "length buf' \<le> length buf"
      using Break [unfolded r] by (cases rule: drain_iter_cases) (auto split: if_splits)
    then show ?thesis
      using drain_iter_buf [OF "1.prems"(1)] drain_iter_break_short Break r by blast
  next
    case (Continue r)
    obtain b s where r: "r = (b, s)"
      by (cases r)
    have "drain_loop dir ts b s = (buf', st')"
      using "1.prems"(2) Continue r by (subst (asm) drain_loop.simps) simp
    then show ?thesis
      using "1.IH" [OF Continue r [symmetric]] drain_iter_buf [OF "1.prems"(1)]
        drain_iter_shrinks [of dir ts buf st b s] Continue r by fastforce
  qed
qed

section \<open>Appending bytes\<close>

lemma waiting_short: "waiting_preface buf \<Longrightarrow> length buf < LEFTOVER_CAP"
  by (simp add: waiting_preface_def LEFTOVER_CAP_def)

text \<open>A pipe between two events.\<close>

definition pipe_idle :: "DirPipe \<Rightarrow> bool" where
  "pipe_idle p \<longleftrightarrow> buf_ok (dp_skip p) (dp_leftover p) \<and> length (dp_leftover p) < LEFTOVER_CAP"

lemma drain_frames_pipe:
  assumes "buf_ok (dp_skip (pipe_of dir conn)) (dp_leftover (pipe_of dir conn))"
    "drain_frames dir ts conn out = (conn', out', oc')"
  shows "buf_ok (dp_skip (pipe_of dir conn')) (dp_leftover (pipe_of dir conn'))"
    "halted oc' \<or> length (dp_leftover (pipe_of dir conn')) < LEFTOVER_CAP"
    "length (dp_leftover (pipe_of dir conn')) \<le> length (dp_leftover (pipe_of dir conn))"
proof -
  let ?buf = "dp_leftover (pipe_of dir conn)"
  let ?c = "pipe_mut dir (\<lambda>p. p\<lparr>dp_leftover := []\<rparr>) conn"
  have "buf_ok (dp_skip (pipe_of dir conn')) (dp_leftover (pipe_of dir conn')) \<and>
    (halted oc' \<or> length (dp_leftover (pipe_of dir conn')) < LEFTOVER_CAP) \<and>
    length (dp_leftover (pipe_of dir conn')) \<le> length ?buf"
  proof (cases "waiting_preface ?buf")
    case True
    then show ?thesis
      using assms waiting_short [OF True] by (auto simp: drain_frames_def Let_def)
  next
    case False
    obtain b c o' oc where d: "drain_loop dir ts (strip_preface ?buf) (?c, out, empty_outcome) = (b, c, o', oc)"
      by (metis prod_cases4)
    have "buf_ok (dp_skip (pipe_of dir ?c)) (strip_preface ?buf)"
      using assms(1) by (auto simp: buf_ok_def strip_preface_def)
    then have "buf_ok (dp_skip (pipe_of dir c)) b \<and> (halted oc \<or> length b < LEFTOVER_CAP)
        \<and> length b \<le> length (strip_preface ?buf)"
      using drain_loop_buf [OF _ d] by simp
    moreover have "length (strip_preface ?buf) \<le> length ?buf"
      by (simp add: strip_preface_def)
    ultimately show ?thesis
      using assms(2) False d by (auto simp: drain_frames_def Let_def)
  qed
  then show "buf_ok (dp_skip (pipe_of dir conn')) (dp_leftover (pipe_of dir conn'))"
    "halted oc' \<or> length (dp_leftover (pipe_of dir conn')) < LEFTOVER_CAP"
    "length (dp_leftover (pipe_of dir conn')) \<le> length ?buf"
    by auto
qed

text \<open>One turn of the loop of \<open>push_bytes\<close>.\<close>

definition push_iter :: "IoDir \<Rightarrow> u64 \<Rightarrow> bytes \<Rightarrow> fstate \<Rightarrow> (bytes \<times> fstate) loop_ctl" where
  "push_iter dir ts_ns src st =
    (case st of (conn, out, oc) \<Rightarrow>
     case take_skip (pipe_of dir conn) src of (pipe, src) \<Rightarrow>
     let conn = pipe_mut dir (\<lambda>_. pipe) conn in
     if src = [] then
       (case drain_frames dir ts_ns conn out of (conn, out, oc') \<Rightarrow>
          Break (src, conn, out, merge_outcome oc oc'))
     else
       let room = LEFTOVER_CAP - length (dp_leftover (pipe_of dir conn)) in
       if room = 0 then
         (case drain_frames dir ts_ns conn out of (conn, out, oc') \<Rightarrow>
            let oc = merge_outcome oc oc'; pipe = pipe_of dir conn in
            if dp_skip pipe = 0 \<and> length (dp_leftover pipe) \<ge> LEFTOVER_CAP
            then Break (src,
              pipe_mut dir (\<lambda>p. p\<lparr>dp_leftover := [], dp_header_block := None,
                dp_decoder := hpack_reset (dp_decoder p)\<rparr>) conn,
              out, oc\<lparr>fo_desync := True\<rparr>)
            else Continue (src, conn, out, oc))
       else
         let n = min (length src) room;
             conn = pipe_mut dir (\<lambda>p. p\<lparr>dp_leftover := dp_leftover p @ take n src\<rparr>) conn
         in (case drain_frames dir ts_ns conn out of (conn, out, oc') \<Rightarrow>
               let oc = merge_outcome oc oc' in
               if halted oc then Break (drop n src, conn, out, oc)
               else Continue (drop n src, conn, out, oc)))"

lemma take_skip_cases:
  assumes "take_skip pipe src = (pipe', src')"
  shows "dp_leftover pipe' = dp_leftover pipe" "length src' \<le> length src"
    "src' \<noteq> [] \<longrightarrow> dp_skip pipe' = 0"
  using assms by (auto simp: take_skip_def Let_def min_def split: if_splits)

definition push_measure :: "IoDir \<Rightarrow> bytes \<Rightarrow> fstate \<Rightarrow> nat" where
  "push_measure dir src st =
    2 * length src + (if length (dp_leftover (pipe_of dir (fst st))) \<ge> LEFTOVER_CAP then 1 else 0)"

lemma push_iter_measure:
  assumes "push_iter dir ts src st = Continue (src', st')"
  shows "push_measure dir src' st' < push_measure dir src st"
proof -
  obtain conn out oc where st: "st = (conn, out, oc)"
    by (cases st)
  obtain pipe s1 where t: "take_skip (pipe_of dir conn) src = (pipe, s1)"
    by (cases "take_skip (pipe_of dir conn) src")
  note ts = take_skip_cases [OF t]
  let ?c = "pipe_mut dir (\<lambda>_. pipe) conn"
  have s1: "s1 \<noteq> []"
    using assms by (auto simp: push_iter_def st t split: prod.splits)
  show ?thesis
  proof (cases "length (dp_leftover pipe) < LEFTOVER_CAP")
    case True
    then have "src' = drop (min (length s1) (LEFTOVER_CAP - length (dp_leftover pipe))) s1"
      using assms s1 by (auto simp: push_iter_def st t Let_def split: prod.splits if_splits)
    moreover have "0 < min (length s1) (LEFTOVER_CAP - length (dp_leftover pipe))"
      using s1 True by simp
    ultimately have "length src' < length s1"
      using s1 by (metis diff_less length_drop length_greater_0_conv)
    then show ?thesis
      using ts(2) by (simp add: push_measure_def)
  next
    case False
    obtain c o' oc' where d: "drain_frames dir ts ?c out = (c, o', oc')"
      by (cases "drain_frames dir ts ?c out")
    have r: "src' = s1" "st' = (c, o', merge_outcome oc oc')"
      "\<not> (dp_skip (pipe_of dir c) = 0 \<and> length (dp_leftover (pipe_of dir c)) \<ge> LEFTOVER_CAP)"
      using assms s1 False d by (auto simp: push_iter_def st t Let_def split: if_splits)
    have "buf_ok (dp_skip (pipe_of dir c)) (dp_leftover (pipe_of dir c))"
      using drain_frames_pipe(1) [OF _ d] ts(3) s1 by (simp add: buf_ok_def)
    then have "length (dp_leftover (pipe_of dir c)) < LEFTOVER_CAP"
      using r(3) by (auto simp: buf_ok_def LEFTOVER_CAP_def not_le)
    then show ?thesis
      using False r ts(1,2) st by (simp add: push_measure_def)
  qed
qed

function push_loop :: "IoDir \<Rightarrow> u64 \<Rightarrow> bytes \<Rightarrow> fstate \<Rightarrow> fstate" where
  "push_loop dir ts_ns src st =
    (case push_iter dir ts_ns src st of
       Break (src', st') \<Rightarrow> st'
     | Continue (src', st') \<Rightarrow> push_loop dir ts_ns src' st')"
  by pat_completeness auto
termination
  by (relation "measure (\<lambda>(dir, ts, src, st). push_measure dir src st)")
    (auto dest: push_iter_measure)

declare push_loop.simps [simp del]

definition push_bytes :: "H2Conn \<Rightarrow> IoDir \<Rightarrow> bytes \<Rightarrow> u64 \<Rightarrow> H2Exchange list \<Rightarrow> fstate" where
  "push_bytes conn dir src ts_ns out = push_loop dir ts_ns src (conn, out, empty_outcome)"

section \<open>The registry\<close>

record H2Registry =
  hr_conns :: "(ConnKey, H2Conn) hashmap"
  hr_unmark :: "(u32 \<times> i32) list"
  hr_stats :: H2Stats

definition H2Registry_default :: H2Registry where
  "H2Registry_default = \<lparr>hr_conns = [], hr_unmark = [], hr_stats = H2Stats_default\<rparr>"

definition conn_key :: "u32 \<Rightarrow> i32 \<Rightarrow> ConnKey" where
  "conn_key tgid fd = \<lparr>ck_tgid = tgid, ck_fd = fd\<rparr>"

definition h2_is_marked :: "H2Registry \<Rightarrow> u32 \<Rightarrow> i32 \<Rightarrow> bool" where
  "h2_is_marked r tgid fd = hm_contains (hr_conns r) (conn_key tgid fd)"

definition h2_drop_conn :: "H2Registry \<Rightarrow> u32 \<Rightarrow> i32 \<Rightarrow> H2Registry" where
  "h2_drop_conn r tgid fd =
    (if hm_contains (hr_conns r) (conn_key tgid fd)
     then r\<lparr>hr_conns := hm_remove (conn_key tgid fd) (hr_conns r),
            hr_unmark := hr_unmark r @ [(tgid, fd)]\<rparr>
     else r)"

definition h2_take_unmark :: "H2Registry \<Rightarrow> (u32 \<times> i32) list \<times> H2Registry" where
  "h2_take_unmark r = (hr_unmark r, r\<lparr>hr_unmark := []\<rparr>)"

text \<open>\<open>retain\<close> that collects the keys it drops, as \<open>evict_stale\<close> and \<open>evict_closed\<close> do.\<close>

definition h2_retain :: "(ConnKey \<Rightarrow> H2Conn \<Rightarrow> bool) \<Rightarrow> H2Registry \<Rightarrow> H2Registry" where
  "h2_retain keep r =
    (let gone = map (\<lambda>(k, c). (ck_tgid k, ck_fd k)) (filter (\<lambda>(k, c). \<not> keep k c) (hr_conns r));
         conns = hm_retain keep (hr_conns r)
     in r\<lparr>hr_conns := conns, hr_unmark := hr_unmark r @ gone,
          hr_stats := (hr_stats r)\<lparr>hs_conn_count := length conns\<rparr>\<rparr>)"

definition h2_evict_stale :: "instant \<Rightarrow> H2Registry \<Rightarrow> H2Registry" where
  "h2_evict_stale now = h2_retain (\<lambda>k c. now - hc_at c \<le> TIMEOUT)"

definition h2_evict_closed :: "(u32 \<Rightarrow> i32 \<Rightarrow> bool) \<Rightarrow> H2Registry \<Rightarrow> H2Registry" where
  "h2_evict_closed is_live = h2_retain (\<lambda>k c. is_live (ck_tgid k) (ck_fd k))"

text \<open>\<open>feed\<close> in the order of the source: a full preface replaces the connection, an unknown
  descriptor is admitted only below the cap and when the bytes look like HTTP/2 (\<open>feed_open\<close>), then the
  bytes are pushed and the outcome is accounted (\<open>feed_push\<close>).\<close>

definition feed_open :: "bytes \<Rightarrow> ConnKey \<Rightarrow> instant \<Rightarrow> H2Registry \<Rightarrow> bool \<times> H2Registry" where
  "feed_open chunk key now r =
    (let r = (if starts_with chunk CLIENT_PREFACE
              then r\<lparr>hr_conns := hm_remove key (hr_conns r)\<rparr> else r)
     in if hm_contains (hr_conns r) key then (True, r)
        else if length (hr_conns r) \<ge> MAX_CONNS
        then (False, r\<lparr>hr_stats := (hr_stats r)\<lparr>hs_dropped_conns := hs_dropped_conns (hr_stats r) + 1\<rparr>\<rparr>)
        else if \<not> looks_like_h2 chunk then (False, r)
        else (True, r\<lparr>hr_conns := hm_insert key (H2Conn_new now) (hr_conns r)\<rparr>))"

definition feed_stats :: "FrameOutcome \<Rightarrow> H2Stats \<Rightarrow> H2Stats" where
  "feed_stats oc st =
    st\<lparr>hs_missing_path := hs_missing_path st + fo_missing_path oc,
       hs_dropped_streams := hs_dropped_streams st + fo_dropped_streams oc,
       hs_headers_req := hs_headers_req st + fo_headers_req oc,
       hs_headers_resp := hs_headers_resp st + fo_headers_resp oc,
       hs_unpaired_status := hs_unpaired_status st + fo_unpaired_status oc,
       hs_desync := hs_desync st + (if fo_desync oc then 1 else 0)\<rparr>"

definition feed_push ::
  "SockIoEvent \<Rightarrow> instant \<Rightarrow> bool \<Rightarrow> IoDir \<Rightarrow> bytes \<Rightarrow> ConnKey \<Rightarrow> H2Registry \<Rightarrow> H2Exchange list \<times> H2Registry" where
  "feed_push ev now client_only dir chunk key r =
    (case hm_get (hr_conns r) key of None \<Rightarrow> ([], r) | Some conn \<Rightarrow>
     (case push_bytes (conn\<lparr>hc_at := now\<rparr>) dir chunk (io_ts_ns ev) [] of (conn, out, oc) \<Rightarrow>
      let conns = hm_insert key conn (hr_conns r);
          st = feed_stats oc (hr_stats r);
          out = map (\<lambda>x. x\<lparr>hx_tgid := io_tgid ev, hx_fd := io_fd ev, hx_cgroup_id := io_cgroup_id ev\<rparr>) out;
          out = (if client_only then filter (\<lambda>x. hx_req_dir x = Write) out else out);
          st = st\<lparr>hs_exchanges := hs_exchanges st + length out\<rparr>;
          gone = fo_goaway oc \<or> fo_desync oc;
          conns = (if gone then hm_remove key conns else conns);
          unmark = (if gone then hr_unmark r @ [(ck_tgid key, ck_fd key)] else hr_unmark r);
          st = st\<lparr>hs_conn_count := length conns\<rparr>
      in (out, r\<lparr>hr_conns := conns, hr_unmark := unmark, hr_stats := st\<rparr>)))"

definition feed :: "SockIoEvent \<Rightarrow> instant \<Rightarrow> bool \<Rightarrow> H2Registry \<Rightarrow> H2Exchange list \<times> H2Registry" where
  "feed ev now client_only r =
    (case IoDir_from_u8 (io_dir ev) of None \<Rightarrow> ([], r) | Some dir \<Rightarrow>
     let plen = min (unat (io_prefix_len ev)) (length (io_prefix ev)) in
     if is_neg (io_ret ev) \<or> plen = 0 then ([], r)
     else
       let chunk = take plen (io_prefix ev);
           key = conn_key (io_tgid ev) (io_fd ev)
       in (case feed_open chunk key now r of
             (False, r) \<Rightarrow> ([], r)
           | (True, r) \<Rightarrow> feed_push ev now client_only dir chunk key r))"

end
