(* ===== verification/H2_Invariants.thy ===== *)
theory H2_Invariants
  imports H2_Conn
begin

text \<open>
  Invariants of the HTTP/2 tracker of theory \<open>H2_Conn\<close>. The locale \<open>frame_invariant\<close> lifts a
  predicate that the two frame handlers preserve through the loops \<open>drain_frames\<close> and
  \<open>push_bytes\<close>; it is interpreted for the structural bounds of a connection, for the
  contents of the exchanges it completes, and for the accounting of response headers. The
  registry invariant follows, for any sequence of events and sweeps.
\<close>

section \<open>Lifting an invariant through the loops\<close>

lemma pipe_mut_const: "pipe_mut d f c = pipe_mut d (\<lambda>_. f (pipe_of d c)) c"
  by (cases d) (simp_all add: pipe_mut_def pipe_of_def)

text \<open>The number is the count of exchanges when the current outcome was last empty:
  \<open>drain_frames\<close> starts from an empty outcome and \<open>push_bytes\<close> merges the outcomes.\<close>

locale frame_invariant =
  fixes P :: "IoDir \<Rightarrow> u64 \<Rightarrow> nat \<Rightarrow> fstate \<Rightarrow> bool"
  assumes skip: "P dir ts n (c, out, oc) \<Longrightarrow>
      P dir ts n (pipe_mut dir (\<lambda>p. p\<lparr>dp_skip := k\<rparr>) c, out, oc)"
    and leftover: "P dir ts n (c, out, oc) \<Longrightarrow>
      P dir ts n (pipe_mut dir (\<lambda>p. p\<lparr>dp_leftover := l\<rparr>) c, out, oc)"
    and reset: "P dir ts n (c, out, oc) \<Longrightarrow>
      P dir ts n (pipe_mut dir (\<lambda>p. p\<lparr>dp_leftover := [], dp_header_block := None,
        dp_decoder := hpack_reset (dp_decoder p)\<rparr>) c, out, oc\<lparr>fo_desync := True\<rparr>)"
    and missing: "P dir ts n (c, out, oc) \<Longrightarrow> P dir ts n (c, out, oc\<lparr>fo_missing_path := k\<rparr>)"
    and control: "P dir ts n (c, out, oc) \<Longrightarrow> apply_control dir hdr c oc = (c', oc') \<Longrightarrow>
      P dir ts n (c', out, oc')"
    and headers: "P dir ts n st \<Longrightarrow> length pl \<le> LEFTOVER_CAP \<Longrightarrow>
      P dir ts n (apply_headers_or_control dir hdr pl ts st)"
    and start: "P dir ts n (c, out, oc) \<Longrightarrow> P dir ts (length out) (c, out, empty_outcome)"
    and merge: "P dir ts n (c, out, oc) \<Longrightarrow> P dir ts (length out) (c', out', oc') \<Longrightarrow>
      P dir ts n (c', out', merge_outcome oc oc')"
begin

lemma append_leftover:
  "P dir ts n (c, out, oc) \<Longrightarrow>
    P dir ts n (pipe_mut dir (\<lambda>p. p\<lparr>dp_leftover := dp_leftover p @ x\<rparr>) c, out, oc)"
  using leftover [of dir ts n c out oc "dp_leftover (pipe_of dir c) @ x"]
  by (subst pipe_mut_const) (simp add: pipe_mut_const [of dir "\<lambda>p. p\<lparr>dp_leftover := _\<rparr>"])

lemma take_skip_keeps:
  "P dir ts n (c, out, oc) \<Longrightarrow> take_skip (pipe_of dir c) src = (pipe, src') \<Longrightarrow>
    P dir ts n (pipe_mut dir (\<lambda>_. pipe) c, out, oc)"
  using skip [of dir ts n c out oc] pipe_mut_id [of "\<lambda>_. pipe_of dir c" dir c]
  by (auto simp: take_skip_def Let_def pipe_mut_const [of dir "\<lambda>p. p\<lparr>dp_skip := _\<rparr>"]
      split: if_splits)

lemma drain_iter_keeps:
  assumes "P dir ts n st"
    "drain_iter dir ts buf st = Break (buf', st') \<or> drain_iter dir ts buf st = Continue (buf', st')"
  shows "P dir ts n st'"
proof -
  obtain r where r: "drain_iter dir ts buf st = r" "r = Break (buf', st') \<or> r = Continue (buf', st')"
    using assms(2) by blast
  from r(1) show ?thesis
  proof (cases rule: drain_iter_cases)
    case (skip conn out oc hdr oc1 conn1 buf1 conn2 oc2)
    have "P dir ts n (conn, out, oc1)"
      using skip(2,5) assms(1) missing by auto
    then have "P dir ts n (conn1, out, oc1)"
      using skip(6) frame_invariant.skip [OF frame_invariant_axioms] by auto
    then have "P dir ts n (conn2, out, oc2)"
      using control skip(8) by blast
    then show ?thesis
      using skip(9) r(2) by (auto split: if_splits)
  next
    case (frame hdr conn2 out2 oc2)
    have "length (take (total_len hdr - HEADER_LEN) (drop HEADER_LEN buf)) \<le> LEFTOVER_CAP"
      using frame(2) by (auto simp: skip_payload_def split: if_splits)
    then have "P dir ts n (conn2, out2, oc2)"
      using headers [OF assms(1), of _ hdr] frame(4) by metis
    then show ?thesis
      using frame(5) r(2) by (auto split: if_splits)
  qed (use assms(1) r(2) in auto)
qed

lemma drain_loop_keeps: "P dir ts n st \<Longrightarrow> drain_loop dir ts buf st = (buf', st') \<Longrightarrow> P dir ts n st'"
proof (induction dir ts buf st rule: drain_loop.induct)
  case (1 dir ts buf st)
  show ?case
  proof (cases "drain_iter dir ts buf st")
    case (Break r)
    then have "drain_iter dir ts buf st = Break (buf', st')"
      using "1.prems"(2) by (subst (asm) drain_loop.simps) simp
    then show ?thesis
      using drain_iter_keeps [OF "1.prems"(1)] by blast
  next
    case (Continue r)
    obtain b s where r: "r = (b, s)"
      by (cases r)
    then have "P dir ts n s"
      using drain_iter_keeps [OF "1.prems"(1)] Continue by blast
    moreover have "drain_loop dir ts b s = (buf', st')"
      using "1.prems"(2) Continue r by (subst (asm) drain_loop.simps) simp
    ultimately show ?thesis
      using "1.IH" [OF Continue r [symmetric]] by blast
  qed
qed

lemma drain_frames_keeps:
  assumes "P dir ts n (conn, out, oc)" "drain_frames dir ts conn out = (conn', out', oc')"
  shows "P dir ts n (conn', out', merge_outcome oc oc')"
proof -
  let ?buf = "dp_leftover (pipe_of dir conn)"
  let ?c = "pipe_mut dir (\<lambda>p. p\<lparr>dp_leftover := []\<rparr>) conn"
  have c: "P dir ts (length out) (?c, out, empty_outcome)"
    using start [OF assms(1)] by (rule leftover)
  have "P dir ts (length out) (conn', out', oc')"
  proof (cases "waiting_preface ?buf")
    case True
    then show ?thesis
      using assms leftover [OF c, of ?buf] by (auto simp: drain_frames_def Let_def)
  next
    case False
    obtain b c1 o1 oc1 where d:
      "drain_loop dir ts (strip_preface ?buf) (?c, out, empty_outcome) = (b, c1, o1, oc1)"
      by (metis prod_cases4)
    then have "P dir ts (length out) (c1, o1, oc1)"
      using drain_loop_keeps [OF c] by blast
    then show ?thesis
      using leftover [of dir ts "length out" c1 o1 oc1 b] assms(2) d False
      by (auto simp: drain_frames_def Let_def)
  qed
  then show ?thesis
    using merge [OF assms(1)] by blast
qed

lemma push_iter_keeps:
  assumes "P dir ts n st"
    "push_iter dir ts src st = Break (src', st') \<or> push_iter dir ts src st = Continue (src', st')"
  shows "P dir ts n st'"
proof -
  obtain conn out oc where st: "st = (conn, out, oc)"
    by (cases st)
  obtain pipe s1 where t: "take_skip (pipe_of dir conn) src = (pipe, s1)"
    by (cases "take_skip (pipe_of dir conn) src")
  let ?c = "pipe_mut dir (\<lambda>_. pipe) conn"
  have c: "P dir ts n (?c, out, oc)"
    using take_skip_keeps [OF _ t] assms(1) st by simp
  have drained: "P dir ts n (c', out', merge_outcome oc oc')"
    if "drain_frames dir ts ?c out = (c', out', oc')" for c' out' oc'
    using drain_frames_keeps [OF c that] .
  have appended: "P dir ts n (c', out', merge_outcome oc oc')"
    if "drain_frames dir ts (pipe_mut dir (\<lambda>p. p\<lparr>dp_leftover := dp_leftover p @ x\<rparr>) ?c) out = (c', out', oc')"
    for x c' out' oc'
    using drain_frames_keeps [OF append_leftover [OF c] that] .
  from assms(2) show ?thesis
    by (auto simp: push_iter_def st t Let_def split: prod.splits if_splits
        dest!: drained appended intro: reset simp del: pipe_mut_mut)
qed

lemma push_loop_keeps: "P dir ts n st \<Longrightarrow> P dir ts n (push_loop dir ts src st)"
proof (induction dir ts src st rule: push_loop.induct)
  case (1 dir ts src st)
  show ?case
  proof (cases "push_iter dir ts src st")
    case (Break r)
    then show ?thesis
      using push_iter_keeps [OF "1.prems", of src "fst r" "snd r"]
      by (subst push_loop.simps) (auto split: prod.splits)
  next
    case (Continue r)
    obtain b s where r: "r = (b, s)"
      by (cases r)
    then have "P dir ts n s"
      using push_iter_keeps [OF "1.prems"] Continue by blast
    then show ?thesis
      using "1.IH" [OF Continue r [symmetric]] Continue r by (subst push_loop.simps) simp
  qed
qed

lemma push_bytes_keeps:
  "P dir ts (length out) (conn, out, empty_outcome) \<Longrightarrow>
    P dir ts (length out) (push_bytes conn dir src ts out)"
  by (simp add: push_bytes_def push_loop_keeps)

end

section \<open>Structural bounds\<close>

definition pipe_bounds :: "DirPipe \<Rightarrow> bool" where
  "pipe_bounds p \<longleftrightarrow> decoder_ok (dp_decoder p) \<and>
    (case dp_header_block p of None \<Rightarrow> True | Some (sid, b) \<Rightarrow> length b \<le> LEFTOVER_CAP)"

definition streams_ok :: "H2Conn \<Rightarrow> bool" where
  "streams_ok c \<longleftrightarrow> hm_wf (hc_streams c) \<and> length (hc_streams c) \<le> MAX_STREAMS
    \<and> (\<forall>(sid, s) \<in> set (hc_streams c). pg_path s \<noteq> [])"

definition conn_bounds :: "IoDir \<Rightarrow> u64 \<Rightarrow> nat \<Rightarrow> fstate \<Rightarrow> bool" where
  "conn_bounds dir ts n st \<longleftrightarrow> (\<forall>d. pipe_bounds (pipe_of d (fst st))) \<and> streams_ok (fst st)"

lemma streams_ok_pipe [simp]: "streams_ok (pipe_mut d f c) = streams_ok c"
  by (simp add: streams_ok_def)

lemma streams_ok_remove: "streams_ok c \<Longrightarrow> streams_ok (c\<lparr>hc_streams := hm_remove sid (hc_streams c)\<rparr>)"
  using hm_remove_set [of sid "hc_streams c"] hm.len_rem [of sid "hc_streams c"]
  by (auto simp: streams_ok_def intro: order_trans)

lemma streams_ok_insert:
  "streams_ok c \<Longrightarrow> length (hc_streams c) < MAX_STREAMS \<or> hm_contains (hc_streams c) sid \<Longrightarrow>
    pg_path s \<noteq> [] \<Longrightarrow> streams_ok (c\<lparr>hc_streams := hm_insert sid s (hc_streams c)\<rparr>)"
  using hm.ins_bounded [of "hc_streams c" MAX_STREAMS sid s]
    hm_insert_all [of "hc_streams c" "\<lambda>_ s. pg_path s \<noteq> []" sid s]
  by (auto simp: streams_ok_def hm_contains_get)

lemma pipe_bounds_updates [simp]:
  "pipe_bounds (p\<lparr>dp_skip := k\<rparr>) = pipe_bounds p"
  "pipe_bounds (p\<lparr>dp_leftover := l\<rparr>) = pipe_bounds p"
  by (simp_all add: pipe_bounds_def)

lemma pipe_bounds_no_block: "pipe_bounds p \<Longrightarrow> pipe_bounds (p\<lparr>dp_header_block := None\<rparr>)"
  by (simp add: pipe_bounds_def)

lemma pipe_bounds_block:
  "pipe_bounds p \<Longrightarrow> length b \<le> LEFTOVER_CAP \<Longrightarrow> pipe_bounds (p\<lparr>dp_header_block := Some (sid, b)\<rparr>)"
  by (simp add: pipe_bounds_def)

lemma pipe_bounds_decoder: "pipe_bounds p \<Longrightarrow> decoder_ok d \<Longrightarrow> pipe_bounds (p\<lparr>dp_decoder := d\<rparr>)"
  by (simp add: pipe_bounds_def)

lemma on_header_block_bounds:
  assumes "conn_bounds dir ts n st"
  shows "conn_bounds dir ts n (on_header_block dir sid frag ts st)"
proof -
  obtain c out oc where st: "st = (c, out, oc)"
    by (cases st)
  obtain res dec where r: "decode_block (dp_decoder (pipe_of dir c)) frag = (res, dec)"
    by (cases "decode_block (dp_decoder (pipe_of dir c)) frag")
  let ?c = "pipe_mut dir (\<lambda>p. p\<lparr>dp_decoder := dec\<rparr>) c"
  have dec: "decoder_ok dec"
    using decoder_ok_block [of "dp_decoder (pipe_of dir c)" frag] assms r st
    by (simp add: conn_bounds_def pipe_bounds_def)
  have c: "\<forall>d. pipe_bounds (pipe_of d ?c)" "streams_ok ?c"
    using assms st dec by (auto simp: conn_bounds_def pipe_bounds_decoder)
  then show ?thesis
    using assms streams_ok_remove [OF c(2), of sid] streams_ok_insert [OF c(2), of sid]
    by (simp add: on_header_block_def conn_bounds_def st r Let_def not_le
        split: option.split)
qed

lemma apply_headers_bounds:
  assumes "conn_bounds dir ts n st" "length pl \<le> LEFTOVER_CAP"
  shows "conn_bounds dir ts n (apply_headers_or_control dir hdr pl ts st)"
proof -
  obtain c out oc where st: "st = (c, out, oc)"
    by (cases st)
  have frag: "length f \<le> LEFTOVER_CAP" if "headers_fragment flags pl = Some f" for f flags
    using headers_fragment_length [OF that] assms(2) by simp
  let ?c = "pipe_mut dir (\<lambda>p. p\<lparr>dp_header_block := None\<rparr>) c"
  have none: "conn_bounds dir ts n (?c, out, oc)"
    using assms(1) st by (simp add: conn_bounds_def pipe_bounds_no_block)
  then show ?thesis
    using assms(1) st frag streams_ok_remove [of c "fh_stream_id hdr"]
    by (auto simp: apply_headers_or_control_def Let_def not_less conn_bounds_def [of _ _ _ "(_, _)"]
        pipe_bounds_block intro!: on_header_block_bounds split: option.split)
qed

lemma apply_control_bounds:
  "conn_bounds dir ts n (c, out, oc) \<Longrightarrow> apply_control dir hdr c oc = (c', oc') \<Longrightarrow>
    conn_bounds dir ts n (c', out, oc')"
  by (auto simp: apply_control_def conn_bounds_def streams_ok_remove pipe_bounds_no_block
      split: if_splits)

interpretation bounds: frame_invariant conn_bounds
proof
  fix dir ts n c out oc
  assume "conn_bounds dir ts n (c, out, oc)"
  then show "conn_bounds dir ts n (pipe_mut dir (\<lambda>p. p\<lparr>dp_leftover := [], dp_header_block := None,
      dp_decoder := hpack_reset (dp_decoder p)\<rparr>) c, out, oc\<lparr>fo_desync := True\<rparr>)"
    by (simp add: conn_bounds_def pipe_bounds_def decoder_ok_default)
qed (auto simp: apply_control_bounds apply_headers_bounds, auto simp: conn_bounds_def)

section \<open>Completed exchanges\<close>

definition exchange_ok :: "u64 \<Rightarrow> H2Exchange \<Rightarrow> bool" where
  "exchange_ok ts x \<longleftrightarrow> hx_t_end_ns x = ts \<and> hx_path x \<noteq> [] \<and> hx_stream_id x \<noteq> 0
    \<and> hx_protocol x = classify_protocol (hx_path x)"

definition exchanges_ok :: "IoDir \<Rightarrow> u64 \<Rightarrow> nat \<Rightarrow> fstate \<Rightarrow> bool" where
  "exchanges_ok dir ts n st \<longleftrightarrow> list_all (exchange_ok ts) (fst (snd st))"

lemma on_header_block_exchanges:
  "exchanges_ok dir ts n st \<Longrightarrow> exchanges_ok dir ts n (on_header_block dir' sid frag ts st)"
  by (cases st) (simp add: exchanges_ok_def exchange_ok_def on_header_block_def Let_def
      split: prod.split option.split)

interpretation exchanges: frame_invariant exchanges_ok
proof
  fix dir ts n st pl hdr
  assume "exchanges_ok dir ts n st"
  then show "exchanges_ok dir ts n (apply_headers_or_control dir hdr pl ts st)"
    by (cases st) (auto simp: apply_headers_or_control_def Let_def exchanges_ok_def [of _ _ _ "(_, _)"]
        intro!: on_header_block_exchanges split: option.split)
qed (auto simp: exchanges_ok_def apply_control_def split: if_splits)

section \<open>Accounting\<close>

text \<open>Every response header block is either paired into an exchange or counted as unpaired.\<close>

definition responses_balanced :: "IoDir \<Rightarrow> u64 \<Rightarrow> nat \<Rightarrow> fstate \<Rightarrow> bool" where
  "responses_balanced dir ts n st \<longleftrightarrow> conn_bounds dir ts n st \<and>
    fo_headers_resp (snd (snd st)) + n = length (fst (snd st)) + fo_unpaired_status (snd (snd st))"

lemma pending_path: "streams_ok c \<Longrightarrow> hm_get (hc_streams c) sid = Some p \<Longrightarrow> pg_path p \<noteq> []"
  by (auto simp: streams_ok_def dest!: hm_get_in_set)

lemma on_header_block_balanced:
  "responses_balanced dir ts n st \<Longrightarrow> responses_balanced dir ts n (on_header_block dir sid frag ts st)"
proof -
  assume b: "responses_balanced dir ts n st"
  obtain c out oc where st: "st = (c, out, oc)"
    by (cases st)
  have "streams_ok c"
    using b st by (simp add: responses_balanced_def conn_bounds_def)
  then have "hm_get (hc_streams c) sid = Some p \<Longrightarrow> pg_path p \<noteq> []" for p
    by (rule pending_path)
  then have "fo_headers_resp (snd (snd (on_header_block dir sid frag ts st))) + n =
      length (fst (snd (on_header_block dir sid frag ts st)))
      + fo_unpaired_status (snd (snd (on_header_block dir sid frag ts st)))"
    using b by (simp add: responses_balanced_def on_header_block_def st Let_def
        split: prod.split option.split)
  then show ?thesis
    using b on_header_block_bounds [of dir ts n st] by (simp add: responses_balanced_def)
qed

interpretation balance: frame_invariant responses_balanced
proof
  fix dir ts n st hdr and pl :: bytes
  assume b: "responses_balanced dir ts n st" and pl: "length pl \<le> LEFTOVER_CAP"
  obtain c out oc where st: "st = (c, out, oc)"
    by (cases st)
  let ?c = "pipe_mut dir (\<lambda>p. p\<lparr>dp_header_block := None\<rparr>) c"
  have none: "responses_balanced dir ts n (?c, out, oc)"
    using b st by (simp add: responses_balanced_def conn_bounds_def pipe_bounds_no_block)
  have "fo_headers_resp (snd (snd (apply_headers_or_control dir hdr pl ts st))) + n =
      length (fst (snd (apply_headers_or_control dir hdr pl ts st)))
      + fo_unpaired_status (snd (snd (apply_headers_or_control dir hdr pl ts st)))"
    using b none on_header_block_balanced [OF b] on_header_block_balanced [OF none]
    by (simp add: apply_headers_or_control_def st Let_def responses_balanced_def split: option.split)
  then show "responses_balanced dir ts n (apply_headers_or_control dir hdr pl ts st)"
    using apply_headers_bounds [OF _ pl] b by (simp add: responses_balanced_def)
next
  fix dir ts n c out oc
  assume "responses_balanced dir ts n (c, out, oc)"
  then show "responses_balanced dir ts n (pipe_mut dir (\<lambda>p. p\<lparr>dp_leftover := [],
      dp_header_block := None, dp_decoder := hpack_reset (dp_decoder p)\<rparr>) c, out,
      oc\<lparr>fo_desync := True\<rparr>)"
    using bounds.reset by (simp add: responses_balanced_def)
next
  fix dir ts n c out oc hdr c' oc'
  assume "responses_balanced dir ts n (c, out, oc)" "apply_control dir hdr c oc = (c', oc')"
  then show "responses_balanced dir ts n (c', out, oc')"
    using apply_control_bounds [of dir ts n c out oc hdr c' oc']
    by (auto simp: responses_balanced_def apply_control_def split: if_splits)
qed (auto simp: responses_balanced_def bounds.skip bounds.leftover bounds.missing
    dest: bounds.start, auto simp: conn_bounds_def merge_outcome_def empty_outcome_def)

section \<open>Pipes between events\<close>

definition other_pipes :: "(IoDir \<Rightarrow> DirPipe) \<Rightarrow> IoDir \<Rightarrow> u64 \<Rightarrow> nat \<Rightarrow> fstate \<Rightarrow> bool" where
  "other_pipes p0 dir ts n st \<longleftrightarrow> (\<forall>d. d \<noteq> dir \<longrightarrow> pipe_of d (fst st) = p0 d)"

lemma on_header_block_other:
  "d \<noteq> dir \<Longrightarrow> pipe_of d (fst (on_header_block dir sid frag ts st)) = pipe_of d (fst st)"
  by (cases st) (simp add: on_header_block_def Let_def split: prod.split option.split)

interpretation other: frame_invariant "other_pipes p0" for p0
proof
  fix dir ts n st hdr and pl :: bytes
  assume "other_pipes p0 dir ts n st"
  then show "other_pipes p0 dir ts n (apply_headers_or_control dir hdr pl ts st)"
    by (cases st) (auto simp: apply_headers_or_control_def other_pipes_def Let_def
        on_header_block_other split: option.split)
qed (auto simp: other_pipes_def apply_control_def split: if_splits)

lemma take_skip_idle:
  "pipe_idle p \<Longrightarrow> take_skip p src = (p', src') \<Longrightarrow> pipe_idle p' \<and> (src' \<noteq> [] \<longrightarrow> dp_skip p' = 0)"
  by (auto simp: pipe_idle_def take_skip_def buf_ok_def Let_def min_def split: if_splits)

lemma merge_halted: "halted (merge_outcome a b) \<longleftrightarrow> halted a \<or> halted b"
  by (auto simp: halted_def merge_outcome_def)

lemma drain_frames_idle:
  assumes "pipe_idle (pipe_of dir c)" "drain_frames dir ts c out = (c', out', oc')"
  shows "pipe_idle (pipe_of dir c')"
  using drain_frames_pipe [OF _ assms(2)] assms(1) by (auto simp: pipe_idle_def)

lemma drain_frames_appended:
  assumes "dp_skip (pipe_of dir c) = 0" "drain_frames dir ts c out = (c', out', oc')" "\<not> halted oc'"
  shows "pipe_idle (pipe_of dir c')"
  using drain_frames_pipe [OF _ assms(2)] assms(1,3) by (auto simp: pipe_idle_def buf_ok_def)

lemma push_iter_idle:
  assumes "pipe_idle (pipe_of dir (fst st))"
    "push_iter dir ts src st = Break (src', st') \<or> push_iter dir ts src st = Continue (src', st')"
  shows "halted (snd (snd st')) \<or> pipe_idle (pipe_of dir (fst st'))"
proof -
  obtain conn out oc where st: "st = (conn, out, oc)"
    by (cases st)
  obtain pipe s1 where t: "take_skip (pipe_of dir conn) src = (pipe, s1)"
    by (cases "take_skip (pipe_of dir conn) src")
  let ?c = "pipe_mut dir (\<lambda>_. pipe) conn"
  let ?n = "min (length s1) (LEFTOVER_CAP - length (dp_leftover pipe))"
  let ?a = "pipe_mut dir (\<lambda>p. p\<lparr>dp_leftover := dp_leftover p @ take ?n s1\<rparr>) ?c"
  have i: "pipe_idle pipe" "s1 \<noteq> [] \<longrightarrow> dp_skip pipe = 0"
    using take_skip_idle [OF _ t] assms(1) st by auto
  then have room: "LEFTOVER_CAP - length (dp_leftover pipe) \<noteq> 0"
    by (simp add: pipe_idle_def)
  show ?thesis
  proof (cases "s1 = []")
    case True
    obtain c' out' oc' where d: "drain_frames dir ts ?c out = (c', out', oc')"
      by (cases "drain_frames dir ts ?c out")
    have "pipe_idle (pipe_of dir c')"
      using drain_frames_idle [OF _ d] i by simp
    then show ?thesis
      using assms(2) True d by (auto simp: push_iter_def st t)
  next
    case False
    obtain c' out' oc' where d: "drain_frames dir ts ?a out = (c', out', oc')"
      by (cases "drain_frames dir ts ?a out")
    have "halted oc' \<or> pipe_idle (pipe_of dir c')"
      using drain_frames_appended [OF _ d] i False by auto
    then show ?thesis
      using assms(2) False d room
      by (auto simp: push_iter_def st t Let_def merge_halted split: if_splits)
  qed
qed

lemma push_iter_Continue: 
  "push_iter dir ts src st = Continue (src', st') \<Longrightarrow> \<not> halted (snd (snd st)) \<Longrightarrow>
    pipe_idle (pipe_of dir (fst st)) \<Longrightarrow> \<not> halted (snd (snd st'))"
  using take_skip_idle [of "pipe_of dir (fst st)" src]
  by (auto simp: push_iter_def Let_def pipe_idle_def split: prod.splits if_splits)

lemma push_loop_idle:
  "pipe_idle (pipe_of dir (fst st)) \<Longrightarrow> \<not> halted (snd (snd st)) \<Longrightarrow>
    halted (snd (snd (push_loop dir ts src st))) \<or> pipe_idle (pipe_of dir (fst (push_loop dir ts src st)))"
proof (induction dir ts src st rule: push_loop.induct)
  case (1 dir ts src st)
  show ?case
  proof (cases "push_iter dir ts src st")
    case (Break r)
    then show ?thesis
      using push_iter_idle [OF "1.prems"(1), of ts src "fst r" "snd r"]
      by (subst (1 2) push_loop.simps) (auto split: prod.splits)
  next
    case (Continue r)
    obtain b s where r: "r = (b, s)"
      by (cases r)
    have "\<not> halted (snd (snd s))"
      using push_iter_Continue Continue r "1.prems" by blast
    then have "pipe_idle (pipe_of dir (fst s))"
      using push_iter_idle [OF "1.prems"(1)] Continue r by blast
    then show ?thesis
      using "1.IH" [OF Continue r [symmetric]] Continue r \<open>\<not> halted (snd (snd s))\<close>
      by (subst (1 2) push_loop.simps) simp
  qed
qed

section \<open>The registry\<close>

definition conn_ok :: "H2Conn \<Rightarrow> bool" where
  "conn_ok c \<longleftrightarrow> (\<forall>d. pipe_bounds (pipe_of d c) \<and> pipe_idle (pipe_of d c)) \<and> streams_ok c"

definition registry_ok :: "H2Registry \<Rightarrow> bool" where
  "registry_ok r \<longleftrightarrow> hm_wf (hr_conns r) \<and> length (hr_conns r) \<le> MAX_CONNS
    \<and> (\<forall>(k, c) \<in> set (hr_conns r). conn_ok c)"

lemma conn_ok_new: "conn_ok (H2Conn_new now)"
proof -
  have "pipe_of d (H2Conn_new now) = DirPipe_new" for d
    by (cases d) (simp_all add: pipe_of_def H2Conn_new_def)
  then show ?thesis
    by (simp add: conn_ok_def DirPipe_new_def pipe_bounds_def pipe_idle_def buf_ok_def
        LEFTOVER_CAP_def streams_ok_def H2Conn_new_def decoder_ok_default)
qed

lemma conn_ok_at [simp]: "conn_ok (c\<lparr>hc_at := t\<rparr>) = conn_ok c"
  by (simp add: conn_ok_def streams_ok_def)

lemma not_halted_empty: "\<not> halted empty_outcome"
  by (simp add: halted_def empty_outcome_def)

lemma push_bytes_conn_ok:
  assumes "conn_ok c" "push_bytes c dir src ts out = (c', out', oc)" "\<not> halted oc"
  shows "conn_ok c'"
proof -
  let ?st = "(c, out, empty_outcome)"
  have r: "push_loop dir ts src ?st = (c', out', oc)"
    using assms(2) by (simp add: push_bytes_def)
  have "pipe_idle (pipe_of dir c')"
    using push_loop_idle [of dir ?st ts src] assms(1,3) r not_halted_empty by (simp add: conn_ok_def)
  moreover have "pipe_of d c' = pipe_of d c" if "d \<noteq> dir" for d
    using other.push_loop_keeps [of "\<lambda>d. pipe_of d c" dir ts 0 ?st src] r that
    by (simp add: other_pipes_def)
  moreover have "conn_bounds dir ts 0 (c', out', oc)"
    using bounds.push_loop_keeps [of dir ts 0 ?st src] assms(1) r by (simp add: conn_ok_def conn_bounds_def)
  ultimately show ?thesis
    using assms(1) by (simp add: conn_ok_def conn_bounds_def) metis
qed

lemma registry_ok_remove: "registry_ok r \<Longrightarrow> registry_ok (r\<lparr>hr_conns := hm_remove k (hr_conns r)\<rparr>)"
  using hm_remove_set [of k "hr_conns r"] hm.len_rem [of k "hr_conns r"]
  by (auto simp: registry_ok_def intro: order_trans)

lemma registry_ok_insert:
  "registry_ok r \<Longrightarrow> conn_ok c \<Longrightarrow> hm_contains (hr_conns r) k \<or> length (hr_conns r) < MAX_CONNS \<Longrightarrow>
    registry_ok (r\<lparr>hr_conns := hm_insert k c (hr_conns r)\<rparr>)"
  using hm.ins_bounded [of "hr_conns r" MAX_CONNS k c]
    hm_insert_all [of "hr_conns r" "\<lambda>_ c. conn_ok c" k c]
  by (auto simp: registry_ok_def hm_contains_get)

lemma registry_ok_fields [simp]:
  "registry_ok (r\<lparr>hr_unmark := u\<rparr>) = registry_ok r" "registry_ok (r\<lparr>hr_stats := s\<rparr>) = registry_ok r"
  by (simp_all add: registry_ok_def)

lemma registry_ok_retain: "registry_ok r \<Longrightarrow> registry_ok (h2_retain keep r)"
  using hm.len_ret [of keep "hr_conns r"]
  by (auto simp: h2_retain_def Let_def registry_ok_def hm_retain_set intro: order_trans)

lemma registry_ok_open:
  assumes "registry_ok r" "feed_open chunk key now r = (b, r')"
  shows "registry_ok r'"
proof -
  define r1 where "r1 = (if starts_with chunk CLIENT_PREFACE
    then r\<lparr>hr_conns := hm_remove key (hr_conns r)\<rparr> else r)"
  have r1: "registry_ok r1"
    using assms(1) by (simp add: r1_def registry_ok_remove)
  have "feed_open chunk key now r =
    (if hm_contains (hr_conns r1) key then (True, r1)
     else if length (hr_conns r1) \<ge> MAX_CONNS
     then (False, r1\<lparr>hr_stats := (hr_stats r1)\<lparr>hs_dropped_conns := hs_dropped_conns (hr_stats r1) + 1\<rparr>\<rparr>)
     else if \<not> looks_like_h2 chunk then (False, r1)
     else (True, r1\<lparr>hr_conns := hm_insert key (H2Conn_new now) (hr_conns r1)\<rparr>))"
    by (simp add: feed_open_def Let_def r1_def)
  then show ?thesis
    using assms(2) r1 registry_ok_insert [OF r1 conn_ok_new, of key now] by (auto split: if_splits)
qed

lemma registry_ok_conns:
  "hr_conns r' = hr_conns r \<Longrightarrow> registry_ok r' = registry_ok r"
  by (simp add: registry_ok_def)

lemma registry_ok_push:
  assumes "registry_ok r"
  shows "registry_ok (snd (feed_push ev now co dir chunk key r))"
proof (cases "hm_get (hr_conns r) key")
  case (Some c)
  obtain c' out oc where p: "push_bytes (c\<lparr>hc_at := now\<rparr>) dir chunk (io_ts_ns ev) [] = (c', out, oc)"
    by (cases "push_bytes (c\<lparr>hc_at := now\<rparr>) dir chunk (io_ts_ns ev) []")
  have c: "conn_ok (c\<lparr>hc_at := now\<rparr>)"
    using assms Some by (auto simp: registry_ok_def dest!: hm_get_in_set)
  show ?thesis
  proof (cases "halted oc")
    case True
    then show ?thesis
      using registry_ok_remove [OF assms, of key] Some p
      by (simp add: feed_push_def Let_def halted_def registry_ok_def)
  next
    case False
    then have "conn_ok c'"
      using push_bytes_conn_ok [OF c p] by simp
    then show ?thesis
      using registry_ok_insert [OF assms, of c' key] Some p False
      by (simp add: feed_push_def Let_def halted_def hm_contains_get registry_ok_def)
  qed
qed (use assms in \<open>simp add: feed_push_def\<close>)

lemma feed_cases:
  obtains (ignored) "feed ev now co r = ([], r)"
  | (refused) chunk key r' where "feed_open chunk key now r = (False, r')" "feed ev now co r = ([], r')"
  | (pushed) chunk key dir r' where "feed_open chunk key now r = (True, r')"
      "feed ev now co r = feed_push ev now co dir chunk key r'"
proof (cases "IoDir_from_u8 (io_dir ev)")
  case (Some dir)
  let ?n = "min (unat (io_prefix_len ev)) (length (io_prefix ev))"
  let ?open = "feed_open (take ?n (io_prefix ev)) (conn_key (io_tgid ev) (io_fd ev)) now r"
  obtain b r' where o: "?open = (b, r')"
    by (cases ?open)
  show thesis
  proof (cases "is_neg (io_ret ev) \<or> ?n = 0")
    case True
    then show thesis
      using ignored Some by (auto simp: feed_def Let_def)
  next
    case False
    then have "feed ev now co r = (if b then feed_push ev now co dir (take ?n (io_prefix ev))
        (conn_key (io_tgid ev) (io_fd ev)) r' else ([], r'))"
      using Some o by (simp add: feed_def Let_def min_def split: if_splits)
    then show thesis
      using refused pushed o by (cases b) auto
  qed
qed (use ignored in \<open>simp add: feed_def\<close>)

lemma registry_ok_feed: "registry_ok r \<Longrightarrow> registry_ok (snd (feed ev now co r))"
  by (rule feed_cases [of ev now co r]) (auto simp: registry_ok_push dest: registry_ok_open)

text \<open>The registry as a state machine: the operations the event loop and its tick perform.\<close>

inductive h2_reach :: "H2Registry \<Rightarrow> bool" where
  h2_init: "h2_reach H2Registry_default"
| h2_feed: "h2_reach r \<Longrightarrow> h2_reach (snd (feed ev now client_only r))"
| h2_drop: "h2_reach r \<Longrightarrow> h2_reach (h2_drop_conn r tgid fd)"
| h2_stale: "h2_reach r \<Longrightarrow> h2_reach (h2_evict_stale now r)"
| h2_closed: "h2_reach r \<Longrightarrow> h2_reach (h2_evict_closed is_live r)"
| h2_unmark: "h2_reach r \<Longrightarrow> h2_reach (snd (h2_take_unmark r))"

lemma h2_reach_ok: "h2_reach r \<Longrightarrow> registry_ok r"
proof (induction rule: h2_reach.induct)
  case h2_init
  show ?case
    by (simp add: registry_ok_def H2Registry_default_def)
next
  case (h2_drop r tgid fd)
  then show ?case
    using registry_ok_remove [of r "conn_key tgid fd"] by (simp add: h2_drop_conn_def registry_ok_def)
qed (simp_all add: registry_ok_feed registry_ok_retain h2_evict_stale_def h2_evict_closed_def
    h2_take_unmark_def)

lemma conn_ok_pipe:
  "conn_ok c \<Longrightarrow> length (dp_leftover (pipe_of d c)) < LEFTOVER_CAP \<and>
    (dp_skip (pipe_of d c) > 0 \<longrightarrow> dp_leftover (pipe_of d c) = []) \<and>
    decoder_ok (dp_decoder (pipe_of d c)) \<and>
    (\<forall>sid b. dp_header_block (pipe_of d c) = Some (sid, b) \<longrightarrow> length b \<le> LEFTOVER_CAP)"
  unfolding conn_ok_def pipe_bounds_def pipe_idle_def buf_ok_def
  by (elim conjE allE [of _ d]) (auto split: option.splits)

section \<open>Properties\<close>

lemma feed_push_exchanges:
  assumes "x \<in> set (fst (feed_push ev now co dir chunk key r))"
  shows "hx_tgid x = io_tgid ev \<and> hx_fd x = io_fd ev \<and> hx_cgroup_id x = io_cgroup_id ev \<and>
    hx_t_end_ns x = io_ts_ns ev \<and> hx_path x \<noteq> [] \<and> hx_stream_id x \<noteq> 0 \<and>
    hx_protocol x = classify_protocol (hx_path x) \<and> (co \<longrightarrow> hx_req_dir x = Write)"
proof (cases "hm_get (hr_conns r) key")
  case (Some c)
  obtain c' out oc where p: "push_bytes (c\<lparr>hc_at := now\<rparr>) dir chunk (io_ts_ns ev) [] = (c', out, oc)"
    by (cases "push_bytes (c\<lparr>hc_at := now\<rparr>) dir chunk (io_ts_ns ev) []")
  have "exchanges_ok dir (io_ts_ns ev) 0 (c', out, oc)"
    using exchanges.push_bytes_keeps [of dir "io_ts_ns ev" "[]" "c\<lparr>hc_at := now\<rparr>" chunk] p
    by (simp add: exchanges_ok_def)
  then show ?thesis
    using assms Some p
    by (auto simp: feed_push_def Let_def exchanges_ok_def exchange_ok_def list_all_iff split: if_splits)
qed (use assms in \<open>simp add: feed_push_def\<close>)

text \<open>The pairing of a request header block with the response block on the same stream.\<close>

lemma on_header_block_request:
  assumes "sid \<noteq> 0" "decode_block (dp_decoder (pipe_of dir c)) frag = (Some p, dec)"
    "ps_status p = None" "ps_method p = Some m" "ps_path p = Some path" "path \<noteq> []"
    "length (hc_streams c) < MAX_STREAMS \<or> hm_contains (hc_streams c) sid"
  shows "on_header_block dir sid frag ts (c, out, oc) =
    ((pipe_mut dir (\<lambda>p. p\<lparr>dp_decoder := dec\<rparr>) c)\<lparr>hc_streams := hm_insert sid
        \<lparr>pg_method = m, pg_path = path, pg_t_start_ns = ts, pg_req_dir = dir\<rparr> (hc_streams c)\<rparr>,
     out, oc\<lparr>fo_headers_req := fo_headers_req oc + 1\<rparr>)"
  using assms by (auto simp: on_header_block_def Let_def)

lemma on_header_block_refused:
  assumes "sid \<noteq> 0" "decode_block (dp_decoder (pipe_of dir c)) frag = (Some p, dec)"
    "ps_status p = None" "ps_method p = Some m" "ps_path p = Some path" "path \<noteq> []"
    "\<not> (length (hc_streams c) < MAX_STREAMS \<or> hm_contains (hc_streams c) sid)"
  shows "on_header_block dir sid frag ts (c, out, oc) =
    (pipe_mut dir (\<lambda>p. p\<lparr>dp_decoder := dec\<rparr>) c, out, oc\<lparr>fo_dropped_streams := fo_dropped_streams oc + 1\<rparr>)"
  using assms by (simp add: on_header_block_def Let_def)

lemma on_header_block_unpaired:
  assumes "sid \<noteq> 0" "decode_block (dp_decoder (pipe_of dir c)) frag = (Some p, dec)"
    "ps_status p = Some status" "hm_get (hc_streams c) sid = None"
  shows "on_header_block dir sid frag ts (c, out, oc) =
    (pipe_mut dir (\<lambda>p. p\<lparr>dp_decoder := dec\<rparr>) c, out,
     oc\<lparr>fo_headers_resp := fo_headers_resp oc + 1, fo_unpaired_status := fo_unpaired_status oc + 1\<rparr>)"
  using assms by (simp add: on_header_block_def Let_def)

lemma on_header_block_response:
  assumes "sid \<noteq> 0" "decode_block (dp_decoder (pipe_of dir c)) frag = (Some p, dec)"
    "ps_status p = Some status" "hm_get (hc_streams c) sid = Some q" "pg_path q \<noteq> []"
  shows "on_header_block dir sid frag ts (c, out, oc) =
    ((pipe_mut dir (\<lambda>p. p\<lparr>dp_decoder := dec\<rparr>) c)\<lparr>hc_streams := hm_remove sid (hc_streams c)\<rparr>,
     out @ [\<lparr>hx_tgid = 0, hx_fd = 0, hx_stream_id = sid, hx_method = pg_method q, hx_path = pg_path q,
       hx_status = status, hx_t_start_ns = pg_t_start_ns q, hx_t_end_ns = ts,
       hx_protocol = classify_protocol (pg_path q), hx_req_dir = pg_req_dir q, hx_cgroup_id = 0\<rparr>],
     oc\<lparr>fo_headers_resp := fo_headers_resp oc + 1\<rparr>)"
  using assms by (simp add: on_header_block_def Let_def)

text \<open>C11. Take a request header block followed by a response header block on the same stream, one in each direction, that
  decode to a method with a non-empty path and to a status. While fewer than 2048 streams are open on the connection,
  or the stream is open already, they complete exactly one exchange with the request's method and path and the
  response's status; its latency is the response timestamp minus the request timestamp (zero when they are out of
  order), and the stream is closed. At the limit a new stream is refused: no exchange is completed, the request
  counts as a dropped stream and the response as unpaired.\<close>

theorem h2_request_response_pairing:
  assumes "sid \<noteq> 0" "dir \<noteq> dir'"
    and "decode_block (dp_decoder (pipe_of dir c)) req = (Some p, dec)"
    and "ps_status p = None" "ps_method p = Some m" "ps_path p = Some path" "path \<noteq> []"
    and "decode_block (dp_decoder (pipe_of dir' c)) resp = (Some p', dec')"
    and "ps_status p' = Some status"
    and "on_header_block dir' sid resp t2 (on_header_block dir sid req t1 (c, out, oc)) = (c', out', oc')"
  shows "if length (hc_streams c) < 2048 \<or> hm_contains (hc_streams c) sid
    then (\<exists>x. out' = out @ [x] \<and> hx_method x = m \<and> hx_path x = path \<and> hx_status x = status \<and>
        hx_req_dir x = dir \<and> hx_stream_id x = sid \<and> unat (H2Exchange_latency_ns x) = unat t2 - unat t1) \<and>
      hm_get (hc_streams c') sid = None \<and>
      fo_headers_req oc' = fo_headers_req oc + 1 \<and> fo_headers_resp oc' = fo_headers_resp oc + 1
    else out' = out \<and> hc_streams c' = hc_streams c \<and> fo_dropped_streams oc' = fo_dropped_streams oc + 1 \<and>
      fo_unpaired_status oc' = fo_unpaired_status oc + 1"
proof -
  have lim: "MAX_STREAMS = 2048"
    by (simp add: MAX_STREAMS_def)
  show ?thesis
  proof (cases "length (hc_streams c) < MAX_STREAMS \<or> hm_contains (hc_streams c) sid")
    case True
    let ?c = "(pipe_mut dir (\<lambda>p. p\<lparr>dp_decoder := dec\<rparr>) c)\<lparr>hc_streams := hm_insert sid
          \<lparr>pg_method = m, pg_path = path, pg_t_start_ns = t1, pg_req_dir = dir\<rparr> (hc_streams c)\<rparr>"
    have "decode_block (dp_decoder (pipe_of dir' ?c)) resp = (Some p', dec')"
      using assms(2,8) by simp
    then show ?thesis
      using assms(10) on_header_block_request [OF assms(1,3-7) True, of t1 out oc] assms(7) True lim
        on_header_block_response [OF assms(1) _ assms(9), of dir' ?c]
      by (auto simp: H2Exchange_latency_ns_def)
  next
    case False
    let ?c = "pipe_mut dir (\<lambda>p. p\<lparr>dp_decoder := dec\<rparr>) c"
    have "decode_block (dp_decoder (pipe_of dir' ?c)) resp = (Some p', dec')" "hm_get (hc_streams ?c) sid = None"
      using assms(2,8) False by (simp_all add: hm_contains_get)
    then show ?thesis
      using assms(10) on_header_block_refused [OF assms(1,3-7) False, of t1 out oc] False lim
        on_header_block_unpaired [OF assms(1) _ assms(9), of dir' ?c] by auto
  qed
qed

definition demo_req :: bytes where "demo_req = [0x82, 0x84]"

definition demo_resp :: bytes where "demo_resp = [0x88]"

lemma demo_blocks:
  "decode_block Decoder_default demo_req = (Some \<lparr>ps_method = Some ''GET'', ps_path = Some ''/'',
    ps_status = None, ps_authority = None\<rparr>, Decoder_default)"
  "decode_block Decoder_default demo_resp = (Some \<lparr>ps_method = None, ps_path = None,
    ps_status = Some 200, ps_authority = None\<rparr>, Decoder_default)"
  by (simp_all add: demo_req_def demo_resp_def decode_block_def try_decode.simps decode_int_def
      hpack_lookup_def STATIC_def apply_pseudo_def Pseudo_default_def parse_u16_def
      digit_value_def Let_def)

theorem h2_request_response_pairing_witness:
  "\<exists>x. fst (snd (on_header_block Read 1 demo_resp 900 (on_header_block Write 1 demo_req 400
      (H2Conn_new 0, [], empty_outcome)))) = [] @ [x] \<and> hx_path x = ''/'' \<and>
    unat (H2Exchange_latency_ns x) = 500"
proof -
  let ?st = "on_header_block Read 1 demo_resp 900 (on_header_block Write 1 demo_req 400
      (H2Conn_new 0, [], empty_outcome))"
  let ?p = "\<lparr>ps_method = Some ''GET'', ps_path = Some ''/'', ps_status = None,
    ps_authority = None\<rparr>"
  let ?q = "\<lparr>ps_method = None, ps_path = None, ps_status = Some 200, ps_authority = None\<rparr>"
  have p: "dp_decoder (pipe_of d (H2Conn_new 0)) = Decoder_default" for d
    by (cases d) (simp_all add: pipe_of_def H2Conn_new_def DirPipe_new_def)
  obtain c' out' oc' where "?st = (c', out', oc')"
    by (cases ?st)
  then show ?thesis
    using h2_request_response_pairing [of 1 Write Read "H2Conn_new 0" demo_req ?p _ "''GET''" "''/''"
        demo_resp ?q _ 200 900 400 "[]" empty_outcome c' out' oc'] p demo_blocks
    by (auto simp: H2Conn_new_def)
qed

definition stats_balanced :: "H2Stats \<Rightarrow> bool" where
  "stats_balanced s \<longleftrightarrow> hs_exchanges s + hs_unpaired_status s \<le> hs_headers_resp s"

lemma feed_push_balanced:
  assumes "registry_ok r" "stats_balanced (hr_stats r)"
  shows "stats_balanced (hr_stats (snd (feed_push ev now co dir chunk key r)))"
proof (cases "hm_get (hr_conns r) key")
  case (Some c)
  obtain c' out oc where p: "push_bytes (c\<lparr>hc_at := now\<rparr>) dir chunk (io_ts_ns ev) [] = (c', out, oc)"
    by (cases "push_bytes (c\<lparr>hc_at := now\<rparr>) dir chunk (io_ts_ns ev) []")
  have "conn_ok (c\<lparr>hc_at := now\<rparr>)"
    using assms(1) Some by (auto simp: registry_ok_def dest!: hm_get_in_set)
  then have "responses_balanced dir (io_ts_ns ev) 0 (c\<lparr>hc_at := now\<rparr>, [], empty_outcome)"
    by (simp add: responses_balanced_def conn_bounds_def conn_ok_def empty_outcome_def del: conn_ok_at)
  then have "responses_balanced dir (io_ts_ns ev) 0 (c', out, oc)"
    using balance.push_bytes_keeps [of dir "io_ts_ns ev" "[]" "c\<lparr>hc_at := now\<rparr>" chunk] p by simp
  then have "fo_headers_resp oc = length out + fo_unpaired_status oc"
    by (simp add: responses_balanced_def)
  moreover have "length (fst (feed_push ev now co dir chunk key r)) \<le> length out"
    using Some p by (auto simp: feed_push_def Let_def intro: order_trans [OF length_filter_le])
  moreover have
    "hs_exchanges (hr_stats (snd (feed_push ev now co dir chunk key r))) =
      hs_exchanges (hr_stats r) + length (fst (feed_push ev now co dir chunk key r))"
    "hs_unpaired_status (hr_stats (snd (feed_push ev now co dir chunk key r))) =
      hs_unpaired_status (hr_stats r) + fo_unpaired_status oc"
    "hs_headers_resp (hr_stats (snd (feed_push ev now co dir chunk key r))) =
      hs_headers_resp (hr_stats r) + fo_headers_resp oc"
    using Some p by (simp_all add: feed_push_def Let_def feed_stats_def)
  ultimately show ?thesis
    using assms(2) by (simp add: stats_balanced_def)
qed (use assms in \<open>simp add: feed_push_def\<close>)

lemma feed_open_balanced:
  "feed_open chunk key now r = (b, r') \<Longrightarrow> stats_balanced (hr_stats r') = stats_balanced (hr_stats r)"
  by (auto simp: feed_open_def Let_def stats_balanced_def split: if_splits)

lemma feed_balanced:
  assumes "registry_ok r" "stats_balanced (hr_stats r)"
  shows "stats_balanced (hr_stats (snd (feed ev now co r)))"
proof (cases rule: feed_cases [of ev now co r])
  case (pushed chunk key dir r')
  then show ?thesis
    using feed_push_balanced [of r'] registry_ok_open [OF assms(1) pushed(1)]
      feed_open_balanced [OF pushed(1)] assms(2) by simp
qed (use assms in \<open>auto simp: feed_open_balanced\<close>)

text \<open>C12. In every reachable state the tracker has counted at least as many response header
  blocks as exchanges it completed plus responses it could not pair: no exchange is
  ever produced without a response block of its own.\<close>

theorem h2_responses_cover_exchanges:
  "h2_reach r \<Longrightarrow>
    hs_exchanges (hr_stats r) + hs_unpaired_status (hr_stats r) \<le> hs_headers_resp (hr_stats r)"
proof -
  assume "h2_reach r"
  then have "stats_balanced (hr_stats r)"
  proof (induction rule: h2_reach.induct)
    case (h2_feed r ev now client_only)
    then show ?case
      using feed_balanced h2_reach_ok by blast
  qed (auto simp: stats_balanced_def H2Registry_default_def H2Stats_default_def h2_drop_conn_def
      h2_evict_stale_def h2_evict_closed_def h2_retain_def h2_take_unmark_def Let_def)
  then show ?thesis
    by (simp add: stats_balanced_def)
qed

theorem h2_responses_cover_exchanges_witness:
  "h2_reach (h2_evict_stale 9 (snd (feed demo_io 5 False H2Registry_default))) \<and>
    hs_exchanges (hr_stats (h2_evict_stale 9 (snd (feed demo_io 5 False H2Registry_default)))) \<le>
    hs_headers_resp (hr_stats (h2_evict_stale 9 (snd (feed demo_io 5 False H2Registry_default))))"
  using h2_responses_cover_exchanges [OF h2_stale [OF h2_feed [OF h2_init]]]
    h2_stale [OF h2_feed [OF h2_init]] by (meson add_leD1)

interpretation h2_idle: ttl_store hc_at TIMEOUT
  "\<lambda>now m. hr_conns (h2_evict_stale now (H2Registry_default\<lparr>hr_conns := m\<rparr>))"
  by unfold_locales (simp add: h2_evict_stale_def h2_retain_def Let_def)

lemma h2_evict_stale_conns:
  "hr_conns (h2_evict_stale now r) =
    hr_conns (h2_evict_stale now (H2Registry_default\<lparr>hr_conns := hr_conns r\<rparr>))"
  by (simp add: h2_evict_stale_def h2_retain_def Let_def)

text \<open>The idle sweep keeps exactly the connections used within the last 60 seconds,
  leaves them unchanged, and reports exactly the descriptors of the others for unmarking;
  sweeping later after an earlier sweep is the same as sweeping once.\<close>

theorem h2_evict_stale_exact:
  assumes "hm_wf (hr_conns r)" "t \<le> now"
  shows "hm_get (hr_conns (h2_evict_stale now r)) k =
      (case hm_get (hr_conns r) k of None \<Rightarrow> None
       | Some c \<Rightarrow> if now - hc_at c \<le> TIMEOUT then Some c else None) \<and>
    set (hr_unmark (h2_evict_stale now r)) = set (hr_unmark r) \<union>
      {(ck_tgid k, ck_fd k) | k c. hm_get (hr_conns r) k = Some c \<and> TIMEOUT < now - hc_at c} \<and>
    hr_conns (h2_evict_stale now (h2_evict_stale t r)) = hr_conns (h2_evict_stale now r)"
proof (intro conjI)
  show "hm_get (hr_conns (h2_evict_stale now r)) k =
      (case hm_get (hr_conns r) k of None \<Rightarrow> None
       | Some c \<Rightarrow> if now - hc_at c \<le> TIMEOUT then Some c else None)"
    using h2_idle.get_sweep [OF assms(1), of now k] by (simp add: h2_evict_stale_conns [of now r])
  show "set (hr_unmark (h2_evict_stale now r)) = set (hr_unmark r) \<union>
      {(ck_tgid k, ck_fd k) | k c. hm_get (hr_conns r) k = Some c \<and> TIMEOUT < now - hc_at c}"
    using assms(1) by (force simp: h2_evict_stale_def h2_retain_def Let_def hm_in_set_get [symmetric])
  show "hr_conns (h2_evict_stale now (h2_evict_stale t r)) = hr_conns (h2_evict_stale now r)"
    using h2_idle.sweep_absorbs [OF assms(2), of "hr_conns r"]
    by (simp add: h2_evict_stale_conns [of now "h2_evict_stale t r"] h2_evict_stale_conns [of now r]
        h2_evict_stale_conns [of t r])
qed

theorem h2_evict_stale_exact_witness:
  "hr_conns (h2_evict_stale (secs 90) (h2_evict_stale 0 (H2Registry_default\<lparr>hr_conns :=
      [(conn_key 1 3, H2Conn_new 0), (conn_key 1 4, H2Conn_new (secs 40))]\<rparr>))) =
    [(conn_key 1 4, H2Conn_new (secs 40))]"
  using h2_evict_stale_exact [of "H2Registry_default\<lparr>hr_conns :=
      [(conn_key 1 3, H2Conn_new 0), (conn_key 1 4, H2Conn_new (secs 40))]\<rparr>" 0 "secs 90" "conn_key 1 4"]
  by (simp add: hm_wf_def conn_key_def h2_evict_stale_def h2_retain_def hm_retain_def
      H2Conn_new_def TIMEOUT_def secs_def Let_def)

end
