(* ===== verification/H2_Chunking.thy ===== *)
theory H2_Chunking
  imports H2_Invariants
begin

text \<open>
  The byte-stream side of the HTTP/2 tracker. The kernel hands the agent arbitrary pieces of a
  connection's byte stream; the reference semantics \<open>run_frames\<close> applies the frames one by one, as
  if each arrived whole. The development shows that \<open>push_bytes\<close> refines it for every way of
  cutting the stream: the leftover bytes and the skip counter of a pipe are the representation of
  the partially received frame. The bounds of the registry are stated here too, next to a run that opens a stream.
\<close>

section \<open>Reference semantics\<close>

type_synonym h2frame = "FrameHeader \<times> bytes"

definition enc_frame :: "h2frame \<Rightarrow> bytes" where
  "enc_frame f = write_frame_header (fst f) @ snd f"

text \<open>A frame whose length field is its payload's length and below 5 MiB, so that its first byte
  is not the letter P of a connection preface (the default maximum of a frame is 16 KiB).\<close>

definition frame_ok :: "h2frame \<Rightarrow> bool" where
  "frame_ok f \<longleftrightarrow> frame_header_ok (fst f) \<and> length (snd f) = unat (fh_length (fst f))
    \<and> length (snd f) < 5 * 2 ^ 20"

definition frame_apply :: "IoDir \<Rightarrow> u64 \<Rightarrow> h2frame \<Rightarrow> fstate \<Rightarrow> fstate" where
  "frame_apply dir ts f st =
    (case f of (hdr, payload) \<Rightarrow> case st of (c, out, oc) \<Rightarrow>
     if skip_payload hdr then
       (case apply_control dir hdr c
          (if fh_ty hdr = TYPE_HEADERS \<or> fh_ty hdr = TYPE_CONTINUATION
           then oc\<lparr>fo_missing_path := fo_missing_path oc + 1\<rparr> else oc) of
          (c', oc') \<Rightarrow> (c', out, oc'))
     else apply_headers_or_control dir hdr payload ts (c, out, oc))"

definition run_frames :: "IoDir \<Rightarrow> u64 \<Rightarrow> h2frame list \<Rightarrow> fstate \<Rightarrow> fstate" where
  "run_frames dir ts fs st = fold (frame_apply dir ts) fs st"

text \<open>Pushing a chunk, the outcome dropped.\<close>

definition push_chunk :: "IoDir \<Rightarrow> u64 \<Rightarrow> H2Conn \<times> H2Exchange list \<Rightarrow> bytes \<Rightarrow> H2Conn \<times> H2Exchange list" where
  "push_chunk dir ts co chunk =
    (case push_bytes (fst co) dir chunk ts (snd co) of (c, out, oc) \<Rightarrow> (c, out))"

definition setp :: "IoDir \<Rightarrow> bytes \<Rightarrow> nat \<Rightarrow> H2Conn \<Rightarrow> H2Conn" where
  "setp dir l k c = pipe_mut dir (\<lambda>p. p\<lparr>dp_leftover := l, dp_skip := k\<rparr>) c"

definition bare :: "IoDir \<Rightarrow> H2Conn \<Rightarrow> bool" where
  "bare dir c \<longleftrightarrow> dp_leftover (pipe_of dir c) = [] \<and> dp_skip (pipe_of dir c) = 0"

section \<open>The handlers do not look at leftover bytes\<close>

lemma pipe_mut_streams: "(pipe_mut d f c)\<lparr>hc_streams := s\<rparr> = pipe_mut d f (c\<lparr>hc_streams := s\<rparr>)"
  by (cases d) (simp_all add: pipe_mut_def)

lemma pipe_upd_commute:
  "p\<lparr>dp_leftover := l, dp_skip := k, dp_decoder := d\<rparr> = p\<lparr>dp_decoder := d, dp_leftover := l, dp_skip := k\<rparr>"
  "p\<lparr>dp_leftover := l, dp_skip := k, dp_header_block := h\<rparr> =
    p\<lparr>dp_header_block := h, dp_leftover := l, dp_skip := k\<rparr>" for p :: DirPipe
  by (cases p, simp)+

lemma setp_on_header_block:
  "on_header_block dir sid frag ts (setp dir l k c, out, oc) =
    apfst (setp dir l k) (on_header_block dir sid frag ts (c, out, oc))"
  by (simp add: on_header_block_def setp_def Let_def pipe_mut_streams pipe_upd_commute split: prod.split option.split)

lemma setp_apply_control:
  "apply_control dir hdr (setp dir l k c) oc = apfst (setp dir l k) (apply_control dir hdr c oc)"
  by (simp add: apply_control_def setp_def pipe_mut_streams pipe_upd_commute)

lemma setp_mut:
  "pipe_mut dir (\<lambda>p. p\<lparr>dp_header_block := h\<rparr>) (setp dir l k c) =
    setp dir l k (pipe_mut dir (\<lambda>p. p\<lparr>dp_header_block := h\<rparr>) c)"
  by (simp add: setp_def pipe_upd_commute)

lemma setp_apply_headers:
  "apply_headers_or_control dir hdr pl ts (setp dir l k c, out, oc) =
    apfst (setp dir l k) (apply_headers_or_control dir hdr pl ts (c, out, oc))"
proof -
  have "dp_header_block (pipe_of dir (setp dir l k c)) = dp_header_block (pipe_of dir c)"
    by (simp add: setp_def)
  moreover have "(setp dir l k c)\<lparr>hc_streams := s\<rparr> = setp dir l k (c\<lparr>hc_streams := s\<rparr>)" for s
    by (simp add: setp_def pipe_mut_streams)
  moreover have "hc_streams (setp dir l k c) = hc_streams c"
    by (simp add: setp_def)
  ultimately show ?thesis
    by (simp add: apply_headers_or_control_def setp_on_header_block setp_mut Let_def
        split: option.split)
qed

lemma setp_frame_apply:
  "frame_apply dir ts f (setp dir l k c, out, oc) = apfst (setp dir l k) (frame_apply dir ts f (c, out, oc))"
  by (simp add: frame_apply_def setp_apply_control setp_apply_headers split: prod.split)

section \<open>Outcomes add up\<close>

lemma merge_updates:
  "fo_missing_path (merge_outcome a b) = fo_missing_path a + fo_missing_path b"
  "fo_dropped_streams (merge_outcome a b) = fo_dropped_streams a + fo_dropped_streams b"
  "fo_headers_req (merge_outcome a b) = fo_headers_req a + fo_headers_req b"
  "fo_headers_resp (merge_outcome a b) = fo_headers_resp a + fo_headers_resp b"
  "fo_unpaired_status (merge_outcome a b) = fo_unpaired_status a + fo_unpaired_status b"
  "(merge_outcome a b)\<lparr>fo_missing_path := fo_missing_path a + k\<rparr> = merge_outcome a (b\<lparr>fo_missing_path := k\<rparr>)"
  "(merge_outcome a b)\<lparr>fo_dropped_streams := fo_dropped_streams a + k\<rparr> = merge_outcome a (b\<lparr>fo_dropped_streams := k\<rparr>)"
  "(merge_outcome a b)\<lparr>fo_headers_req := fo_headers_req a + k\<rparr> = merge_outcome a (b\<lparr>fo_headers_req := k\<rparr>)"
  "(merge_outcome a b)\<lparr>fo_headers_resp := fo_headers_resp a + k\<rparr> = merge_outcome a (b\<lparr>fo_headers_resp := k\<rparr>)"
  "(merge_outcome a b)\<lparr>fo_unpaired_status := fo_unpaired_status a + k\<rparr> = merge_outcome a (b\<lparr>fo_unpaired_status := k\<rparr>)"
  "(merge_outcome a b)\<lparr>fo_goaway := True\<rparr> = merge_outcome a (b\<lparr>fo_goaway := True\<rparr>)"
  "(merge_outcome a b)\<lparr>fo_desync := True\<rparr> = merge_outcome a (b\<lparr>fo_desync := True\<rparr>)"
  by (simp_all add: merge_outcome_def)

lemma merge_empty [simp]: "merge_outcome oc empty_outcome = oc"
  by (simp add: merge_outcome_def empty_outcome_def)

lemma merge_assoc: "merge_outcome (merge_outcome a b) c = merge_outcome a (merge_outcome b c)"
  by (simp add: merge_outcome_def)

abbreviation on_oc :: "(FrameOutcome \<Rightarrow> FrameOutcome) \<Rightarrow> fstate \<Rightarrow> fstate" where
  "on_oc f \<equiv> apsnd (apsnd f)"

lemma on_header_block_merge:
  "on_header_block dir sid frag ts (c, out, merge_outcome a b) =
    on_oc (merge_outcome a) (on_header_block dir sid frag ts (c, out, b))"
  by (simp add: on_header_block_def Let_def merge_updates add.assoc
      del: add_Suc_right split: prod.split option.split)

lemma frame_apply_merge:
  "frame_apply dir ts f (c, out, merge_outcome a b) = on_oc (merge_outcome a) (frame_apply dir ts f (c, out, b))"
  by (simp add: frame_apply_def apply_control_def apply_headers_or_control_def Let_def
      on_header_block_merge merge_updates add.assoc del: add_Suc_right split: prod.split option.split)

lemma run_frames_merge:
  "run_frames dir ts fs (c, out, merge_outcome a b) = on_oc (merge_outcome a) (run_frames dir ts fs (c, out, b))"
proof (induction fs arbitrary: c out b)
  case (Cons f fs)
  then show ?case
    by (cases "frame_apply dir ts f (c, out, b)") (simp add: run_frames_def frame_apply_merge)
qed (simp add: run_frames_def)

lemma run_frames_start:
  "run_frames dir ts fs (c, out, oc) = on_oc (merge_outcome oc) (run_frames dir ts fs (c, out, empty_outcome))"
  using run_frames_merge [of dir ts fs c out oc empty_outcome] by simp

lemma run_frames_append: "run_frames dir ts (fs @ gs) st = run_frames dir ts gs (run_frames dir ts fs st)"
  by (simp add: run_frames_def)

abbreviation oc_of :: "fstate \<Rightarrow> FrameOutcome" where
  "oc_of st \<equiv> snd (snd st)"

lemma run_frames_halted:
  assumes "\<not> halted (oc_of (run_frames dir ts (fs @ gs) (c, out, empty_outcome)))"
    and "run_frames dir ts fs (c, out, empty_outcome) = (c', out', oc')"
  shows "\<not> halted oc'" "\<not> halted (oc_of (run_frames dir ts gs (c', out', empty_outcome)))"
  using assms run_frames_start [of dir ts gs c' out' oc']
  by (cases "run_frames dir ts gs (c', out', empty_outcome)";
      simp add: run_frames_append merge_halted)+

lemma frame_apply_bare: "bare dir c \<Longrightarrow> bare dir (fst (frame_apply dir ts f (c, out, oc)))"
  by (simp add: bare_def frame_apply_def case_prod_unfold)

lemma run_frames_bare: "bare dir c \<Longrightarrow> run_frames dir ts fs (c, out, oc) = (c', out', oc') \<Longrightarrow> bare dir c'"
proof (induction fs arbitrary: c out oc)
  case (Cons f fs)
  then show ?case
    using frame_apply_bare [of dir c ts f out oc]
    by (cases "frame_apply dir ts f (c, out, oc)") (simp add: run_frames_def)
qed (simp add: run_frames_def)

section \<open>Draining whole and partial frames\<close>

lemma length_enc_frame: "length (enc_frame f) = HEADER_LEN + length (snd f)"
  by (simp add: enc_frame_def)

lemma total_len_frame: "frame_ok f \<Longrightarrow> total_len (fst f) = length (enc_frame f)"
  by (simp add: frame_ok_def total_len_def length_enc_frame)

lemma parse_prefix: "HEADER_LEN \<le> length b \<Longrightarrow> FrameHeader_parse (b @ mr) = FrameHeader_parse b"
  by (auto simp: FrameHeader_parse_def HEADER_LEN_def nth_append simp del: from_le.simps)

lemma parse_frame: "frame_ok f \<Longrightarrow> enc_frame f = b @ mr \<Longrightarrow> HEADER_LEN \<le> length b \<Longrightarrow>
    FrameHeader_parse b = Some (fst f)"
  using parse_write [of "fst f" "snd f"] parse_prefix [of b mr]
  by (simp add: frame_ok_def enc_frame_def)

lemma drain_iter_frame:
  assumes "frame_ok f" "\<not> halted (oc_of (frame_apply dir ts f st))"
  shows "drain_iter dir ts (enc_frame f @ rest) st = Continue (rest, frame_apply dir ts f st)"
proof -
  obtain hdr pl where f: "f = (hdr, pl)"
    by (cases f)
  obtain c out oc where st: "st = (c, out, oc)"
    by (cases st)
  have p: "FrameHeader_parse (enc_frame f @ rest) = Some hdr"
    using parse_frame [OF assms(1), of "enc_frame f" "[]"] parse_prefix [of "enc_frame f" rest] f
    by (simp add: length_enc_frame)
  have t: "total_len hdr = HEADER_LEN + length pl"
    using total_len_frame [OF assms(1)] f by (simp add: length_enc_frame)
  have d: "drop HEADER_LEN (enc_frame f @ rest) = pl @ rest"
    "drop (HEADER_LEN + length pl) (enc_frame f @ rest) = rest"
    by (simp_all add: enc_frame_def f)
  show ?thesis
    using assms(2) p t d
    by (cases "skip_payload hdr")
      (simp_all add: drain_iter_def frame_apply_def st f Let_def length_enc_frame case_prod_unfold)
qed

lemma drain_loop_frames:
  "list_all frame_ok fs \<Longrightarrow> \<not> halted (oc_of (run_frames dir ts fs st)) \<Longrightarrow>
    (\<And>n. \<not> halted (oc_of (run_frames dir ts (take n fs) st))) \<Longrightarrow>
    drain_loop dir ts (concat (map enc_frame fs) @ rest) st = drain_loop dir ts rest (run_frames dir ts fs st)"
proof (induction fs arbitrary: st)
  case (Cons f fs)
  have "\<not> halted (oc_of (frame_apply dir ts f st))"
    using Cons.prems(3) [of 1] by (simp add: run_frames_def)
  then have "drain_loop dir ts (enc_frame f @ concat (map enc_frame fs) @ rest) st =
      drain_loop dir ts (concat (map enc_frame fs) @ rest) (frame_apply dir ts f st)"
    using Cons.prems(1) by (subst drain_loop.simps) (simp add: drain_iter_frame)
  moreover have "\<not> halted (oc_of (run_frames dir ts (take n fs) (frame_apply dir ts f st)))" for n
    using Cons.prems(3) [of "Suc n"] by (simp add: run_frames_def)
  ultimately show ?case
    using Cons.IH [of "frame_apply dir ts f st"] Cons.prems(1,2) by (simp add: run_frames_def)
qed (simp add: run_frames_def)

abbreviation frames_bytes :: "h2frame list \<Rightarrow> bytes" where
  "frames_bytes fs \<equiv> concat (map enc_frame fs)"

lemma bare_setp: "bare dir c \<Longrightarrow> setp dir [] 0 c = c"
  by (simp add: setp_def bare_def pipe_mut_id)

lemma bare_skip: "bare dir c \<Longrightarrow> pipe_mut dir (\<lambda>p. p\<lparr>dp_skip := k\<rparr>) c = setp dir [] k c"
  unfolding setp_def bare_def
  by (subst (1 2) pipe_mut_const) (cases "pipe_of dir c", simp)

lemma dp_leftover_skip: "p\<lparr>dp_skip := k, dp_leftover := b\<rparr> = p\<lparr>dp_leftover := b, dp_skip := k\<rparr>"
  by (cases p) simp

lemma setp_leftover: "pipe_mut dir (\<lambda>p. p\<lparr>dp_leftover := b\<rparr>) (setp dir l k c) = setp dir b k c"
  by (simp add: setp_def dp_leftover_skip)

lemma drain_loop_partial:
  assumes "frame_ok f" "enc_frame f = b @ mr" "mr \<noteq> []" "bare dir c"
    and "\<not> halted (oc_of (frame_apply dir ts f (c, out, oc)))"
  shows "drain_loop dir ts b (c, out, oc) =
    (if HEADER_LEN \<le> length b \<and> skip_payload (fst f)
     then ([], apfst (setp dir [] (length mr)) (frame_apply dir ts f (c, out, oc)))
     else (b, c, out, oc))"
proof (cases "HEADER_LEN \<le> length b")
  case False
  then show ?thesis
    by (subst drain_loop.simps) (simp add: drain_iter_def)
next
  case True
  obtain hdr pl where f: "f = (hdr, pl)"
    by (cases f)
  have p: "FrameHeader_parse b = Some hdr"
    using parse_frame [OF assms(1,2) True] f by simp
  have t: "total_len hdr = length b + length mr"
    using total_len_frame [OF assms(1)] assms(2) f by simp
  then have lt: "\<not> total_len hdr \<le> length b"
    using assms(3) by simp
  show ?thesis
  proof (cases "skip_payload hdr")
    case skip: True
    have "drain_iter dir ts b (c, out, oc) =
        Continue ([], apfst (setp dir [] (length mr)) (frame_apply dir ts f (c, out, oc)))"
      using True skip p t lt assms(4,5)
      by (simp add: drain_iter_def frame_apply_def f Let_def bare_skip setp_apply_control
          case_prod_unfold)
    moreover have "drain_loop dir ts [] st = ([], st)" for st
      by (subst drain_loop.simps) (cases st, simp add: drain_iter_def HEADER_LEN_def)
    ultimately show ?thesis
      using True skip f by (subst drain_loop.simps) (simp add: case_prod_unfold)
  next
    case noskip: False
    then show ?thesis
      using True p lt f by (subst drain_loop.simps) (simp add: drain_iter_def)
  qed
qed

lemma frames_prefix_split:
  "x @ S = frames_bytes fs \<Longrightarrow> \<exists>fs1 fs2 b. fs = fs1 @ fs2 \<and> x = frames_bytes fs1 @ b \<and>
    b @ S = frames_bytes fs2 \<and> (b = [] \<or> (\<exists>f fs3 mr. fs2 = f # fs3 \<and> enc_frame f = b @ mr \<and> mr \<noteq> []))"
proof (induction fs arbitrary: x)
  case (Cons f fs)
  consider us where "x = enc_frame f @ us" "us @ S = frames_bytes fs"
    | us where "x @ us = enc_frame f" "S = us @ frames_bytes fs"
    using Cons.prems append_eq_append_conv2 [of x S "enc_frame f" "frames_bytes fs"]
    by (simp only: list.map concat.simps) blast
  then consider x' where "x = enc_frame f @ x'" "x' @ S = frames_bytes fs"
    | mr where "enc_frame f = x @ mr" "mr \<noteq> []"
    by cases (metis append_Nil2 append_Nil)+
  then show ?case
  proof cases
    case (1 x')
    note x = 1
    obtain fs1 fs2 b where "fs = fs1 @ fs2" "x' = frames_bytes fs1 @ b" "b @ S = frames_bytes fs2"
      "b = [] \<or> (\<exists>f fs3 mr. fs2 = f # fs3 \<and> enc_frame f = b @ mr \<and> mr \<noteq> [])"
      using Cons.IH [OF x(2)] by blast
    then show ?thesis
      using x(1) by (intro exI [of _ "f # fs1"] exI [of _ fs2] exI [of _ b]) simp
  next
    case (2 mr)
    then show ?thesis
      using Cons.prems by (intro exI [of _ "[]"] exI [of _ "f # fs"] exI [of _ x]) auto
  qed
qed simp

section \<open>No preface inside the stream\<close>

lemma hd_enc_frame: "frame_ok f \<Longrightarrow> hd (enc_frame f) \<noteq> 0x50"
proof -
  assume f: "frame_ok f"
  let ?n = "fh_length (fst f)"
  have h: "hd (enc_frame f) = ucast (drop_bit 16 ?n)"
    by (simp add: enc_frame_def write_frame_header_def numeral_3_eq_3 drop_bit_drop_bit)
  have "unat (drop_bit 16 ?n) = unat ?n div 2 ^ 16"
    by (simp only: unsigned_drop_bit_eq)
      (simp add: drop_bit_eq_div take_bit_nat_eq_self less_le_trans [OF unsigned_less])
  moreover have "unat ?n div 2 ^ 16 < 0x50"
    using f by (simp add: frame_ok_def div_less_iff_less_mult)
  ultimately have "unat (ucast (drop_bit 16 ?n) :: u8) < 0x50"
    by (simp add: unsigned_ucast_eq take_bit_nat_eq_self)
  then show ?thesis
    using h by auto
qed

lemma preface_hd: "\<exists>r. bstr ''PRI'' = 0x50 # r" "\<exists>r. CLIENT_PREFACE = 0x50 # r"
  by (simp_all add: CLIENT_PREFACE_def bstr_def)

lemma frames_no_preface:
  assumes "list_all frame_ok fs" "l @ S = frames_bytes fs"
  shows "\<not> waiting_preface l" "strip_preface l = l"
proof -
  have "\<not> starts_with l (0x50 # r)" for r
  proof
    assume a: "starts_with l (0x50 # r)"
    then have l: "l \<noteq> []" "hd l = 0x50"
      using starts_with_hd [of l "0x50" r] by auto
    then obtain f fs' where fs: "fs = f # fs'"
      using assms(2) by (cases fs) auto
    have "enc_frame f \<noteq> []"
      by (metis length_enc_frame add_is_0 list.size(3) HEADER_LEN_def zero_neq_numeral)
    then have "hd (enc_frame f) = hd l"
      using arg_cong [OF assms(2), of hd] l(1) fs by simp
    then show False
      using hd_enc_frame assms(1) fs l(2) by simp
  qed
  then have "\<not> starts_with l (bstr ''PRI'')" "\<not> starts_with l CLIENT_PREFACE"
    using preface_hd by (metis (no_types))+
  then show "\<not> waiting_preface l" "strip_preface l = l"
    by (simp_all only: waiting_preface_def strip_preface_def simp_thms if_False)
qed

section \<open>The representation of a partially received stream\<close>

text \<open>The pipe holds \<open>l\<close> leftover bytes and skips \<open>k\<close> more; the bytes \<open>S\<close> are still to come and
  the frames \<open>fs\<close> are still to be applied.\<close>

definition pipe_rep :: "bytes \<Rightarrow> nat \<Rightarrow> h2frame list \<Rightarrow> bytes \<Rightarrow> bool" where
  "pipe_rep l k fs S \<longleftrightarrow>
    (k = 0 \<and> l @ S = frames_bytes fs \<and>
       (l = [] \<or> (\<exists>f fs' mr. fs = f # fs' \<and> enc_frame f = l @ mr \<and> mr \<noteq> [] \<and>
         (HEADER_LEN \<le> length l \<longrightarrow> \<not> skip_payload (fst f))))) \<or>
    (0 < k \<and> l = [] \<and> k \<le> length S \<and> drop k S = frames_bytes fs)"

lemma pipe_rep_room: "list_all frame_ok fs \<Longrightarrow> pipe_rep l k fs S \<Longrightarrow> length l < LEFTOVER_CAP"
proof -
  assume a: "list_all frame_ok fs" "pipe_rep l k fs S"
  have "length l < LEFTOVER_CAP" if "fs = f # fs'" "enc_frame f = l @ mr" "mr \<noteq> []"
    "HEADER_LEN \<le> length l \<longrightarrow> \<not> skip_payload (fst f)" for f fs' mr
  proof (cases "HEADER_LEN \<le> length l")
    case True
    then have "total_len (fst f) \<le> LEFTOVER_CAP"
      using that(4) by (simp add: skip_payload_def split: if_splits)
    moreover have "total_len (fst f) = length l + length mr"
      using total_len_frame [of f] a(1) that(1,2) by simp
    moreover have "0 < length mr"
      using that(3) by simp
    ultimately show ?thesis
      by linarith
  qed (simp add: HEADER_LEN_def LEFTOVER_CAP_def)
  then show ?thesis
    using a(2) unfolding pipe_rep_def by (force simp: LEFTOVER_CAP_def)
qed

lemma drain_loop_prefix:
  assumes "list_all frame_ok fs" "l @ S = frames_bytes fs" "bare dir c"
    and ok: "\<not> halted (oc_of (run_frames dir ts fs (c, out, empty_outcome)))"
  shows "\<exists>fs1 fs2 l' k' c' out' oc'. fs = fs1 @ fs2 \<and>
    run_frames dir ts fs1 (c, out, empty_outcome) = (c', out', oc') \<and>
    drain_loop dir ts l (c, out, empty_outcome) = (l', (if k' = 0 then c' else setp dir [] k' c'), out', oc') \<and>
    (k' = 0 \<or> l' = []) \<and> pipe_rep l' k' fs2 S"
proof -
  obtain fs1 fs2 b where s: "fs = fs1 @ fs2" "l = frames_bytes fs1 @ b" "b @ S = frames_bytes fs2"
    and b: "b = [] \<or> (\<exists>f fs3 mr. fs2 = f # fs3 \<and> enc_frame f = b @ mr \<and> mr \<noteq> [])"
    using frames_prefix_split [OF assms(2)] by blast
  obtain c1 out1 oc1 where r: "run_frames dir ts fs1 (c, out, empty_outcome) = (c1, out1, oc1)"
    by (cases "run_frames dir ts fs1 (c, out, empty_outcome)")
  have nh: "\<not> halted (oc_of (run_frames dir ts (take n fs) (c, out, empty_outcome)))" for n
    using run_frames_halted(1) [of dir ts "take n fs" "drop n fs" c out] ok by (metis append_take_drop_id prod.collapse)
  have "\<not> halted (oc_of (run_frames dir ts (take n fs1) (c, out, empty_outcome)))" for n
    using nh [of "min n (length fs1)"] s(1) by (simp add: min_def split: if_splits)
  then have d: "drain_loop dir ts l (c, out, empty_outcome) = drain_loop dir ts b (c1, out1, oc1)"
    using drain_loop_frames [of fs1 dir ts "(c, out, empty_outcome)" b] nh [of "length fs1"] assms(1) s r
    by simp
  have bare1: "bare dir c1"
    using run_frames_bare [OF assms(3) r] .
  show ?thesis
  proof (cases "b = []")
    case True
    then have "drain_loop dir ts b (c1, out1, oc1) = ([], c1, out1, oc1)"
      by (subst drain_loop.simps) (simp add: drain_iter_def HEADER_LEN_def)
    then show ?thesis
      using s r d True by - (rule exI [of _ fs1], rule exI [of _ fs2], rule exI [of _ "[]"],
          rule exI [of _ 0], simp add: pipe_rep_def)
  next
    case False
    then obtain f fs3 mr where f: "fs2 = f # fs3" "enc_frame f = b @ mr" "mr \<noteq> []"
      using b by blast
    obtain c2 out2 oc2 where r2: "frame_apply dir ts f (c1, out1, oc1) = (c2, out2, oc2)"
      by (cases "frame_apply dir ts f (c1, out1, oc1)")
    have r3: "run_frames dir ts (fs1 @ [f]) (c, out, empty_outcome) = (c2, out2, oc2)"
      using r r2 by (simp add: run_frames_def)
    have "\<not> halted oc2"
      using nh [of "Suc (length fs1)"] s(1) f(1) r3 by simp
    then have p: "drain_loop dir ts b (c1, out1, oc1) =
        (if HEADER_LEN \<le> length b \<and> skip_payload (fst f)
         then ([], setp dir [] (length mr) c2, out2, oc2) else (b, c1, out1, oc1))"
      using drain_loop_partial [of f b mr dir c1 ts out1 oc1] f bare1 assms(1) s(1) r2 by simp
    show ?thesis
    proof (cases "HEADER_LEN \<le> length b \<and> skip_payload (fst f)")
      case True
      have "pipe_rep [] (length mr) fs3 S"
        using s(3) f by (simp add: pipe_rep_def)
      then show ?thesis
        using True p d s(1) f r3
        by - (rule exI [of _ "fs1 @ [f]"], rule exI [of _ fs3], rule exI [of _ "[]"],
          rule exI [of _ "length mr"], simp)
    next
      case no: False
      have "pipe_rep b 0 fs2 S"
        using s(3) f no by (auto simp: pipe_rep_def)
      moreover have "drain_loop dir ts l (c, out, empty_outcome) = (b, c1, out1, oc1)"
        unfolding d p by (rule if_not_P [OF no])
      ultimately show ?thesis
        using s(1) r
        by - (rule exI [of _ fs1], rule exI [of _ fs2], rule exI [of _ b], rule exI [of _ 0], simp)
    qed
  qed
qed

lemma drain_frames_prefix:
  assumes "list_all frame_ok fs" "l @ S = frames_bytes fs" "bare dir c"
    and ok: "\<not> halted (oc_of (run_frames dir ts fs (c, out, empty_outcome)))"
  shows "\<exists>fs1 fs2 l' k' c' out' oc'. fs = fs1 @ fs2 \<and>
    run_frames dir ts fs1 (c, out, empty_outcome) = (c', out', oc') \<and>
    drain_frames dir ts (setp dir l 0 c) out = (setp dir l' k' c', out', oc') \<and> pipe_rep l' k' fs2 S"
proof -
  obtain fs1 fs2 l' k' c' out' oc' where d: "fs = fs1 @ fs2"
    "run_frames dir ts fs1 (c, out, empty_outcome) = (c', out', oc')"
    "drain_loop dir ts l (c, out, empty_outcome) = (l', (if k' = 0 then c' else setp dir [] k' c'), out', oc')"
    "pipe_rep l' k' fs2 S"
    using drain_loop_prefix [OF assms] by blast
  have "bare dir c'"
    using run_frames_bare [OF assms(3) d(2)] .
  then have "pipe_mut dir (\<lambda>p. p\<lparr>dp_leftover := l'\<rparr>) (if k' = 0 then c' else setp dir [] k' c') = setp dir l' k' c'"
    using bare_setp [of dir c'] setp_leftover [of dir l' "[]" k' c'] by (cases "k' = 0") simp_all
  moreover have "dp_leftover (pipe_of dir (setp dir l 0 c)) = l"
    by (simp add: setp_def)
  ultimately have "drain_frames dir ts (setp dir l 0 c) out = (setp dir l' k' c', out', oc')"
    using d(3) frames_no_preface [OF assms(1,2)] bare_setp [OF assms(3)]
    by (simp add: drain_frames_def setp_leftover)
  then show ?thesis
    using d by blast
qed

section \<open>Pushing chunks\<close>

lemma setp_pipe:
  "dp_leftover (pipe_of dir (setp dir l k c)) = l" "dp_skip (pipe_of dir (setp dir l k c)) = k"
  by (simp_all add: setp_def)

lemma setp_skip: "pipe_mut dir (\<lambda>_. (pipe_of dir (setp dir l k c))\<lparr>dp_skip := k'\<rparr>) (setp dir l k c) = setp dir l k' c"
  unfolding setp_def by (subst (3) pipe_mut_const) simp

lemma drain_frames_empty: "drain_frames dir ts (setp dir [] k c) out = (setp dir [] k c, out, empty_outcome)"
proof -
  have "drain_loop dir ts [] st = ([], st)" for st
    by (subst drain_loop.simps) (cases st, simp add: drain_iter_def HEADER_LEN_def)
  then show ?thesis
    using frames_no_preface [of "[]" "[]" "[]"]
    by (simp add: drain_frames_def setp_pipe setp_leftover)
qed

lemma push_loop_skip_all:
  assumes "length src \<le> k"
  shows "push_loop dir ts src (setp dir [] k c, out, oc) = (setp dir [] (k - length src) c, out, oc)"
proof -
  have "take_skip (pipe_of dir (setp dir [] k c)) src =
      ((pipe_of dir (setp dir [] k c))\<lparr>dp_skip := k - length src\<rparr>, [])"
    using assms by (cases "src = [] \<or> k = 0") (auto simp: take_skip_def setp_pipe Let_def min_def setp_def)
  then show ?thesis
    by (subst push_loop.simps) (simp add: push_iter_def setp_skip drain_frames_empty)
qed

lemma push_loop_skip_some:
  assumes "k < length src"
  shows "push_loop dir ts src (setp dir [] k c, out, oc) = push_loop dir ts (drop k src) (setp dir [] 0 c, out, oc)"
proof -
  have "take_skip (pipe_of dir (setp dir [] k c)) src =
      ((pipe_of dir (setp dir [] k c))\<lparr>dp_skip := 0\<rparr>, drop k src)"
    using assms by (cases "k = 0") (auto simp: take_skip_def setp_pipe Let_def min_def setp_def)
  moreover have "take_skip (pipe_of dir (setp dir [] 0 c)) s = ((pipe_of dir (setp dir [] 0 c))\<lparr>dp_skip := 0\<rparr>, s)" for s
    by (simp add: take_skip_def setp_pipe setp_def)
  ultimately have "push_iter dir ts src (setp dir [] k c, out, oc) = push_iter dir ts (drop k src) (setp dir [] 0 c, out, oc)"
    by (simp only: push_iter_def prod.case setp_skip)
  then show ?thesis
    by (subst (1 2) push_loop.simps) simp
qed

text \<open>The frames applied by pushing \<open>src\<close> onto a pipe that represents \<open>fs\<close>, with \<open>S\<close> still to come.\<close>

definition advances :: "IoDir \<Rightarrow> u64 \<Rightarrow> H2Conn \<times> H2Exchange list \<Rightarrow> h2frame list \<Rightarrow> bytes \<Rightarrow> FrameOutcome \<Rightarrow> fstate \<Rightarrow> bool" where
  "advances dir ts co fs S oc st' \<longleftrightarrow> (\<exists>fs1 fs2 l' k' c' out' oc'. fs = fs1 @ fs2 \<and>
    run_frames dir ts fs1 (fst co, snd co, empty_outcome) = (c', out', oc') \<and>
    st' = (setp dir l' k' c', out', merge_outcome oc oc') \<and> pipe_rep l' k' fs2 S)"

lemma advances_refl: "pipe_rep l k fs S \<Longrightarrow> advances dir ts (c, out) fs S oc (setp dir l k c, out, oc)"
  unfolding advances_def
  by (rule exI [of _ "[]"], rule exI [of _ fs], rule exI [of _ l], rule exI [of _ k]) (simp add: run_frames_def)

lemma advances_trans:
  assumes "run_frames dir ts fs1 (c, out, empty_outcome) = (c1, out1, oc1)"
    and "advances dir ts (c1, out1) fs2 S (merge_outcome oc oc1) st'"
  shows "advances dir ts (c, out) (fs1 @ fs2) S oc st'"
proof -
  obtain gs1 gs2 l' k' c' out' oc' where g: "fs2 = gs1 @ gs2"
    "run_frames dir ts gs1 (c1, out1, empty_outcome) = (c', out', oc')"
    "st' = (setp dir l' k' c', out', merge_outcome (merge_outcome oc oc1) oc')" "pipe_rep l' k' gs2 S"
    using assms(2) by (auto simp: advances_def)
  have "run_frames dir ts (fs1 @ gs1) (c, out, empty_outcome) = (c', out', merge_outcome oc1 oc')"
    using assms(1) g(2) run_frames_start [of dir ts gs1 c1 out1 oc1] by (simp add: run_frames_append)
  then show ?thesis
    unfolding advances_def using g
    by - (rule exI [of _ "fs1 @ gs1"], rule exI [of _ gs2], rule exI [of _ l'], rule exI [of _ k'],
        simp add: merge_assoc)
qed

lemma push_iter_fill:
  assumes "length l < LEFTOVER_CAP" "src \<noteq> []"
    and "n = min (length src) (LEFTOVER_CAP - length l)"
    and "drain_frames dir ts (setp dir (l @ take n src) 0 c) out = (c1, out1, oc1)"
  shows "push_iter dir ts src (setp dir l 0 c, out, oc) =
    (if halted (merge_outcome oc oc1) then Break else Continue) (drop n src, c1, out1, merge_outcome oc oc1)"
proof -
  have "take_skip (pipe_of dir (setp dir l 0 c)) src = (pipe_of dir (setp dir l 0 c), src)"
    by (simp add: take_skip_def setp_pipe)
  moreover have "pipe_mut dir (\<lambda>_. pipe_of dir (setp dir l 0 c)) (setp dir l 0 c) = setp dir l 0 c"
    by (simp add: pipe_mut_id)
  moreover have "pipe_mut dir (\<lambda>p. p\<lparr>dp_leftover := dp_leftover p @ x\<rparr>) (setp dir l 0 c) = setp dir (l @ x) 0 c" for x
    by (simp add: setp_def dp_leftover_skip)
  ultimately show ?thesis
    using assms by (simp add: push_iter_def setp_pipe Let_def)
qed

lemma push_fill_advances:
  assumes fs: "list_all frame_ok fs" "bare dir c" "\<not> halted oc"
      "\<not> halted (oc_of (run_frames dir ts fs (c, out, empty_outcome)))"
    and s: "s \<noteq> []" "length l < LEFTOVER_CAP" "l @ s @ S = frames_bytes fs"
    and rec: "\<And>s' fs' c' l' k' out' oc'. length s' < length s \<Longrightarrow> list_all frame_ok fs' \<Longrightarrow> bare dir c' \<Longrightarrow>
      pipe_rep l' k' fs' (s' @ S) \<Longrightarrow> \<not> halted oc' \<Longrightarrow>
      \<not> halted (oc_of (run_frames dir ts fs' (c', out', empty_outcome))) \<Longrightarrow>
      advances dir ts (c', out') fs' S oc' (push_loop dir ts s' (setp dir l' k' c', out', oc'))"
  shows "advances dir ts (c, out) fs S oc (push_loop dir ts s (setp dir l 0 c, out, oc))"
proof -
  define n where "n = min (length s) (LEFTOVER_CAP - length l)"
  have n: "0 < n" "n \<le> length s"
    using s by (auto simp: n_def)
  have "l @ (take n s @ drop n s) @ S = frames_bytes fs"
    using s(3) by (simp only: append_take_drop_id)
  then have "(l @ take n s) @ drop n s @ S = frames_bytes fs"
    by (simp only: append_assoc)
  then obtain fs1 fs2 l1 k1 c1 out1 oc1 where d: "fs = fs1 @ fs2"
    "run_frames dir ts fs1 (c, out, empty_outcome) = (c1, out1, oc1)"
    "drain_frames dir ts (setp dir (l @ take n s) 0 c) out = (setp dir l1 k1 c1, out1, oc1)"
    "pipe_rep l1 k1 fs2 (drop n s @ S)"
    using drain_frames_prefix [OF fs(1) _ fs(2,4), of "l @ take n s" "drop n s @ S"] by blast
  have h: "\<not> halted oc1" "\<not> halted (oc_of (run_frames dir ts fs2 (c1, out1, empty_outcome)))"
    using run_frames_halted [OF _ d(2), of fs2] fs(4) d(1) by auto
  then have h2: "\<not> halted (merge_outcome oc oc1)"
    using fs(3) by (simp add: merge_halted)
  then have "push_loop dir ts s (setp dir l 0 c, out, oc) =
      push_loop dir ts (drop n s) (setp dir l1 k1 c1, out1, merge_outcome oc oc1)"
    using push_iter_fill [OF s(2,1) n_def d(3), of oc] by (subst push_loop.simps) simp
  moreover have "advances dir ts (c1, out1) fs2 S (merge_outcome oc oc1)
      (push_loop dir ts (drop n s) (setp dir l1 k1 c1, out1, merge_outcome oc oc1))"
    using rec [of "drop n s" fs2 c1 l1 k1] n d(1,4) h h2 fs(1) run_frames_bare [OF fs(2) d(2)] by simp
  ultimately show ?thesis
    using advances_trans [OF d(2)] d(1) by simp
qed

lemma push_loop_advances:
  assumes "list_all frame_ok fs" "bare dir c" "pipe_rep l k fs (src @ S)" "\<not> halted oc"
    and "\<not> halted (oc_of (run_frames dir ts fs (c, out, empty_outcome)))"
  shows "advances dir ts (c, out) fs S oc (push_loop dir ts src (setp dir l k c, out, oc))"
  using assms
proof (induction "length src" arbitrary: src l k c out oc fs rule: less_induct)
  case less
  have fill: "advances dir ts (c, out) fs S oc (push_loop dir ts s (setp dir l0 0 c, out, oc))"
    if "length s \<le> length src" "s \<noteq> []" "length l0 < LEFTOVER_CAP" "l0 @ s @ S = frames_bytes fs" for s l0
    by (rule push_fill_advances [OF less.prems(1,2,4,5) that(2-4)])
      (rule less.hyps [OF less_le_trans [OF _ that(1)]]; assumption)
  show ?case
  proof (cases "k = 0")
    case False
    then have r: "l = []" "k \<le> length src + length S" "drop k (src @ S) = frames_bytes fs"
      using less.prems(3) by (auto simp: pipe_rep_def)
    show ?thesis
    proof (cases "length src \<le> k")
      case True
      then have "pipe_rep [] (k - length src) fs S"
        using r by (auto simp: pipe_rep_def)
      then show ?thesis
        using push_loop_skip_all [OF True] advances_refl r(1) by simp
    next
      case False
      then show ?thesis
        using push_loop_skip_some [of k src] fill [of "drop k src" "[]"] r by (simp add: LEFTOVER_CAP_def)
    qed
  next
    case True
    then have r: "l @ src @ S = frames_bytes fs"
      using less.prems(3) by (simp add: pipe_rep_def)
    note room = pipe_rep_room [OF less.prems(1,3)]
    show ?thesis
    proof (cases "src = []")
      case src: True
      obtain fs1 fs2 l1 k1 c1 out1 oc1 where d: "fs = fs1 @ fs2"
        "run_frames dir ts fs1 (c, out, empty_outcome) = (c1, out1, oc1)"
        "drain_frames dir ts (setp dir l 0 c) out = (setp dir l1 k1 c1, out1, oc1)" "pipe_rep l1 k1 fs2 S"
        using drain_frames_prefix [OF less.prems(1) _ less.prems(2,5), of l S] r src by auto
      have "push_loop dir ts src (setp dir l k c, out, oc) = (setp dir l1 k1 c1, out1, merge_outcome oc oc1)"
        using src True d(3)
        by (subst push_loop.simps) (simp add: push_iter_def take_skip_def pipe_mut_id)
      then show ?thesis
        using advances_trans [OF d(2) advances_refl [OF d(4)]] d(1) by simp
    next
      case False
      then show ?thesis
        using fill [of src l] r room True by simp
    qed
  qed
qed

lemma pipe_rep_done: "pipe_rep l k fs [] \<Longrightarrow> l = [] \<and> k = 0 \<and> fs = []"
proof (cases fs)
  case (Cons f fs')
  assume r: "pipe_rep l k fs []"
  then have "length l = length (enc_frame f) + length (frames_bytes fs')" "l \<noteq> []"
    using Cons by (auto simp: pipe_rep_def enc_frame_def write_frame_header_def)
  moreover obtain mr where "enc_frame f = l @ mr" "mr \<noteq> []"
    using r Cons calculation(2) by (auto simp: pipe_rep_def)
  ultimately show ?thesis
    by simp
qed (auto simp: pipe_rep_def)

lemma push_chunks_advance:
  assumes "list_all frame_ok fs" "bare dir c" "pipe_rep l k fs (concat chunks)"
    and "\<not> halted (oc_of (run_frames dir ts fs (c, out, empty_outcome)))"
  shows "foldl (push_chunk dir ts) (setp dir l k c, out) chunks =
    (case run_frames dir ts fs (c, out, empty_outcome) of (c', out', oc) \<Rightarrow> (c', out'))"
  using assms
proof (induction chunks arbitrary: fs c l k out)
  case Nil
  then have "l = []" "k = 0" "fs = []"
    using pipe_rep_done [of l k fs] by simp_all
  then show ?case
    using bare_setp [OF Nil.prems(2)] by (simp add: run_frames_def)
next
  case (Cons ch chunks)
  have "\<not> halted empty_outcome"
    by (simp add: halted_def empty_outcome_def)
  then have "advances dir ts (c, out) fs (concat chunks) empty_outcome
      (push_bytes (setp dir l k c) dir ch ts out)"
    using push_loop_advances [of fs dir c l k ch "concat chunks" empty_outcome ts out] Cons.prems
    by (simp add: push_bytes_def)
  then obtain fs1 fs2 l' k' c' out' oc' where a: "fs = fs1 @ fs2"
    "run_frames dir ts fs1 (c, out, empty_outcome) = (c', out', oc')"
    "push_bytes (setp dir l k c) dir ch ts out = (setp dir l' k' c', out', merge_outcome empty_outcome oc')"
    "pipe_rep l' k' fs2 (concat chunks)"
    by (auto simp: advances_def)
  have "foldl (push_chunk dir ts) (setp dir l' k' c', out') chunks =
      (case run_frames dir ts fs2 (c', out', empty_outcome) of (c', out', oc) \<Rightarrow> (c', out'))"
    using Cons.IH [of fs2 c' l' k' out'] Cons.prems(1,4) a run_frames_bare [OF Cons.prems(2) a(2)]
      run_frames_halted(2) [OF _ a(2), of fs2] by simp
  moreover have "push_chunk dir ts (setp dir l k c, out) ch = (setp dir l' k' c', out')"
    using a(3) by (simp add: push_chunk_def)
  ultimately show ?case
    using a(1,2) run_frames_start [of dir ts fs2 c' out' oc']
    by (simp add: run_frames_append case_prod_unfold)
qed

text \<open>All frames in one chunk: the outcome is the one of the frames, too.\<close>

lemma push_whole:
  assumes "list_all frame_ok fs" "bare dir c" "run_frames dir ts fs (c, out, empty_outcome) = (c', out', oc')" "\<not> halted oc'"
  shows "push_bytes c dir (frames_bytes fs) ts out = (c', out', merge_outcome empty_outcome oc')"
proof -
  have "\<not> halted empty_outcome" "pipe_rep [] 0 fs (frames_bytes fs @ [])"
    by (simp_all add: halted_def empty_outcome_def pipe_rep_def)
  then have "advances dir ts (c, out) fs [] empty_outcome (push_bytes (setp dir [] 0 c) dir (frames_bytes fs) ts out)"
    using push_loop_advances [of fs dir c "[]" 0 "frames_bytes fs" "[]" empty_outcome ts out] assms
    by (simp add: push_bytes_def)
  then obtain fs1 fs2 l k c1 out1 oc1 where a: "fs = fs1 @ fs2" "run_frames dir ts fs1 (c, out, empty_outcome) = (c1, out1, oc1)"
    "push_bytes (setp dir [] 0 c) dir (frames_bytes fs) ts out = (setp dir l k c1, out1, merge_outcome empty_outcome oc1)"
    "pipe_rep l k fs2 []"
    by (auto simp: advances_def)
  then have "fs2 = []" "l = []" "k = 0"
    using pipe_rep_done by blast+
  then show ?thesis
    using a assms(2,3) bare_setp [OF assms(2)] bare_setp [of dir c1] run_frames_bare [OF assms(2) a(2)] by simp
qed

text \<open>C1. \<open>push_bytes\<close> does not depend on how the kernel cut the byte stream. Take one direction of a connection with
  no partial frame pending, and frames whose payloads are as long as their length fields say and shorter than 5 MiB, and
  which, applied in order, neither contain a GOAWAY nor lose the synchronisation. Whatever chunks their encoding arrives
  in, all with one timestamp, the connection state, the header decoders, the open streams and
  the exchanges produced are those of applying the frames one at a time, and nothing is left over. (After a GOAWAY the source
  drops the rest of the chunk, so there the cut does matter.)\<close>

theorem push_bytes_chunking:
  assumes "list_all frame_ok fs" "concat chunks = concat (map enc_frame fs)" "bare dir c"
    and "\<not> halted (snd (snd (run_frames dir ts fs (c, out, empty_outcome))))"
  shows "foldl (push_chunk dir ts) (c, out) chunks =
    (case run_frames dir ts fs (c, out, empty_outcome) of (c', out', oc) \<Rightarrow> (c', out'))"
  using push_chunks_advance [of fs dir c "[]" 0 chunks ts out] assms bare_setp [OF assms(3)]
  by (simp add: pipe_rep_def)

definition demo_frames :: "h2frame list" where
  "demo_frames =
    [(\<lparr>fh_length = 2, fh_ty = TYPE_HEADERS, fh_flags = FLAG_END_HEADERS, fh_stream_id = 1\<rparr>, demo_req),
     (\<lparr>fh_length = 3, fh_ty = TYPE_DATA, fh_flags = 0, fh_stream_id = 1\<rparr>, [1, 2, 3])]"

theorem push_bytes_chunking_witness:
  "list_all frame_ok demo_frames \<and>
    length (hc_streams (fst (foldl (push_chunk Write 7) (H2Conn_new 0, [])
      [take 5 (concat (map enc_frame demo_frames)), drop 5 (concat (map enc_frame demo_frames))]))) = 1"
proof -
  have ok: "list_all frame_ok demo_frames"
    by (simp add: demo_frames_def frame_ok_def frame_header_ok_def demo_req_def)
  have b: "bare Write (H2Conn_new 0)"
    by (simp add: bare_def pipe_of_def H2Conn_new_def DirPipe_new_def)
  let ?r = "run_frames Write 7 demo_frames (H2Conn_new 0, [], empty_outcome)"
  have p: "dp_decoder (pipe_of Write (H2Conn_new 0)) = Decoder_default"
    by (simp add: pipe_of_def H2Conn_new_def DirPipe_new_def)
  have f: "headers_fragment 4 demo_req = Some demo_req"
    by (simp add: headers_fragment_def FLAG_PADDED_def FLAG_PRIORITY_def)
  have r: "\<not> halted (snd (snd ?r)) \<and> length (hc_streams (fst ?r)) = 1"
    using demo_blocks(1) p f
    by (simp add: run_frames_def demo_frames_def frame_apply_def skip_payload_def total_len_def HEADER_LEN_def
        LEFTOVER_CAP_def TYPE_DATA_def TYPE_HEADERS_def TYPE_CONTINUATION_def FLAG_END_HEADERS_def
        apply_headers_or_control_def on_header_block_def apply_control_def TYPE_RST_STREAM_def
        TYPE_GOAWAY_def H2Conn_new_def MAX_STREAMS_def hm_insert_def halted_def empty_outcome_def)
  show ?thesis
    using push_bytes_chunking [of demo_frames "[take 5 (concat (map enc_frame demo_frames)),
      drop 5 (concat (map enc_frame demo_frames))]" Write "H2Conn_new 0" 7 "[]"] ok b r
    by (simp add: case_prod_unfold)
qed

section \<open>A response that completes an exchange\<close>

text \<open>C13. Every exchange a fed event completes carries the event's process, descriptor and
  cgroup, ends at the event's timestamp, belongs to a stream other than 0, has a non-empty path and
  the protocol its path implies; with \<open>client_only\<close> its request was seen on the write side.\<close>

theorem feed_exchange_fields:
  "x \<in> set (fst (feed ev now co r)) \<Longrightarrow>
    hx_tgid x = io_tgid ev \<and> hx_fd x = io_fd ev \<and> hx_cgroup_id x = io_cgroup_id ev \<and>
    hx_t_end_ns x = io_ts_ns ev \<and> hx_path x \<noteq> [] \<and> hx_stream_id x \<noteq> 0 \<and>
    hx_protocol x = classify_protocol (hx_path x) \<and> (co \<longrightarrow> hx_req_dir x = Write)"
proof (cases rule: feed_cases [of ev now co r])
  case (pushed chunk key dir r')
  assume "x \<in> set (fst (feed ev now co r))"
  then show ?thesis
    using feed_push_exchanges [of x ev now co dir chunk key r'] pushed(2) by simp
qed simp_all

definition demo_resp_frame :: h2frame where
  "demo_resp_frame =
    (\<lparr>fh_length = 1, fh_ty = TYPE_HEADERS, fh_flags = FLAG_END_HEADERS, fh_stream_id = 1\<rparr>, demo_resp)"

definition demo_conn :: H2Conn where
  "demo_conn = (H2Conn_new 0)\<lparr>hc_streams :=
    [(1, \<lparr>pg_method = ''GET'', pg_path = ''/'', pg_t_start_ns = 40, pg_req_dir = Write\<rparr>)]\<rparr>"

definition demo_registry :: H2Registry where
  "demo_registry = H2Registry_default\<lparr>hr_conns := [(conn_key 10 7, demo_conn)]\<rparr>"

definition demo_resp_io :: SockIoEvent where
  "demo_resp_io = demo_io\<lparr>io_dir := 1, io_prefix_len := 10, io_ret := 10,
    io_prefix := zero_padded 256 (enc_frame demo_resp_frame)\<rparr>"

lemma demo_resp_run:
  "run_frames Read ts [demo_resp_frame] (demo_conn\<lparr>hc_at := now\<rparr>, [], empty_outcome) =
    ((H2Conn_new 0)\<lparr>hc_at := now\<rparr>,
     [\<lparr>hx_tgid = 0, hx_fd = 0, hx_stream_id = 1, hx_method = ''GET'', hx_path = ''/'', hx_status = 200,
       hx_t_start_ns = 40, hx_t_end_ns = ts, hx_protocol = classify_protocol ''/'', hx_req_dir = Write,
       hx_cgroup_id = 0\<rparr>], empty_outcome\<lparr>fo_headers_resp := 1\<rparr>)"
proof -
  have p: "dp_decoder (pipe_of Read (demo_conn\<lparr>hc_at := now\<rparr>)) = Decoder_default"
    by (simp add: pipe_of_def demo_conn_def H2Conn_new_def DirPipe_new_def)
  have f: "headers_fragment 4 demo_resp = Some demo_resp"
    by (simp add: headers_fragment_def FLAG_PADDED_def FLAG_PRIORITY_def)
  have i: "pipe_mut Read (\<lambda>p. p\<lparr>dp_decoder := Decoder_default\<rparr>) (demo_conn\<lparr>hc_at := now\<rparr>) = demo_conn\<lparr>hc_at := now\<rparr>"
    by (rule pipe_mut_id) (simp add: pipe_of_def demo_conn_def H2Conn_new_def DirPipe_new_def)
  show ?thesis
    using demo_blocks(2) p f i
    by (simp add: run_frames_def demo_resp_frame_def frame_apply_def skip_payload_def total_len_def HEADER_LEN_def
        LEFTOVER_CAP_def TYPE_HEADERS_def TYPE_CONTINUATION_def FLAG_END_HEADERS_def
        apply_headers_or_control_def on_header_block_def)
      (simp add: demo_conn_def hm_get_def hm_remove_def H2Conn_new_def empty_outcome_def)
qed

lemma demo_resp_push:
  "fst (snd (push_bytes (demo_conn\<lparr>hc_at := now\<rparr>) Read (enc_frame demo_resp_frame) ts [])) =
    fst (snd (run_frames Read ts [demo_resp_frame] (demo_conn\<lparr>hc_at := now\<rparr>, [], empty_outcome)))"
proof -
  have "list_all frame_ok [demo_resp_frame]"
    by (simp add: demo_resp_frame_def frame_ok_def frame_header_ok_def demo_resp_def)
  moreover have b: "bare Read (demo_conn\<lparr>hc_at := now\<rparr>)"
    by (simp add: bare_def pipe_of_def demo_conn_def H2Conn_new_def DirPipe_new_def)
  ultimately have "foldl (push_chunk Read ts) (setp Read [] 0 (demo_conn\<lparr>hc_at := now\<rparr>), []) [enc_frame demo_resp_frame] =
      (case run_frames Read ts [demo_resp_frame] (demo_conn\<lparr>hc_at := now\<rparr>, [], empty_outcome) of (c', out', oc) \<Rightarrow> (c', out'))"
    by (intro push_chunks_advance)
      (simp_all add: pipe_rep_def demo_resp_run halted_def, simp_all add: empty_outcome_def)
  from arg_cong [OF this, of snd] show ?thesis
    using bare_setp [OF b] by (simp add: push_chunk_def case_prod_unfold)
qed

theorem feed_exchange_fields_witness:
  "length (fst (feed demo_resp_io 5 True demo_registry)) = 1 \<and>
    hx_tgid (hd (fst (feed demo_resp_io 5 True demo_registry))) = 10 \<and>
    hx_t_end_ns (hd (fst (feed demo_resp_io 5 True demo_registry))) = 99 \<and>
    hx_req_dir (hd (fst (feed demo_resp_io 5 True demo_registry))) = Write"
proof -
  have e: "length (enc_frame demo_resp_frame) = 10"
    by (simp add: length_enc_frame demo_resp_frame_def demo_resp_def HEADER_LEN_def)
  then have c: "take 10 (io_prefix demo_resp_io) = enc_frame demo_resp_frame" "length (io_prefix demo_resp_io) = 256"
    by (simp_all add: demo_resp_io_def zero_padded_def)
  have n: "\<not> starts_with (enc_frame demo_resp_frame) CLIENT_PREFACE"
    by (simp add: CLIENT_PREFACE_def bstr_def demo_resp_frame_def enc_frame_def write_frame_header_def numeral_3_eq_3)
  have g: "feed demo_resp_io 5 True demo_registry =
      feed_push demo_resp_io 5 True Read (enc_frame demo_resp_frame) (conn_key 10 7) demo_registry"
    using c n by (simp add: feed_def demo_resp_io_def demo_io_def feed_open_def demo_registry_def
        IoDir_from_u8_def hm_contains_def hm_get_def Let_def)
  have h: "hm_get (hr_conns demo_registry) (conn_key 10 7) = Some demo_conn"
    by (simp add: demo_registry_def hm_get_def)
  have l: "length (fst (feed demo_resp_io 5 True demo_registry)) = 1"
    using demo_resp_push [of 5 "io_ts_ns demo_resp_io"] h
    by (simp add: g feed_push_def case_prod_unfold Let_def demo_resp_run)
  then have "hd (fst (feed demo_resp_io 5 True demo_registry)) \<in> set (fst (feed demo_resp_io 5 True demo_registry))"
    by (intro hd_in_set) auto
  from feed_exchange_fields [OF this] show ?thesis
    using l by (simp add: demo_resp_io_def demo_io_def)
qed

section \<open>Bounds\<close>

text \<open>C10. In every reachable state of the HTTP/2 tracker at most 8192 connections are tracked and each of them is bounded:
  at most 2048 open streams, all with a non-empty path; and in each direction fewer than 8192 leftover bytes (none while
  payload is being skipped), at most 8192 bytes of continued header block, and a dynamic table of at most 32 entries
  and at most its maximum size in octets, which is at most 4096.\<close>

theorem h2_registry_bounded:
  "h2_reach r \<Longrightarrow> length (hr_conns r) \<le> 8192 \<and>
    (\<forall>(k, c) \<in> set (hr_conns r).
      length (hc_streams c) \<le> 2048 \<and> (\<forall>(sid, s) \<in> set (hc_streams c). pg_path s \<noteq> []) \<and>
      (\<forall>d. let p = pipe_of d c; t = d_dynamic (dp_decoder p) in
        length (dp_leftover p) < 8192 \<and> (dp_skip p > 0 \<longrightarrow> dp_leftover p = []) \<and>
        (\<forall>sid b. dp_header_block p = Some (sid, b) \<longrightarrow> length b \<le> 8192) \<and>
        length t \<le> 32 \<and> (\<Sum>(n, v)\<leftarrow>t. 32 + length n + length v) \<le> d_max_size (dp_decoder p) \<and>
        d_max_size (dp_decoder p) \<le> 4096))"
proof -
  assume "h2_reach r"
  then have r: "length (hr_conns r) \<le> 8192" "\<And>k c. (k, c) \<in> set (hr_conns r) \<Longrightarrow> conn_ok c"
    using h2_reach_ok [of r] by (auto simp: registry_ok_def MAX_CONNS_def)
  have "length (hc_streams c) \<le> 2048 \<and> (\<forall>(sid, s) \<in> set (hc_streams c). pg_path s \<noteq> [])" if "conn_ok c" for c
    using that by (simp add: conn_ok_def streams_ok_def MAX_STREAMS_def)
  moreover have "let p = pipe_of d c; t = d_dynamic (dp_decoder p) in
      length (dp_leftover p) < 8192 \<and> (dp_skip p > 0 \<longrightarrow> dp_leftover p = []) \<and>
      (\<forall>sid b. dp_header_block p = Some (sid, b) \<longrightarrow> length b \<le> 8192) \<and>
      length t \<le> 32 \<and> (\<Sum>(n, v)\<leftarrow>t. 32 + length n + length v) \<le> d_max_size (dp_decoder p) \<and>
      d_max_size (dp_decoder p) \<le> 4096" if "conn_ok c" for c d
    using conn_ok_pipe [OF that, of d]
    by (simp add: Let_def decoder_ok_def table_octets_def LEFTOVER_CAP_def DYNAMIC_CAP_def DEFAULT_TABLE_SIZE_def ENTRY_OVERHEAD_def)
  ultimately show ?thesis
    using r by blast
qed

definition demo_req_io :: SockIoEvent where
  "demo_req_io = demo_io\<lparr>io_prefix_len := 11, io_ret := 11, io_prefix := zero_padded 256 (enc_frame (hd demo_frames))\<rparr>"

lemma demo_req_run:
  "\<exists>c oc. run_frames Write ts [hd demo_frames] (H2Conn_new now, [], empty_outcome) = (c, [], oc) \<and>
    length (hc_streams c) = 1 \<and> \<not> halted (merge_outcome empty_outcome oc) \<and> \<not> halted oc"
proof -
  have p: "dp_decoder (pipe_of Write (H2Conn_new now)) = Decoder_default"
    by (simp add: pipe_of_def H2Conn_new_def DirPipe_new_def)
  have f: "headers_fragment 4 demo_req = Some demo_req"
    by (simp add: headers_fragment_def FLAG_PADDED_def FLAG_PRIORITY_def)
  show ?thesis
    using demo_blocks(1) p f
    by (simp add: run_frames_def demo_frames_def frame_apply_def skip_payload_def total_len_def HEADER_LEN_def
        LEFTOVER_CAP_def TYPE_HEADERS_def TYPE_CONTINUATION_def FLAG_END_HEADERS_def
        apply_headers_or_control_def on_header_block_def H2Conn_new_def MAX_STREAMS_def hm_insert_def halted_def
        empty_outcome_def merge_outcome_def)
qed

lemma demo_req_feed:
  "\<exists>c. hr_conns (snd (feed demo_req_io 5 False H2Registry_default)) = [(conn_key 10 7, c)] \<and> length (hc_streams c) = 1"
proof -
  let ?f = "hd demo_frames"
  have e: "enc_frame ?f = [0, 0, 2, 1, 4, 0, 0, 0, 1, 130, 132]"
    unfolding demo_frames_def enc_frame_def write_frame_header_def demo_req_def TYPE_HEADERS_def FLAG_END_HEADERS_def
    by code_simp
  have c: "take 11 (io_prefix demo_req_io) = enc_frame ?f" "length (io_prefix demo_req_io) = 256"
    by (simp_all add: demo_req_io_def zero_padded_def e)
  have h: "looks_like_h2 (enc_frame ?f)" "\<not> starts_with (enc_frame ?f) CLIENT_PREFACE"
    by (simp_all add: e looks_like_h2_def looks_like_frame_def FrameHeader_parse_def HEADER_LEN_def frame_types CLIENT_PREFACE_def
        bstr_def)
  let ?r = "H2Registry_default\<lparr>hr_conns := [(conn_key 10 7, H2Conn_new 5)]\<rparr>"
  have g: "feed demo_req_io 5 False H2Registry_default = feed_push demo_req_io 5 False Write (enc_frame ?f) (conn_key 10 7) ?r"
    using c h by (simp add: feed_def demo_req_io_def demo_io_def feed_open_def H2Registry_default_def
        IoDir_from_u8_def hm_contains_def hm_insert_def MAX_CONNS_def Let_def)
  obtain c oc where run: "run_frames Write 99 [?f] (H2Conn_new 5, [], empty_outcome) = (c, [], oc)"
    "length (hc_streams c) = 1" "\<not> halted (merge_outcome empty_outcome oc)" "\<not> halted oc"
    using demo_req_run by blast
  have "list_all frame_ok [?f]" "bare Write (H2Conn_new 5)"
    by (simp_all add: demo_frames_def frame_ok_def frame_header_ok_def demo_req_def bare_def pipe_of_def H2Conn_new_def DirPipe_new_def)
  from push_whole [OF this run(1,4)]
  have "push_bytes (H2Conn_new 5) Write (enc_frame ?f) 99 [] = (c, [], merge_outcome empty_outcome oc)"
    by simp
  moreover have "(H2Conn_new 5)\<lparr>hc_at := 5\<rparr> = H2Conn_new 5"
    by (simp add: H2Conn_new_def)
  moreover have "io_ts_ns demo_req_io = 99"
    by (simp add: demo_req_io_def demo_io_def)
  ultimately have "hr_conns (snd (feed demo_req_io 5 False H2Registry_default)) = [(conn_key 10 7, c)]"
    using run(3) by (simp add: g feed_push_def hm_get_def hm_insert_def halted_def Let_def)
  then show ?thesis
    using run(2) by blast
qed

theorem h2_registry_bounded_witness:
  "\<exists>k c. hr_conns (snd (feed demo_req_io 5 False H2Registry_default)) = [(k, c)] \<and> length (hc_streams c) = 1 \<and>
    list_all (\<lambda>(sid, s). pg_path s \<noteq> []) (hc_streams c) \<and> length (dp_leftover (pipe_of Write c)) < 8192"
proof -
  obtain c where c: "hr_conns (snd (feed demo_req_io 5 False H2Registry_default)) = [(conn_key 10 7, c)]" "length (hc_streams c) = 1"
    using demo_req_feed by blast
  show ?thesis
    using h2_registry_bounded [OF h2_feed [OF h2_init, of demo_req_io 5 False]] c by (auto simp: list_all_iff Let_def)
qed

end
