(* ===== verification/Strings.thy ===== *)
theory Strings
  imports Prelude
begin

text \<open>
  The operations on \<open>str\<close> and \<open>String\<close> of the Rust standard library that the agent uses: splitting and
  joining on a separator, prefixes and suffixes, ASCII classes and case, and decimal formatting. A
  string is the list of its UTF-8 bytes as characters; every separator used is ASCII, so byte-wise
  splitting is splitting on characters. White space is ASCII white space: the strings trimmed are process
  names, numbers and environment values.
\<close>

section \<open>Splitting and joining\<close>

fun split_on :: "char \<Rightarrow> string \<Rightarrow> string list" where
  "split_on c [] = [[]]"
| "split_on c (x # xs) =
    (if x = c then [] # split_on c xs
     else case split_on c xs of [] \<Rightarrow> [[x]] | s # ss \<Rightarrow> (x # s) # ss)"

fun join :: "string \<Rightarrow> string list \<Rightarrow> string" where
  "join sep [] = []"
| "join sep [s] = s"
| "join sep (s # ss) = s @ sep @ join sep ss"

definition strip_prefix :: "string \<Rightarrow> string \<Rightarrow> string option" where
  "strip_prefix p s = (if starts_with s p then Some (drop (length p) s) else None)"

definition ends_with :: "'a list \<Rightarrow> 'a list \<Rightarrow> bool" where
  "ends_with s p \<longleftrightarrow> drop (length s - length p) s = p \<and> length p \<le> length s"

definition strip_suffix :: "string \<Rightarrow> string \<Rightarrow> string option" where
  "strip_suffix p s = (if ends_with s p then Some (take (length s - length p) s) else None)"

text \<open>\<open>str::find\<close> of a substring: the first position where it occurs.\<close>

fun find_sub :: "'a list \<Rightarrow> 'a list \<Rightarrow> nat option" where
  "find_sub p [] = (if p = [] then Some 0 else None)"
| "find_sub p (x # xs) =
    (if starts_with (x # xs) p then Some 0 else map_option Suc (find_sub p xs))"

definition contains_sub :: "'a list \<Rightarrow> 'a list \<Rightarrow> bool" where
  "contains_sub s p \<longleftrightarrow> find_sub p s \<noteq> None"

text \<open>\<open>str::lines\<close>: a final line break ends the last line, a carriage return before a line break is dropped.\<close>

definition strip_cr :: "string \<Rightarrow> string" where
  "strip_cr s = (if s \<noteq> [] \<and> last s = CHR 0x0D then butlast s else s)"

definition str_lines :: "string \<Rightarrow> string list" where
  "str_lines s =
    (let segs = split_on CHR 0x0A s
     in map strip_cr (butlast segs) @ (if last segs = [] then [] else [last segs]))"

definition trim_end_char :: "char \<Rightarrow> string \<Rightarrow> string" where
  "trim_end_char c s = rev (dropWhile (\<lambda>x. x = c) (rev s))"

definition replace_char :: "char \<Rightarrow> char \<Rightarrow> string \<Rightarrow> string" where
  "replace_char a b s = map (\<lambda>x. if x = a then b else x) s"

section \<open>UTF-8\<close>

text \<open>A byte offset is a character boundary unless it points at a continuation byte; slicing off a boundary panics.\<close>

definition is_char_boundary :: "string \<Rightarrow> nat \<Rightarrow> bool" where
  "is_char_boundary s n \<longleftrightarrow> n = 0 \<or> n = length s \<or>
    (n < length s \<and> \<not> (0x80 \<le> (of_char (s ! n) :: nat) \<and> (of_char (s ! n) :: nat) \<le> 0xBF))"

definition str_get_to :: "nat \<Rightarrow> string \<Rightarrow> string option" where
  "str_get_to n s = (if is_char_boundary s n then Some (take n s) else None)"

definition utf8_cont :: "u8 \<Rightarrow> bool" where
  "utf8_cont b \<longleftrightarrow> 0x80 \<le> b \<and> b \<le> 0xBF"

definition utf8_second :: "u8 \<Rightarrow> u8 \<Rightarrow> bool" where
  "utf8_second a b =
    (if a = 0xE0 then 0xA0 \<le> b \<and> b \<le> 0xBF
     else if a = 0xED then 0x80 \<le> b \<and> b \<le> 0x9F
     else if a = 0xF0 then 0x90 \<le> b \<and> b \<le> 0xBF
     else if a = 0xF4 then 0x80 \<le> b \<and> b \<le> 0x8F
     else utf8_cont b)"

text \<open>The bytes of the next character, or of the longest invalid piece, and whether it is valid.\<close>

definition utf8_chunk :: "bytes \<Rightarrow> nat \<times> bool" where
  "utf8_chunk s =
    (let a = s ! 0; ok = (\<lambda>i. i < length s \<and> (if i = 1 then utf8_second a (s ! 1) else utf8_cont (s ! i)))
     in if a < 0x80 then (1, True)
        else if 0xC2 \<le> a \<and> a \<le> 0xDF then (if ok 1 then (2, True) else (1, False))
        else if 0xE0 \<le> a \<and> a \<le> 0xEF then
          (if \<not> ok 1 then (1, False) else if \<not> ok 2 then (2, False) else (3, True))
        else if 0xF0 \<le> a \<and> a \<le> 0xF4 then
          (if \<not> ok 1 then (1, False) else if \<not> ok 2 then (2, False) else if \<not> ok 3 then (3, False) else (4, True))
        else (1, False))"

lemma utf8_chunk_pos: "0 < fst (utf8_chunk s)"
  by (simp add: utf8_chunk_def Let_def)

text \<open>\<open>String::from_utf8_lossy\<close>: every invalid piece becomes U+FFFD.\<close>

function from_utf8_lossy :: "bytes \<Rightarrow> string" where
  "from_utf8_lossy s =
    (if s = [] then []
     else (if snd (utf8_chunk s) then str_of_bytes (take (fst (utf8_chunk s)) s) else [CHR 0xEF, CHR 0xBF, CHR 0xBD])
       @ from_utf8_lossy (drop (fst (utf8_chunk s)) s))"
  by pat_completeness auto
termination
  by (relation "measure length") (auto simp: utf8_chunk_pos)

declare from_utf8_lossy.simps [simp del]

function utf8_ok :: "bytes \<Rightarrow> bool" where
  "utf8_ok s = (if s = [] then True else snd (utf8_chunk s) \<and> utf8_ok (drop (fst (utf8_chunk s)) s))"
  by pat_completeness auto
termination
  by (relation "measure length") (auto simp: utf8_chunk_pos)

declare utf8_ok.simps [simp del]

text \<open>\<open>fs::read_to_string\<close> over a file system \<open>rd\<close> that maps paths to contents, and \<open>Path::join\<close>.\<close>

type_synonym file_system = "string \<Rightarrow> bytes option"

definition read_to_string :: "file_system \<Rightarrow> string \<Rightarrow> string option" where
  "read_to_string rd path =
    (case rd path of None \<Rightarrow> None | Some b \<Rightarrow> if utf8_ok b then Some (str_of_bytes b) else None)"

definition path_join :: "string \<Rightarrow> string \<Rightarrow> string" where
  "path_join p c = (if p \<noteq> [] \<and> last p = CHR ''/'' then p @ c else p @ ''/'' @ c)"

text \<open>\<open>Path::file_name\<close>: the last component, unless the path ends in \<open>..\<close> or has none.\<close>

definition path_file_name :: "string \<Rightarrow> string option" where
  "path_file_name p =
    (let comps = filter (\<lambda>c. c \<noteq> [] \<and> c \<noteq> ''.'') (split_on CHR ''/'' p)
     in if comps = [] \<or> last comps = ''..'' then None else Some (last comps))"

fun find_map :: "('a \<Rightarrow> 'b option) \<Rightarrow> 'a list \<Rightarrow> 'b option" where
  "find_map f [] = None"
| "find_map f (x # xs) = (case f x of None \<Rightarrow> find_map f xs | Some y \<Rightarrow> Some y)"

lemma find_map_Some: "find_map f xs = Some y \<Longrightarrow> \<exists>x \<in> set xs. f x = Some y"
  by (induction xs) (auto split: option.splits)

lemma find_map_append: "find_map f (xs @ ys) = (case find_map f xs of None \<Rightarrow> find_map f ys | Some y \<Rightarrow> Some y)"
  by (induction xs) (auto split: option.splits)

section \<open>ASCII\<close>

definition is_ascii_digit :: "char \<Rightarrow> bool" where
  "is_ascii_digit c \<longleftrightarrow> (48 :: nat) \<le> of_char c \<and> of_char c \<le> (57 :: nat)"

definition is_ascii_hexdigit :: "char \<Rightarrow> bool" where
  "is_ascii_hexdigit c \<longleftrightarrow> is_ascii_digit c \<or> ((65 :: nat) \<le> of_char c \<and> of_char c \<le> (70 :: nat))
    \<or> ((97 :: nat) \<le> of_char c \<and> of_char c \<le> (102 :: nat))"

definition byte_lowercase :: "u8 \<Rightarrow> u8" where
  "byte_lowercase b = (if 65 \<le> b \<and> b \<le> 90 then b + 32 else b)"

definition char_lowercase :: "char \<Rightarrow> char" where
  "char_lowercase c = (let n = of_char c :: nat in if 65 \<le> n \<and> n \<le> 90 then char_of (n + 32) else c)"

definition is_ws :: "char \<Rightarrow> bool" where
  "is_ws c \<longleftrightarrow> c \<in> set [CHR '' '', CHR 0x09, CHR 0x0A, CHR 0x0B, CHR 0x0C, CHR 0x0D]"

definition trim :: "string \<Rightarrow> string" where
  "trim s = rev (dropWhile is_ws (rev (dropWhile is_ws s)))"

section \<open>Decimal formatting\<close>

fun show_nat :: "nat \<Rightarrow> string" where
  "show_nat n = (if n < 10 then [char_of (48 + n)] else show_nat (n div 10) @ [char_of (48 + n mod 10)])"

declare show_nat.simps [simp del]

fun show_hex :: "nat \<Rightarrow> string" where
  "show_hex n = (let d = (\<lambda>k. ''0123456789abcdef'' ! k) in
     if n < 16 then [d n] else show_hex (n div 16) @ [d (n mod 16)])"

declare show_hex.simps [simp del]

definition digit_of :: "char \<Rightarrow> nat" where
  "digit_of c = of_char c - 48"

definition read_nat :: "string \<Rightarrow> nat" where
  "read_nat s = foldl (\<lambda>n c. n * 10 + digit_of c) 0 s"

text \<open>\<open>str::parse::<uN>\<close>: an optional plus sign, then digits, the value in range.\<close>

definition parse_unsigned :: "nat \<Rightarrow> string \<Rightarrow> nat option" where
  "parse_unsigned bits s =
    (let ds = (case s of CHR ''+'' # r \<Rightarrow> r | _ \<Rightarrow> s)
     in if ds \<noteq> [] \<and> list_all is_ascii_digit ds \<and> read_nat ds < 2 ^ bits then Some (read_nat ds) else None)"

section \<open>Lemmas\<close>

lemma split_on_nonempty [simp]: "split_on c s \<noteq> []"
  by (cases s) (auto split: list.split)

lemma split_on_no_sep: "seg \<in> set (split_on c s) \<Longrightarrow> c \<notin> set seg"
proof (induction s arbitrary: seg)
  case (Cons x s)
  obtain u us where u: "split_on c s = u # us"
    by (cases "split_on c s") auto
  then show ?case
    using Cons by (auto split: if_splits)
qed simp

lemma join_Cons: "ss \<noteq> [] \<Longrightarrow> join sep (s # ss) = s @ sep @ join sep ss"
  by (cases ss) auto

lemma join_split: "join [c] (split_on c s) = s"
proof (induction s)
  case (Cons x s)
  obtain u us where u: "split_on c s = u # us"
    by (cases "split_on c s") auto
  then show ?case
    using Cons by (cases us) (auto simp: join_Cons)
qed simp

lemma split_on_append: "c \<notin> set s \<Longrightarrow> split_on c (s @ c # t) = s # split_on c t"
  by (induction s) auto

lemma split_on_atom: "c \<notin> set s \<Longrightarrow> split_on c s = [s]"
  by (induction s) auto

lemma split_join: "ss \<noteq> [] \<Longrightarrow> \<forall>s \<in> set ss. c \<notin> set s \<Longrightarrow> split_on c (join [c] ss) = ss"
proof (induction ss)
  case (Cons s ss)
  then show ?case
    by (cases "ss = []") (simp_all add: split_on_atom join_Cons split_on_append)
qed simp

lemma join_empty_iff: "ss \<noteq> [] \<Longrightarrow> join [c] ss = [] \<longleftrightarrow> ss = [[]]"
  by (cases ss rule: list.exhaust, simp) (metis append_is_Nil_conv join.simps(2) join_Cons list.distinct(1))

lemma find_sub_Some: "find_sub p s = Some i \<Longrightarrow> starts_with (drop i s) p \<and> i + length p \<le> length s"
proof (induction s arbitrary: i)
  case (Cons x s)
  then show ?case
    using starts_with_length [of "x # s" p] by (auto split: if_splits)
qed (auto split: if_splits)

lemma find_sub_first: "find_sub p s = Some i \<Longrightarrow> j < i \<Longrightarrow> \<not> starts_with (drop j s) p"
proof (induction s arbitrary: i j)
  case (Cons x s)
  then show ?case
    by (cases j) (auto split: if_splits)
qed (auto split: if_splits)

lemma contains_sub_iff: "contains_sub s p \<longleftrightarrow> (\<exists>u v. s = u @ p @ v)"
proof (induction s)
  case (Cons x s)
  have "starts_with (x # s) p \<longleftrightarrow> (\<exists>v. x # s = p @ v)"
    by (metis append_eq_conv_conj starts_with_def append_take_drop_id)
  moreover have "(\<exists>u v. x # s = u @ p @ v) \<longleftrightarrow> (\<exists>v. x # s = p @ v) \<or> (\<exists>u v. s = u @ p @ v)"
    by (metis append_Cons append_Nil list.exhaust list.inject)
  ultimately show ?case
    using Cons by (simp add: contains_sub_def)
qed (simp add: contains_sub_def)

lemma of_char_digit: "d < 10 \<Longrightarrow> of_char (char_of (48 + d) :: char) = 48 + d" for d :: nat
  by (simp add: of_char_of)

lemma read_show_nat [simp]: "read_nat (show_nat n) = n"
proof (induction n rule: show_nat.induct)
  case (1 n)
  then show ?case
    by (cases "n < 10"; subst show_nat.simps) (simp_all add: read_nat_def digit_of_def of_char_digit)
qed

lemma show_nat_digits: "list_all is_ascii_digit (show_nat n)"
proof (induction n rule: show_nat.induct)
  case (1 n)
  then show ?case
    by (cases "n < 10"; subst show_nat.simps)
      (simp_all add: is_ascii_digit_def [of "char_of _"] of_char_digit less_Suc_eq_le [symmetric])
qed

lemma show_nat_nonempty [simp]: "show_nat n \<noteq> []"
  by (subst show_nat.simps) simp

lemma show_nat_inject [simp]: "show_nat a = show_nat b \<longleftrightarrow> a = b"
  by (metis read_show_nat)

end
