(* ===== verification/Http.thy ===== *)
theory Http
  imports Correlate Strings
begin

text \<open>
  HTTP parsing, path normalisation and header redaction (\<open>src/agent/src/http.rs\<close>). The crate \<open>httparse\<close>
  is a parameter: a request parser that yields the method and the path it recognised, a response parser
  that yields the status code, either of which may reject the bytes.
\<close>

section \<open>Model\<close>

record HttpEndpoint =
  ep_method :: string
  ep_path :: string
  ep_protocol :: string

definition HttpEndpoint_http :: "string \<Rightarrow> string \<Rightarrow> HttpEndpoint" where
  "HttpEndpoint_http method path = \<lparr>ep_method = method, ep_path = path, ep_protocol = ''http''\<rparr>"

definition HttpEndpoint_labeled :: "string \<Rightarrow> string \<Rightarrow> string \<Rightarrow> HttpEndpoint" where
  "HttpEndpoint_labeled protocol method path =
    \<lparr>ep_method = method, ep_path = path, ep_protocol = protocol\<rparr>"

definition HttpEndpoint_label :: "HttpEndpoint \<Rightarrow> string" where
  "HttpEndpoint_label e =
    (if ep_protocol e = ''http'' then ep_method e @ '' '' @ ep_path e
     else ep_protocol e @ '' '' @ ep_method e @ '' '' @ ep_path e)"

record ParsedExchange =
  px_endpoint :: HttpEndpoint
  px_status :: u16
  px_latency_ns :: u64
  px_wire_ns :: "u64 option"

fun position :: "('a \<Rightarrow> bool) \<Rightarrow> 'a list \<Rightarrow> nat option" where
  "position P [] = None"
| "position P (x # xs) = (if P x then Some 0 else map_option Suc (position P xs))"

definition find_subslice :: "bytes \<Rightarrow> bytes \<Rightarrow> nat option" where
  "find_subslice hay needle = position (\<lambda>w. w = needle) (windows (length needle) hay)"

text \<open>The two loops of \<open>redact_header_line\<close>: skip blanks, then overwrite up to the end of the line.\<close>

function skip_blanks :: "bytes \<Rightarrow> nat \<Rightarrow> nat" where
  "skip_blanks buf i =
    (if i < length buf \<and> (buf ! i = 32 \<or> buf ! i = 9) then skip_blanks buf (i + 1) else i)"
  by pat_completeness auto
termination
  by (relation "measure (\<lambda>(buf, i). length buf - i)") auto

function mask_value :: "bytes \<Rightarrow> nat \<Rightarrow> bytes" where
  "mask_value buf i =
    (if i < length buf \<and> buf ! i \<noteq> 13 \<and> buf ! i \<noteq> 10 then mask_value (buf[i := 42]) (i + 1) else buf)"
  by pat_completeness auto
termination
  by (relation "measure (\<lambda>(buf, i). length buf - i)") auto

declare skip_blanks.simps [simp del] mask_value.simps [simp del]

definition redact_header_line :: "bytes \<Rightarrow> bytes \<Rightarrow> bytes" where
  "redact_header_line buf name_lc =
    (let lower = map byte_lowercase buf in
     case find_subslice lower name_lc of None \<Rightarrow> buf
     | Some i \<Rightarrow> mask_value buf (skip_blanks buf (i + length name_lc)))"

definition redact_headers :: "bytes \<Rightarrow> bytes" where
  "redact_headers buf =
    foldl redact_header_line buf [bstr ''authorization:'', bstr ''cookie:'', bstr ''set-cookie:'']"

definition is_numeric_id :: "string \<Rightarrow> bool" where
  "is_numeric_id seg \<longleftrightarrow> seg \<noteq> [] \<and> list_all is_ascii_digit seg"

definition normalize_path :: "string \<Rightarrow> string" where
  "normalize_path path =
    (if path = [] then ''/''
     else
       let parts = map (\<lambda>seg. if is_numeric_id seg then '':id'' else seg) (split_on CHR ''/'' path);
           joined = join ''/'' parts
       in if joined = [] then ''/'' else joined)"

text \<open>\<open>parse_req\<close> and \<open>parse_resp\<close> stand for \<open>httparse\<close>: \<open>None\<close> is an error, otherwise the fields
  recognised in a complete or partial message.\<close>

definition parse_exchange ::
  "(bytes \<Rightarrow> (string option \<times> string option) option) \<Rightarrow> (bytes \<Rightarrow> u16 option option) \<Rightarrow>
    Exchange \<Rightarrow> ParsedExchange option" where
  "parse_exchange parse_req parse_resp ex =
    (case parse_req (ex_req_prefix ex) of None \<Rightarrow> None | Some (method, path) \<Rightarrow>
     case method of None \<Rightarrow> None | Some method \<Rightarrow>
     case path of None \<Rightarrow> None | Some path_raw \<Rightarrow>
     let path = normalize_path (hd (split_on CHR ''?'' path_raw)) in
     case parse_resp (ex_resp_prefix ex) of None \<Rightarrow> None | Some code \<Rightarrow>
     case code of None \<Rightarrow> None | Some status \<Rightarrow>
       Some \<lparr>px_endpoint = HttpEndpoint_http method path, px_status = status,
             px_latency_ns = Exchange_latency_ns ex, px_wire_ns = None\<rparr>)"

section \<open>Path normalisation\<close>

definition norm_seg :: "string \<Rightarrow> string" where
  "norm_seg seg = (if is_numeric_id seg then '':id'' else seg)"

lemma norm_seg_simps [simp]:
  "\<not> is_numeric_id (norm_seg s)" "norm_seg (norm_seg s) = norm_seg s" "norm_seg s = [] \<longleftrightarrow> s = []"
  by (auto simp: norm_seg_def is_numeric_id_def is_ascii_digit_def)

lemma norm_seg_no_slash: "CHR ''/'' \<notin> set s \<Longrightarrow> CHR ''/'' \<notin> set (norm_seg s)"
  by (simp add: norm_seg_def)

lemma normalize_path_alt:
  "normalize_path path = (if path = [] then ''/'' else join ''/'' (map norm_seg (split_on CHR ''/'' path)))"
proof -
  have "map norm_seg (split_on CHR ''/'' path) = [[]] \<longleftrightarrow> path = []"
  proof
    assume a: "map norm_seg (split_on CHR ''/'' path) = [[]]"
    then obtain s where "split_on CHR ''/'' path = [s]" "s = []"
      by (cases "split_on CHR ''/'' path") auto
    then show "path = []"
      using join_split [of "CHR ''/''" path] by simp
  qed (simp add: norm_seg_def is_numeric_id_def)
  then have "join ''/'' (map norm_seg (split_on CHR ''/'' path)) = [] \<longleftrightarrow> path = []"
    by (subst join_empty_iff) simp_all
  then show ?thesis
    by (simp add: normalize_path_def norm_seg_def [abs_def] Let_def)
qed

lemma split_normalize:
  "path \<noteq> [] \<Longrightarrow> split_on CHR ''/'' (normalize_path path) = map norm_seg (split_on CHR ''/'' path)"
  unfolding normalize_path_alt
  by (auto simp: split_join norm_seg_no_slash split_on_no_sep)

lemma normalize_path_facts:
  "normalize_path path \<noteq> []" "normalize_path (normalize_path path) = normalize_path path"
proof -
  show ne: "normalize_path path \<noteq> []"
    by (simp add: normalize_path_def Let_def)
  show "normalize_path (normalize_path path) = normalize_path path"
  proof (cases "path = []")
    case False
    then show ?thesis
      unfolding normalize_path_alt [of "normalize_path path"] using ne split_normalize [OF False]
      by (simp add: comp_def) (simp add: normalize_path_alt)
  qed (simp add: normalize_path_alt norm_seg_def is_numeric_id_def)
qed

text \<open>Path normalisation: the result is never empty, keeps the number of segments of a non-empty path,
  has no purely numeric segment left, and normalising again changes nothing.\<close>

theorem normalize_path_normal:
  "normalize_path path \<noteq> [] \<and>
    (path \<noteq> [] \<longrightarrow> length (split_on CHR ''/'' (normalize_path path)) = length (split_on CHR ''/'' path)) \<and>
    list_all (\<lambda>seg. \<not> is_numeric_id seg) (split_on CHR ''/'' (normalize_path path)) \<and>
    normalize_path (normalize_path path) = normalize_path path"
proof (cases "path = []")
  case True
  then have "normalize_path path = ''/''"
    by (simp add: normalize_path_def)
  then show ?thesis
    using True normalize_path_facts [of path] by (simp add: is_numeric_id_def)
qed (simp add: split_normalize list_all_iff normalize_path_facts)

theorem normalize_path_normal_witness:
  "normalize_path ''/users/42/7a'' = ''/users/:id/7a'' \<and>
    length (split_on CHR ''/'' (normalize_path ''/users/42/7a'')) = length (split_on CHR ''/'' ''/users/42/7a'')"
  using normalize_path_normal [of "''/users/42/7a''"]
  by (simp add: normalize_path_alt norm_seg_def is_numeric_id_def is_ascii_digit_def)

section \<open>Redaction\<close>

abbreviation blank :: "u8 \<Rightarrow> bool" where "blank b \<equiv> b = 32 \<or> b = 9"

abbreviation in_line :: "u8 \<Rightarrow> bool" where "in_line b \<equiv> b \<noteq> 13 \<and> b \<noteq> 10"

lemma skip_blanks_eq: "skip_blanks buf i = i + length (takeWhile blank (drop i buf))"
proof (induction buf i rule: skip_blanks.induct)
  case (1 buf i)
  show ?case
    by (cases "i < length buf"; subst skip_blanks.simps)
      (use 1 in \<open>auto simp: Cons_nth_drop_Suc [symmetric]\<close>)
qed

lemma mask_value_eq:
  "i \<le> length buf \<Longrightarrow> n = length (takeWhile in_line (drop i buf)) \<Longrightarrow>
    mask_value buf i = take i buf @ replicate n 42 @ drop (i + n) buf"
proof (induction buf i arbitrary: n rule: mask_value.induct)
  case (1 buf i)
  show ?case
  proof (cases "i < length buf \<and> in_line (buf ! i)")
    case True
    define m where "m = length (takeWhile in_line (drop (Suc i) buf))"
    have d: "drop (Suc i) (buf[i := 42]) = drop (Suc i) buf" "drop (Suc i + m) (buf[i := 42]) = drop (Suc i + m) buf"
      by simp_all
    have "n = Suc m"
      using 1(3) True by (simp add: Cons_nth_drop_Suc [symmetric] m_def)
    moreover have "mask_value (buf[i := 42]) (i + 1) = take (Suc i) (buf[i := 42]) @ replicate m 42 @ drop (Suc i + m) buf"
      using 1(1) [OF True, of m] True d by (simp add: m_def)
    moreover have "take (Suc i) (buf[i := 42]) = take i buf @ [42]"
      using True by (simp add: take_Suc_conv_app_nth)
    ultimately show ?thesis
      using True by (subst mask_value.simps) simp
  next
    case False
    then have "n = 0"
      using 1(2,3) by (cases "i < length buf") (auto simp: Cons_nth_drop_Suc [symmetric])
    then show ?thesis
      using False by (subst mask_value.simps) auto
  qed
qed

lemma position_Some: "position P xs = Some i \<Longrightarrow> i < length xs \<and> P (xs ! i)"
  by (induction xs arbitrary: i) (auto split: if_splits)



lemma find_subslice_Some:
  assumes "find_subslice hay needle = Some i"
  shows "take (length needle) (drop i hay) = needle \<and> i + length needle \<le> length hay"
  using position_Some [OF assms [unfolded find_subslice_def]] by (auto simp: windows_def nth_append)









lemma redact_header_line_safe:
  "length (redact_header_line buf name) = length buf \<and>
    (\<forall>i < length buf. redact_header_line buf name ! i = buf ! i \<or>
      (redact_header_line buf name ! i = 42 \<and> in_line (buf ! i)))"
proof (cases "find_subslice (map byte_lowercase buf) name")
  case (Some i)
  let ?j = "i + length name"
  let ?k = "?j + length (takeWhile blank (drop ?j buf))"
  let ?v = "takeWhile in_line (drop ?k buf)"
  have k: "?k \<le> length buf"
    using find_subslice_Some [OF Some] length_takeWhile_le [of blank "drop ?j buf"]
    unfolding length_map length_drop by linarith
  have n: "length ?v \<le> length buf - ?k"
    using length_takeWhile_le [of in_line "drop ?k buf"] by simp
  have r: "redact_header_line buf name = take ?k buf @ replicate (length ?v) 42 @ drop (?k + length ?v) buf"
    using Some by (simp add: redact_header_line_def skip_blanks_eq mask_value_eq [OF k refl] Let_def)
  have "in_line (buf ! x)" if "?k \<le> x" "x < ?k + length ?v" for x
  proof -
    have "?v ! (x - ?k) = buf ! x"
      using takeWhile_nth [of "x - ?k" in_line "drop ?k buf"] that k n by simp
    moreover have "?v ! (x - ?k) \<in> set ?v"
      using that by (intro nth_mem) simp
    ultimately show ?thesis
      using set_takeWhileD [of "buf ! x" in_line "drop ?k buf"] by simp
  qed
  then show ?thesis
    unfolding r using k n by (auto simp: nth_append min_def not_less)
qed (simp add: redact_header_line_def)

text \<open>Redacting all sensitive headers keeps the message's length and every line break, and each byte is
  either unchanged or an asterisk: nothing else is ever written into the buffer.\<close>

theorem redact_headers_safe:
  "length (redact_headers buf) = length buf \<and>
    (\<forall>i < length buf. redact_headers buf ! i = buf ! i \<or> (redact_headers buf ! i = 42 \<and> in_line (buf ! i)))"
proof -
  let ?a = "redact_header_line buf (bstr ''authorization:'')"
  let ?b = "redact_header_line ?a (bstr ''cookie:'')"
  have "redact_headers buf = redact_header_line ?b (bstr ''set-cookie:'')"
    by (simp add: redact_headers_def)
  then show ?thesis
    using redact_header_line_safe [of buf "bstr ''authorization:''"]
      redact_header_line_safe [of ?a "bstr ''cookie:''"] redact_header_line_safe [of ?b "bstr ''set-cookie:''"]
    by metis
qed

theorem redact_headers_safe_witness:
  "length (redact_headers (bstr ''Cookie: a'')) = 9 \<and>
    (redact_headers (bstr ''Cookie: a'') ! 8 = bstr ''Cookie: a'' ! 8 \<or> redact_headers (bstr ''Cookie: a'') ! 8 = 42)"
  using redact_headers_safe [of "bstr ''Cookie: a''"] by (auto simp: eval_nat_numeral)

definition demo_cookies :: bytes where
  "demo_cookies = bstr ''Cookie: a'' @ [13, 10] @ bstr ''Cookie: b'' @ [13, 10]"

text \<open>An example: only the first line of each header is masked, and a second \<open>Cookie\<close> line keeps its value.\<close>

theorem redact_second_cookie_kept:
  "redact_headers demo_cookies = bstr ''Cookie: *'' @ [13, 10] @ bstr ''Cookie: b'' @ [13, 10]"
  by code_simp

section \<open>Parsed exchanges\<close>

lemma set_join: "set (join sep ss) \<subseteq> set sep \<union> \<Union> (set ` set ss)"
  by (induction sep ss rule: join.induct) auto

lemma set_split_on: "seg \<in> set (split_on c s) \<Longrightarrow> set seg \<subseteq> set s"
proof (induction s arbitrary: seg)
  case (Cons x s)
  obtain u us where "split_on c s = u # us"
    by (cases "split_on c s") auto
  then show ?case
    using Cons by (fastforce split: if_splits)
qed simp

lemma set_normalize: "set (normalize_path p) \<subseteq> set p \<union> set ''/:id''"
proof (cases "p = []")
  case False
  have "set (norm_seg seg) \<subseteq> set p \<union> set '':id''" if "seg \<in> set (split_on CHR ''/'' p)" for seg
    using set_split_on [OF that] by (auto simp: norm_seg_def)
  then have "set (join ''/'' (map norm_seg (split_on CHR ''/'' p))) \<subseteq> set p \<union> set ''/:id''"
    using set_join [of "''/''" "map norm_seg (split_on CHR ''/'' p)"] by fastforce
  then show ?thesis
    using False by (simp add: normalize_path_alt)
qed (simp add: normalize_path_def)

text \<open>A parsed exchange has a path without query string, already normalised, the protocol \<open>http\<close>, the
  status of the response and the saturating difference of the two timestamps as its latency.\<close>

theorem parse_exchange_fields:
  assumes "parse_exchange parse_req parse_resp ex = Some p"
  shows "ep_protocol (px_endpoint p) = ''http'' \<and> CHR ''?'' \<notin> set (ep_path (px_endpoint p)) \<and>
    ep_path (px_endpoint p) \<noteq> [] \<and> normalize_path (ep_path (px_endpoint p)) = ep_path (px_endpoint p) \<and>
    parse_resp (ex_resp_prefix ex) = Some (Some (px_status p)) \<and>
    unat (px_latency_ns p) = unat (ex_t_end_ns ex) - unat (ex_t_start_ns ex) \<and> px_wire_ns p = None"
proof -
  obtain verb path_raw status where p: "parse_resp (ex_resp_prefix ex) = Some (Some status)"
    "p = \<lparr>px_endpoint = HttpEndpoint_http verb (normalize_path (hd (split_on CHR ''?'' path_raw))),
      px_status = status, px_latency_ns = Exchange_latency_ns ex, px_wire_ns = None\<rparr>"
    using assms by (auto simp: parse_exchange_def Let_def split: option.splits)
  have "CHR ''?'' \<notin> set (hd (split_on CHR ''?'' path_raw))"
    by (rule split_on_no_sep) (rule hd_in_set, simp)
  then have "CHR ''?'' \<notin> set (normalize_path (hd (split_on CHR ''?'' path_raw)))"
    using set_normalize [of "hd (split_on CHR ''?'' path_raw)"] by auto
  then show ?thesis
    using p by (simp add: HttpEndpoint_http_def Exchange_latency_ns_def normalize_path_facts)
qed

definition demo_exchange :: Exchange where
  "demo_exchange = \<lparr>ex_tgid = 10, ex_fd = 7, ex_req_prefix = bstr ''GET /u/7?x HTTP/1.1'',
    ex_resp_prefix = bstr ''HTTP/1.1 200 OK'', ex_t_start_ns = 10, ex_t_end_ns = 25, ex_peer = None,
    ex_req_is_write = True, ex_cgroup_id = 0\<rparr>"

text \<open>A request parser that takes the second word as the path, a response parser that reads 200.\<close>

definition demo_parse_req :: "bytes \<Rightarrow> (string option \<times> string option) option" where
  "demo_parse_req b = (case split_on CHR '' '' (str_of_bytes b) of m # p # _ \<Rightarrow> Some (Some m, Some p) | _ \<Rightarrow> None)"

definition demo_parse_resp :: "bytes \<Rightarrow> u16 option option" where
  "demo_parse_resp b = (if starts_with b (bstr ''HTTP/1.1 200'') then Some (Some 200) else None)"

theorem parse_exchange_fields_witness:
  "\<exists>p. parse_exchange demo_parse_req demo_parse_resp demo_exchange = Some p \<and>
    CHR ''?'' \<notin> set (ep_path (px_endpoint p)) \<and> unat (px_latency_ns p) = 15"
proof -
  have "parse_exchange demo_parse_req demo_parse_resp demo_exchange \<noteq> None"
    by (simp add: parse_exchange_def demo_parse_req_def demo_parse_resp_def demo_exchange_def str_of_bytes_bstr)
      (simp add: bstr_def)
  then obtain p where "parse_exchange demo_parse_req demo_parse_resp demo_exchange = Some p"
    by blast
  then show ?thesis
    using parse_exchange_fields by (fastforce simp: demo_exchange_def)
qed

end
