(* ===== verification/Agg.thy ===== *)
theory Agg
  imports Complex_Main Http
begin

text \<open>
  Rolling aggregates: TCP latencies per remote endpoint (\<open>src/agent/src/agg.rs\<close>) and HTTP endpoints
  (\<open>src/agent/src/http_agg.rs\<close>). Both keep a queue of stamped samples per key and report the last 60 s;
  the interface \<open>windowed_aggregate\<close> states what they share. The crate \<open>hdrhistogram\<close> is a parameter: the
  value at a quantile (in percent) of the values recorded. Floating-point fields are exact rationals here;
  rounding is not modelled.
\<close>

section \<open>The shared contract\<close>

locale windowed_aggregate = rolling_window stamp window prune
  for stamp :: "'a \<Rightarrow> instant" and window :: nat and prune :: "instant \<Rightarrow> 'a list \<Rightarrow> 'a list" +
  fixes queue :: "'s \<Rightarrow> 'k \<Rightarrow> 'a list"
    and key :: "'e \<Rightarrow> 'k option"
    and sample :: "'e \<Rightarrow> instant \<Rightarrow> 'a"
    and rec :: "'e \<Rightarrow> instant \<Rightarrow> 's \<Rightarrow> 's"
  assumes queue_rec: "queue (rec e now s) k =
      (if key e = Some k then prune now (queue s k @ [sample e now]) else queue s k)"
    and stamp_sample: "stamp (sample e now) = now"
begin

abbreviation run :: "'s \<Rightarrow> ('e \<times> instant) list \<Rightarrow> 's" where
  "run \<equiv> foldl (\<lambda>s et. rec (fst et) (snd et) s)"

lemma queue_sorted:
  "queue s k = [] \<Longrightarrow> sorted (map snd h) \<Longrightarrow> sorted (map stamp (queue (run s h) k)) \<and>
    (\<forall>x \<in> set (queue (run s h) k). \<exists>t \<in> set (map snd h). stamp x = t)"
proof (induction h rule: rev_induct)
  case (snoc et h)
  let ?q = "queue (run s h) k"
  have q: "sorted (map stamp ?q)" "\<forall>x \<in> set ?q. \<exists>t \<in> set (map snd h). stamp x = t"
    using snoc by (auto simp: sorted_append)
  have "\<forall>x \<in> set ?q. stamp x \<le> snd et"
    using q(2) snoc.prems(2) by (fastforce simp: sorted_append)
  then have "sorted (map stamp (?q @ [sample (fst et) (snd et)]))"
    using push_sorted [OF q(1), of "sample (fst et) (snd et)"] by (simp add: stamp_sample)
  then have "sorted (map stamp (prune (snd et) (?q @ [sample (fst et) (snd et)])))"
    by (rule prune_sorted)
  moreover have "set (prune (snd et) (?q @ [sample (fst et) (snd et)])) \<subseteq> insert (sample (fst et) (snd et)) (set ?q)"
    using prune_subset [of "snd et" "?q @ [sample (fst et) (snd et)]"] by auto
  ultimately show ?case
    using q by (auto simp: queue_rec stamp_sample)
qed simp

lemma window_exact:
  "queue s k = [] \<Longrightarrow> sorted (map snd h @ [now]) \<Longrightarrow>
    filter (\<lambda>x. now - stamp x \<le> window) (queue (run s h) k) =
    map (\<lambda>et. sample (fst et) (snd et)) (filter (\<lambda>et. key (fst et) = Some k \<and> now - snd et \<le> window) h)"
proof (induction h rule: rev_induct)
  case (snoc et h)
  have "snd et \<le> now"
    using snoc.prems(2) by (simp add: sorted_append)
  then show ?case
    using snoc by (simp add: queue_rec sorted_append stamp_sample prune_filter)
qed simp

lemma prune_exact:
  "queue s k = [] \<Longrightarrow> sorted (map snd h @ [now]) \<Longrightarrow> prune now (queue (run s h) k) =
    map (\<lambda>et. sample (fst et) (snd et)) (filter (\<lambda>et. key (fst et) = Some k \<and> now - snd et \<le> window) h)"
  using window_exact [of s k h now] prune_is_filter [of "queue (run s h) k" now] queue_sorted [of s k h]
  by (simp add: sorted_append)

end

section \<open>TCP endpoints\<close>

definition WINDOW :: nat where "WINDOW = secs 60"

record EndpointKey =
  ek_daddr_be :: u32
  ek_dport_be :: u16
  ek_kind :: EventKind

definition EndpointKey_from_event :: "SockLatencyEvent \<Rightarrow> EndpointKey option" where
  "EndpointKey_from_event ev =
    (case EventKind_from_u8 (sl_kind ev) of None \<Rightarrow> None
     | Some kind \<Rightarrow> Some \<lparr>ek_daddr_be = sl_daddr_be ev, ek_dport_be = sl_dport_be ev, ek_kind = kind\<rparr>)"

text \<open>\<open>Ipv4Addr\<close> printed from its four bytes, and \<open>u16::from_be\<close>.\<close>

definition show_ipv4 :: "bytes \<Rightarrow> string" where
  "show_ipv4 bs = join ''.'' (map (\<lambda>b. show_nat (unat b)) bs)"

definition u16_from_be :: "u16 \<Rightarrow> u16" where
  "u16_from_be p = from_le (rev (le_bytes 2 p))"

definition EndpointKey_label :: "EndpointKey \<Rightarrow> string" where
  "EndpointKey_label k =
    (let ip = show_ipv4 (le_bytes 4 (ek_daddr_be k));
         port = show_nat (unat (u16_from_be (ek_dport_be k)));
         dir = (case ek_kind k of Connect \<Rightarrow> ''connect'' | Accept \<Rightarrow> ''accept''
                | SockIo \<Rightarrow> ''sockio'' | TlsIo \<Rightarrow> ''sockio'' | SockIoTimes \<Rightarrow> ''sockio''
                | TlsHandshake \<Rightarrow> ''sockio'' | StackSample \<Rightarrow> ''profile'')
     in ip @ '':'' @ port @ '' '' @ dir)"

record Sample =
  sa_at :: instant
  sa_latency_ns :: u64
  sa_is_error :: bool

record EndpointStats =
  es_samples :: "Sample list"

definition EndpointStats_default :: EndpointStats where
  "EndpointStats_default = \<lparr>es_samples = []\<rparr>"

text \<open>The pruning loop pops the front while it is too old.\<close>

fun prune_samples :: "instant \<Rightarrow> Sample list \<Rightarrow> Sample list" where
  "prune_samples now [] = []"
| "prune_samples now (s # q) = (if now - sa_at s > WINDOW then prune_samples now q else s # q)"

definition EndpointStats_prune :: "instant \<Rightarrow> EndpointStats \<Rightarrow> EndpointStats" where
  "EndpointStats_prune now st = st\<lparr>es_samples := prune_samples now (es_samples st)\<rparr>"

definition EndpointStats_push :: "instant \<Rightarrow> u64 \<Rightarrow> bool \<Rightarrow> EndpointStats \<Rightarrow> EndpointStats" where
  "EndpointStats_push now latency_ns is_error st =
    EndpointStats_prune now (st\<lparr>es_samples := es_samples st @
      [\<lparr>sa_at = now, sa_latency_ns = latency_ns, sa_is_error = is_error\<rparr>]\<rparr>)"

record RowSnapshot =
  rs_count :: nat
  rs_errors :: nat
  rs_p50_ns :: u64
  rs_p95_ns :: u64
  rs_p99_ns :: u64

type_synonym quantile_fn = "u64 list \<Rightarrow> nat \<Rightarrow> u64"

definition percentiles_ns :: "quantile_fn \<Rightarrow> u64 list \<Rightarrow> u64 \<times> u64 \<times> u64" where
  "percentiles_ns hdr latencies =
    (let h = map (\<lambda>v. max v 1) latencies
     in if latencies = [] then (0, 0, 0) else (hdr h 50, hdr h 95, hdr h 99))"

definition EndpointStats_snapshot :: "quantile_fn \<Rightarrow> EndpointStats \<Rightarrow> instant \<Rightarrow> RowSnapshot" where
  "EndpointStats_snapshot hdr st now =
    (let samples = prune_samples now (es_samples st);
         count = length samples;
         errors = length (filter sa_is_error samples)
     in case percentiles_ns hdr (map sa_latency_ns samples) of (p50, p95, p99) \<Rightarrow>
       \<lparr>rs_count = count, rs_errors = errors, rs_p50_ns = p50, rs_p95_ns = p95, rs_p99_ns = p99\<rparr>)"

record Aggregator =
  ag_by_endpoint :: "(EndpointKey, EndpointStats) hashmap"

definition Aggregator_default :: Aggregator where
  "Aggregator_default = \<lparr>ag_by_endpoint = []\<rparr>"

definition is_syscall_error :: "i64 \<Rightarrow> bool" where
  "is_syscall_error ret \<longleftrightarrow> is_neg ret"

definition Aggregator_record :: "SockLatencyEvent \<Rightarrow> instant \<Rightarrow> Aggregator \<Rightarrow> Aggregator" where
  "Aggregator_record ev now a =
    (case EndpointKey_from_event ev of None \<Rightarrow> a
     | Some key \<Rightarrow> a\<lparr>ag_by_endpoint := hm_entry key EndpointStats_default
         (EndpointStats_push now (sl_latency_ns ev) (is_syscall_error (sl_ret ev))) (ag_by_endpoint a)\<rparr>)"

text \<open>\<open>sort_by\<close> with the comparison reversed is a stable sort by decreasing count.\<close>

definition sort_desc :: "('a \<Rightarrow> nat) \<Rightarrow> 'a list \<Rightarrow> 'a list" where
  "sort_desc f xs = sort_key (\<lambda>x. - int (f x)) xs"

definition Aggregator_rows :: "quantile_fn \<Rightarrow> instant \<Rightarrow> Aggregator \<Rightarrow> (EndpointKey \<times> RowSnapshot) list" where
  "Aggregator_rows hdr now a =
    sort_desc (\<lambda>kr. rs_count (snd kr))
      (filter (\<lambda>kr. rs_count (snd kr) > 0)
        (map (\<lambda>(k, s). (k, EndpointStats_snapshot hdr s now)) (ag_by_endpoint a)))"

definition agg_queue :: "Aggregator \<Rightarrow> EndpointKey \<Rightarrow> Sample list" where
  "agg_queue a k = (case hm_get (ag_by_endpoint a) k of None \<Rightarrow> [] | Some st \<Rightarrow> es_samples st)"

definition agg_sample :: "SockLatencyEvent \<Rightarrow> instant \<Rightarrow> Sample" where
  "agg_sample ev now =
    \<lparr>sa_at = now, sa_latency_ns = sl_latency_ns ev, sa_is_error = is_syscall_error (sl_ret ev)\<rparr>"

lemma prune_samples_dropWhile: "prune_samples now q = dropWhile (\<lambda>s. now - sa_at s > WINDOW) q"
  by (induction q) auto

interpretation agg: windowed_aggregate sa_at WINDOW prune_samples agg_queue EndpointKey_from_event
  agg_sample Aggregator_record
proof
  fix ev now a k
  show "agg_queue (Aggregator_record ev now a) k =
      (if EndpointKey_from_event ev = Some k then prune_samples now (agg_queue a k @ [agg_sample ev now])
       else agg_queue a k)"
    by (auto simp: agg_queue_def Aggregator_record_def EndpointStats_push_def EndpointStats_prune_def
        EndpointStats_default_def agg_sample_def split: option.split)
qed (simp_all add: prune_samples_dropWhile agg_sample_def)

lemma agg_wf: "hm_wf (ag_by_endpoint a) \<Longrightarrow> hm_wf (ag_by_endpoint (agg.run a h))"
  by (induction h rule: rev_induct) (simp_all add: Aggregator_record_def split: option.split)

text \<open>Only a pruned row can lack a key, and a stored queue is never empty right after its push.\<close>

lemma sort_desc_set [simp]: "set (sort_desc f xs) = set xs"
  by (simp add: sort_desc_def)

lemma sort_desc_sorted: "sorted_wrt (\<lambda>a b. f b \<le> f a) (sort_desc f xs)"
proof -
  have "sorted_wrt (\<lambda>a b. - int (f a) \<le> - int (f b)) (sort_desc f xs)"
    using sorted_sort_key [of "\<lambda>x. - int (f x)" xs] unfolding sort_desc_def sorted_map .
  then show ?thesis
    by (simp add: sorted_wrt_iff_nth_less)
qed

lemma rows_in:
  assumes "hm_wf m"
  shows "(k, r) \<in> set (filter (\<lambda>kr. cnt (snd kr) > 0) (map (\<lambda>(k, s). (k, snap s)) m)) \<longleftrightarrow>
    (\<exists>s. hm_get m k = Some s \<and> r = snap s \<and> 0 < cnt r)"
  using assms by (auto simp: image_iff hm_in_set_get intro!: bexI [of _ "(k, _)"])

text \<open>C20. The TCP table reports exactly the last 60 s: after any history of events with non-decreasing clock a
  key has a row if and only if at least one of its events is at most 60 s old, and the row counts those
  events and the failed ones among them and takes the percentiles of their latencies; rows come in order of
  decreasing count.\<close>

theorem aggregator_rows_exact:
  assumes "sorted (map snd h @ [now])"
    and "recent = filter (\<lambda>et. EndpointKey_from_event (fst et) = Some k \<and> now - snd et \<le> WINDOW) h"
    and "rows = Aggregator_rows hdr now (foldl (\<lambda>a et. Aggregator_record (fst et) (snd et) a) Aggregator_default h)"
  shows "sorted_wrt (\<lambda>a b. rs_count (snd b) \<le> rs_count (snd a)) rows \<and>
    ((k, r) \<in> set rows \<longleftrightarrow> recent \<noteq> [] \<and>
      rs_count r = length recent \<and> rs_errors r = length (filter (\<lambda>et. is_neg (sl_ret (fst et))) recent) \<and>
      (rs_p50_ns r, rs_p95_ns r, rs_p99_ns r) = percentiles_ns hdr (map (\<lambda>et. sl_latency_ns (fst et)) recent))"
proof -
  let ?a = "agg.run Aggregator_default h"
  have w: "hm_wf (ag_by_endpoint ?a)"
    by (rule agg_wf) (simp add: Aggregator_default_def)
  have q: "prune_samples now (agg_queue ?a k) = map (\<lambda>et. agg_sample (fst et) (snd et)) recent"
    using agg.prune_exact [OF _ assms(1), of Aggregator_default k]
    by (simp add: assms(2) agg_queue_def Aggregator_default_def)
  have in_rows: "(k, r) \<in> set rows \<longleftrightarrow> (\<exists>st. hm_get (ag_by_endpoint ?a) k = Some st \<and>
      r = EndpointStats_snapshot hdr st now \<and> 0 < rs_count r)"
    unfolding assms(3) Aggregator_rows_def sort_desc_set using rows_in [OF w, of k r rs_count] by simp
  have snap: "EndpointStats_snapshot hdr st now = \<lparr>rs_count = length recent,
      rs_errors = length (filter (\<lambda>et. is_neg (sl_ret (fst et))) recent),
      rs_p50_ns = fst (percentiles_ns hdr (map (\<lambda>et. sl_latency_ns (fst et)) recent)),
      rs_p95_ns = fst (snd (percentiles_ns hdr (map (\<lambda>et. sl_latency_ns (fst et)) recent))),
      rs_p99_ns = snd (snd (percentiles_ns hdr (map (\<lambda>et. sl_latency_ns (fst et)) recent)))\<rparr>"
    if "hm_get (ag_by_endpoint ?a) k = Some st" for st
    using q that by (simp add: EndpointStats_snapshot_def agg_queue_def agg_sample_def Let_def comp_def
        filter_map is_syscall_error_def case_prod_unfold)
  have "hm_get (ag_by_endpoint ?a) k \<noteq> None" if "recent \<noteq> []"
    using q that by (auto simp: agg_queue_def split: option.splits)
  then have "(k, r) \<in> set rows \<longleftrightarrow> recent \<noteq> [] \<and> r = \<lparr>rs_count = length recent,
      rs_errors = length (filter (\<lambda>et. is_neg (sl_ret (fst et))) recent),
      rs_p50_ns = fst (percentiles_ns hdr (map (\<lambda>et. sl_latency_ns (fst et)) recent)),
      rs_p95_ns = fst (snd (percentiles_ns hdr (map (\<lambda>et. sl_latency_ns (fst et)) recent))),
      rs_p99_ns = snd (snd (percentiles_ns hdr (map (\<lambda>et. sl_latency_ns (fst et)) recent)))\<rparr>"
    unfolding in_rows using snap by auto
  moreover have "sorted_wrt (\<lambda>a b. rs_count (snd b) \<le> rs_count (snd a)) rows"
    unfolding assms(3) Aggregator_rows_def by (rule sort_desc_sorted)
  ultimately show ?thesis
    by (cases r) (auto simp: prod_eq_iff)
qed

definition demo_latency :: SockLatencyEvent where
  "demo_latency = \<lparr>sl_kind = 1, sl_pad0 = replicate 3 0, sl_pid = 11, sl_tgid = 10, sl_ret = - 1,
    sl_latency_ns = 500, sl_ts_ns = 1000, sl_daddr_be = 0x0100007F, sl_dport_be = 0x5000, sl_pad1 = 0\<rparr>"

theorem aggregator_rows_exact_witness:
  "(\<lparr>ek_daddr_be = 0x0100007F, ek_dport_be = 0x5000, ek_kind = Connect\<rparr>,
     \<lparr>rs_count = 1, rs_errors = 1, rs_p50_ns = 500, rs_p95_ns = 500, rs_p99_ns = 500\<rparr>)
   \<in> set (Aggregator_rows (\<lambda>l q. hd l) 9 (Aggregator_record demo_latency 5 Aggregator_default))"
proof -
  have "EndpointKey_from_event demo_latency = Some \<lparr>ek_daddr_be = 0x0100007F, ek_dport_be = 0x5000, ek_kind = Connect\<rparr>"
    by (simp add: EndpointKey_from_event_def demo_latency_def EventKind_from_u8_def)
  moreover have "is_neg (sl_ret demo_latency)" "sl_latency_ns demo_latency = 500"
    by (simp_all add: demo_latency_def)
  moreover have "max (500 :: u64) 1 = 500"
    by (simp add: max_def word_le_nat_alt)
  ultimately show ?thesis
    using aggregator_rows_exact [of "[(demo_latency, 5)]" 9 "[(demo_latency, 5)]"
        "\<lparr>ek_daddr_be = 0x0100007F, ek_dport_be = 0x5000, ek_kind = Connect\<rparr>" _ "\<lambda>l q. hd l"
        "\<lparr>rs_count = 1, rs_errors = 1, rs_p50_ns = 500, rs_p95_ns = 500, rs_p99_ns = 500\<rparr>"]
    by (simp add: WINDOW_def secs_def percentiles_ns_def)
qed

section \<open>HTTP endpoints\<close>

definition HTTP_WINDOW :: nat where "HTTP_WINDOW = secs 60"

record HttpSample =
  hp_at :: instant
  hp_latency_ns :: u64
  hp_wire_ns :: "u64 option"
  hp_status :: u16

record HttpEndpointStats =
  he_samples :: "HttpSample list"

record HttpRow =
  hw_count :: nat
  hw_rate_per_s :: rat
  hw_p50_ns :: u64
  hw_p95_ns :: u64
  hw_p99_ns :: u64
  hw_wire_p50_ns :: "u64 option"
  hw_pct_4xx :: rat
  hw_pct_5xx :: rat

record HttpAggregator =
  ha_endpoints :: "(HttpEndpoint, HttpEndpointStats) hashmap"

definition HttpAggregator_default :: HttpAggregator where
  "HttpAggregator_default = \<lparr>ha_endpoints = []\<rparr>"

fun http_prune :: "instant \<Rightarrow> HttpSample list \<Rightarrow> HttpSample list" where
  "http_prune now [] = []"
| "http_prune now (s # q) = (if now - hp_at s > HTTP_WINDOW then http_prune now q else s # q)"

definition HttpAggregator_record :: "ParsedExchange \<Rightarrow> instant \<Rightarrow> HttpAggregator \<Rightarrow> HttpAggregator" where
  "HttpAggregator_record parsed now a =
    a\<lparr>ha_endpoints := hm_entry (px_endpoint parsed) \<lparr>he_samples = []\<rparr>
      (\<lambda>stats. stats\<lparr>he_samples := http_prune now (he_samples stats @
         [\<lparr>hp_at = now, hp_latency_ns = px_latency_ns parsed, hp_wire_ns = px_wire_ns parsed,
           hp_status = px_status parsed\<rparr>])\<rparr>) (ha_endpoints a)\<rparr>"

text \<open>The loop over the windowed samples: latencies and wire latencies recorded, 4xx and 5xx counted.\<close>

fun http_tally :: "HttpSample list \<Rightarrow> u64 list \<times> u64 list \<times> nat \<times> nat \<Rightarrow> u64 list \<times> u64 list \<times> nat \<times> nat" where
  "http_tally [] acc = acc"
| "http_tally (s # ss) (hist, wire, n4, n5) =
    (let hist = hist @ [max (hp_latency_ns s) 1];
         wire = (case hp_wire_ns s of None \<Rightarrow> wire | Some w \<Rightarrow> wire @ [max w 1])
     in if 400 \<le> hp_status s \<and> hp_status s < 500 then http_tally ss (hist, wire, n4 + 1, n5)
        else if 500 \<le> hp_status s \<and> hp_status s < 600 then http_tally ss (hist, wire, n4, n5 + 1)
        else http_tally ss (hist, wire, n4, n5))"

definition HttpEndpointStats_snapshot :: "quantile_fn \<Rightarrow> HttpEndpointStats \<Rightarrow> instant \<Rightarrow> HttpRow" where
  "HttpEndpointStats_snapshot hdr st now =
    (let samples = filter (\<lambda>s. now - hp_at s \<le> HTTP_WINDOW) (he_samples st);
         count = length samples
     in if count = 0
        then \<lparr>hw_count = 0, hw_rate_per_s = 0, hw_p50_ns = 0, hw_p95_ns = 0, hw_p99_ns = 0,
              hw_wire_p50_ns = None, hw_pct_4xx = 0, hw_pct_5xx = 0\<rparr>
        else case http_tally samples ([], [], 0, 0) of (hist, wire, n4, n5) \<Rightarrow>
          \<lparr>hw_count = count, hw_rate_per_s = of_nat count / of_nat 60,
           hw_p50_ns = hdr hist 50, hw_p95_ns = hdr hist 95, hw_p99_ns = hdr hist 99,
           hw_wire_p50_ns = (if wire = [] then None else Some (hdr wire 50)),
           hw_pct_4xx = of_nat n4 * 100 / of_nat count, hw_pct_5xx = of_nat n5 * 100 / of_nat count\<rparr>)"

definition HttpAggregator_rows :: "quantile_fn \<Rightarrow> instant \<Rightarrow> HttpAggregator \<Rightarrow> (HttpEndpoint \<times> HttpRow) list" where
  "HttpAggregator_rows hdr now a =
    sort_desc (\<lambda>kr. hw_count (snd kr))
      (List.map_filter (\<lambda>(k, s). let row = HttpEndpointStats_snapshot hdr s now in
         if hw_count row = 0 then None else Some (k, row)) (ha_endpoints a))"

definition http_queue :: "HttpAggregator \<Rightarrow> HttpEndpoint \<Rightarrow> HttpSample list" where
  "http_queue a k = (case hm_get (ha_endpoints a) k of None \<Rightarrow> [] | Some st \<Rightarrow> he_samples st)"

definition http_sample :: "ParsedExchange \<Rightarrow> instant \<Rightarrow> HttpSample" where
  "http_sample p now = \<lparr>hp_at = now, hp_latency_ns = px_latency_ns p, hp_wire_ns = px_wire_ns p,
    hp_status = px_status p\<rparr>"

lemma http_prune_dropWhile: "http_prune now q = dropWhile (\<lambda>s. now - hp_at s > HTTP_WINDOW) q"
  by (induction q) auto

interpretation http_agg: windowed_aggregate hp_at HTTP_WINDOW http_prune http_queue "\<lambda>p. Some (px_endpoint p)"
  http_sample HttpAggregator_record
proof
  fix p now a k
  show "http_queue (HttpAggregator_record p now a) k =
      (if Some (px_endpoint p) = Some k then http_prune now (http_queue a k @ [http_sample p now]) else http_queue a k)"
    by (auto simp: http_queue_def HttpAggregator_record_def http_sample_def split: option.split)
qed (simp_all add: http_prune_dropWhile http_sample_def)

lemma http_agg_wf: "hm_wf (ha_endpoints a) \<Longrightarrow> hm_wf (ha_endpoints (http_agg.run a h))"
  by (induction h rule: rev_induct) (simp_all add: HttpAggregator_record_def)

lemma http_tally_eq:
  "http_tally ss (hist, wire, n4, n5) =
    (hist @ map (\<lambda>s. max (hp_latency_ns s) 1) ss,
     wire @ map (\<lambda>w. max w 1) (List.map_filter hp_wire_ns ss),
     n4 + length (filter (\<lambda>s. 400 \<le> hp_status s \<and> hp_status s < 500) ss),
     n5 + length (filter (\<lambda>s. 500 \<le> hp_status s \<and> hp_status s < 600) ss))"
proof (induction ss arbitrary: hist wire n4 n5)
  case (Cons s ss)
  have "\<not> (400 \<le> hp_status s \<and> hp_status s < 500 \<and> 500 \<le> hp_status s)"
    by auto
  then show ?case
    by (cases "hp_wire_ns s") (auto simp: Cons Let_def map_filter_simps)
qed (simp add: map_filter_simps)

lemma http_rows_in:
  assumes "hm_wf m"
  shows "(k, r) \<in> set (List.map_filter (\<lambda>(k, s). let row = snap s in if cnt row = (0 :: nat) then None else Some (k, row)) m)
    \<longleftrightarrow> (\<exists>s. hm_get m k = Some s \<and> r = snap s \<and> 0 < cnt r)"
  using assms
  by (auto simp: map_filter_def Let_def image_iff hm_in_set_get split: if_splits intro!: bexI [of _ "(k, _)"])

definition http_row :: "quantile_fn \<Rightarrow> ParsedExchange list \<Rightarrow> HttpRow" where
  "http_row hdr ps =
    (let n = length ps; lat = map (\<lambda>p. max (px_latency_ns p) 1) ps;
         wire = map (\<lambda>w. max w 1) (List.map_filter px_wire_ns ps);
         pct = (\<lambda>lo hi. of_nat (length (filter (\<lambda>p. lo \<le> px_status p \<and> px_status p < hi) ps)) * 100 / of_nat n)
     in \<lparr>hw_count = n, hw_rate_per_s = of_nat n / 60, hw_p50_ns = hdr lat 50, hw_p95_ns = hdr lat 95,
         hw_p99_ns = hdr lat 99, hw_wire_p50_ns = (if wire = [] then None else Some (hdr wire 50)),
         hw_pct_4xx = pct 400 500, hw_pct_5xx = pct 500 600\<rparr>)"

lemma http_snapshot_row:
  assumes "filter (\<lambda>s. now - hp_at s \<le> HTTP_WINDOW) (he_samples st) = map (\<lambda>et. http_sample (fst et) (snd et)) es"
    and "es \<noteq> []"
  shows "HttpEndpointStats_snapshot hdr st now = http_row hdr (map fst es)"
  using assms
  by (simp add: HttpEndpointStats_snapshot_def http_row_def http_tally_eq Let_def http_sample_def comp_def
      filter_map map_filter_def)

text \<open>C21. The HTTP table reports exactly the last 60 s: an endpoint has a row if and only if one of its exchanges
  is at most 60 s old, and then its rate, its percentiles, its wire median and its shares of 4xx and 5xx
  answers are those of exactly these exchanges.\<close>

theorem http_rows_exact:
  assumes "sorted (map snd h @ [now])"
    and "recent = map fst (filter (\<lambda>et. px_endpoint (fst et) = k \<and> now - snd et \<le> HTTP_WINDOW) h)"
  shows "(k, r) \<in> set (HttpAggregator_rows hdr now
      (foldl (\<lambda>a et. HttpAggregator_record (fst et) (snd et) a) HttpAggregator_default h)) \<longleftrightarrow>
    recent \<noteq> [] \<and> r = http_row hdr recent"
proof -
  let ?a = "http_agg.run HttpAggregator_default h"
  let ?es = "filter (\<lambda>et. px_endpoint (fst et) = k \<and> now - snd et \<le> HTTP_WINDOW) h"
  have w: "hm_wf (ha_endpoints ?a)"
    by (rule http_agg_wf) (simp add: HttpAggregator_default_def)
  have q: "filter (\<lambda>s. now - hp_at s \<le> HTTP_WINDOW) (http_queue ?a k) = map (\<lambda>et. http_sample (fst et) (snd et)) ?es"
    using http_agg.window_exact [OF _ assms(1), of HttpAggregator_default k]
    by (simp add: http_queue_def HttpAggregator_default_def)
  have in_rows: "(k, r) \<in> set (HttpAggregator_rows hdr now ?a) \<longleftrightarrow> (\<exists>st. hm_get (ha_endpoints ?a) k = Some st \<and>
      r = HttpEndpointStats_snapshot hdr st now \<and> 0 < hw_count r)"
    unfolding HttpAggregator_rows_def sort_desc_set by (rule http_rows_in [OF w])
  show ?thesis
  proof (cases "?es = []")
    case True
    then have "hw_count (HttpEndpointStats_snapshot hdr st now) = 0" if "hm_get (ha_endpoints ?a) k = Some st" for st
      using q that by (simp add: HttpEndpointStats_snapshot_def http_queue_def)
    then show ?thesis
      unfolding in_rows assms(2) using True by auto
  next
    case False
    then obtain st where st: "hm_get (ha_endpoints ?a) k = Some st"
      using q by (cases "hm_get (ha_endpoints ?a) k") (auto simp: http_queue_def)
    then have "HttpEndpointStats_snapshot hdr st now = http_row hdr recent"
      using q False unfolding assms(2) by (intro http_snapshot_row) (simp_all add: http_queue_def)
    moreover have "0 < hw_count (http_row hdr recent)"
      using False by (simp add: http_row_def assms(2) Let_def del: filter_empty_conv filter_False)
    ultimately show ?thesis
      unfolding in_rows using st False by (auto simp: assms(2) simp del: filter_empty_conv filter_False)
  qed
qed

definition demo_parsed :: "u16 \<Rightarrow> ParsedExchange" where
  "demo_parsed status = \<lparr>px_endpoint = HttpEndpoint_http ''GET'' ''/'', px_status = status,
    px_latency_ns = 7, px_wire_ns = None\<rparr>"

theorem http_rows_exact_witness:
  "\<exists>r. (HttpEndpoint_http ''GET'' ''/'', r) \<in> set (HttpAggregator_rows (\<lambda>l q. hd l) 9
      (HttpAggregator_record (demo_parsed 503) 6 (HttpAggregator_record (demo_parsed 200) 5 HttpAggregator_default))) \<and>
    hw_count r = 2 \<and> hw_pct_5xx r = 50"
proof -
  have "http_row (\<lambda>l q. hd l) [demo_parsed 200, demo_parsed 503] = r \<Longrightarrow> hw_count r = 2 \<and> hw_pct_5xx r = 50" for r
    by (auto simp: http_row_def Let_def demo_parsed_def)
  moreover have "px_endpoint (demo_parsed s) = HttpEndpoint_http ''GET'' ''/''" for s
    by (simp add: demo_parsed_def)
  ultimately show ?thesis
    using http_rows_exact [of "[(demo_parsed 200, 5), (demo_parsed 503, 6)]" 9 "[demo_parsed 200, demo_parsed 503]"
        "HttpEndpoint_http ''GET'' ''/''" _ "\<lambda>l q. hd l"]
    by (simp add: HTTP_WINDOW_def secs_def)
qed

end
