(* ===== verification/Reassemble.thy ===== *)
theory Reassemble
  imports Correlate
begin

text \<open>
  HTTP/1.1 header reassembly (\<open>src/agent/src/reassemble.rs\<close>): one buffer per process, descriptor and
  direction, filled until the header terminator or the cap, then handed on as one synthetic event.
\<close>

section \<open>Model\<close>

definition CAP :: nat where "CAP = 8 * 1024"

record Key =
  ky_tgid :: u32
  ky_fd :: i32
  ky_dir :: u8

record Buf =
  bf_bytes :: bytes
  bf_first_ts :: u64
  bf_last_ts :: u64
  bf_at :: instant
  bf_pid :: u32
  bf_kind :: u8

record Reassembler =
  rs_bufs :: "(Key, Buf) hashmap"
  rs_unmark :: "(u32 \<times> i32) list"

definition Reassembler_default :: Reassembler where
  "Reassembler_default = \<lparr>rs_bufs = [], rs_unmark = []\<rparr>"

definition is_http_start :: "bytes \<Rightarrow> bool" where
  "is_http_start prefix = http_magic prefix (of_nat (min (length prefix) 65535))"

definition headers_done :: "bytes \<Rightarrow> bool" where
  "headers_done buf = list_ex (\<lambda>w. w = [13, 10, 13, 10]) (windows 4 buf)"

definition synthetic :: "SockIoEvent \<Rightarrow> bytes \<Rightarrow> u64 \<Rightarrow> SockIoEvent" where
  "synthetic ev bytes ts_ns =
    (let n = min (length bytes) SOCK_IO_PREFIX_LEN in
     \<lparr>io_kind = io_kind ev, io_dir = io_dir ev, io_prefix_len = of_nat n, io_fd = io_fd ev,
      io_pid = io_pid ev, io_tgid = io_tgid ev, io_ret = of_nat n, io_ts_ns = ts_ns,
      io_cgroup_id = io_cgroup_id ev, io_prefix = zero_padded SOCK_IO_PREFIX_LEN (take n bytes)\<rparr>)"

definition flush :: "SockIoEvent \<Rightarrow> Buf \<Rightarrow> SockIoEvent" where
  "flush ev buf =
    (let ts = (if starts_with (bf_bytes buf) (bstr ''HTTP/'') then bf_last_ts buf else bf_first_ts buf);
         out = ev\<lparr>io_kind := bf_kind buf, io_pid := bf_pid buf\<rparr>
     in synthetic out (bf_bytes buf) ts)"

definition reassembler_evict_stale :: "instant \<Rightarrow> Reassembler \<Rightarrow> Reassembler" where
  "reassembler_evict_stale now r =
    (let keep = (\<lambda>b. now - bf_at b \<le> TIMEOUT);
         gone = map (\<lambda>(k, b). (ky_tgid k, ky_fd k)) (filter (\<lambda>(k, b). \<not> keep b) (rs_bufs r))
     in r\<lparr>rs_bufs := hm_retain (\<lambda>_ b. keep b) (rs_bufs r), rs_unmark := rs_unmark r @ gone\<rparr>)"

definition reassembler_take_unmark :: "Reassembler \<Rightarrow> (u32 \<times> i32) list \<times> Reassembler" where
  "reassembler_take_unmark r = (rs_unmark r, r\<lparr>rs_unmark := []\<rparr>)"

definition reassembler_push :: "SockIoEvent \<Rightarrow> instant \<Rightarrow> Reassembler \<Rightarrow> SockIoEvent option \<times> Reassembler" where
  "reassembler_push ev now r =
    (let r = reassembler_evict_stale now r in
     case IoDir_from_u8 (io_dir ev) of None \<Rightarrow> (None, r) | Some dir \<Rightarrow>
     let plen = min (unat (io_prefix_len ev)) (length (io_prefix ev)) in
     if is_neg (io_ret ev) \<or> plen = 0 then (None, r)
     else
       let chunk = take plen (io_prefix ev);
           key = \<lparr>ky_tgid = io_tgid ev, ky_fd = io_fd ev, ky_dir = IoDir_u8 dir\<rparr>;
           bufs = hm_remove key (rs_bufs r)
       in case hm_get (rs_bufs r) key of
            None \<Rightarrow>
              if \<not> is_http_start chunk then (None, r\<lparr>rs_bufs := bufs\<rparr>)
              else if headers_done chunk \<or> length chunk \<ge> CAP
              then (Some (synthetic ev chunk (io_ts_ns ev)), r\<lparr>rs_bufs := bufs\<rparr>)
              else (None, r\<lparr>rs_bufs := hm_insert key
                \<lparr>bf_bytes = chunk, bf_first_ts = io_ts_ns ev, bf_last_ts = io_ts_ns ev, bf_at = now,
                 bf_pid = io_pid ev, bf_kind = io_kind ev\<rparr> bufs\<rparr>)
          | Some buf \<Rightarrow>
              let room = CAP - length (bf_bytes buf);
                  buf = buf\<lparr>bf_bytes := bf_bytes buf @ take (min (length chunk) room) chunk,
                            bf_last_ts := io_ts_ns ev, bf_at := now\<rparr>
              in if headers_done (bf_bytes buf) \<or> length (bf_bytes buf) \<ge> CAP
                 then (Some (flush ev buf), r\<lparr>rs_bufs := bufs\<rparr>)
                 else (None, r\<lparr>rs_bufs := hm_insert key buf bufs\<rparr>))"

section \<open>One buffer per direction of a socket\<close>

definition push_key :: "SockIoEvent \<Rightarrow> Key option" where
  "push_key ev =
    (case IoDir_from_u8 (io_dir ev) of None \<Rightarrow> None | Some dir \<Rightarrow>
     if is_neg (io_ret ev) \<or> captured ev = [] then None
     else Some \<lparr>ky_tgid = io_tgid ev, ky_fd = io_fd ev, ky_dir = IoDir_u8 dir\<rparr>)"

definition stream_done :: "bytes \<Rightarrow> bool" where
  "stream_done b \<longleftrightarrow> headers_done b \<or> CAP \<le> length b"

definition buf_append :: "SockIoEvent \<Rightarrow> instant \<Rightarrow> Buf option \<Rightarrow> Buf" where
  "buf_append ev now b =
    (case b of
       None \<Rightarrow> \<lparr>bf_bytes = captured ev, bf_first_ts = io_ts_ns ev, bf_last_ts = io_ts_ns ev, bf_at = now,
         bf_pid = io_pid ev, bf_kind = io_kind ev\<rparr>
     | Some buf \<Rightarrow> buf\<lparr>bf_bytes := bf_bytes buf @ take (CAP - length (bf_bytes buf)) (captured ev),
         bf_last_ts := io_ts_ns ev, bf_at := now\<rparr>)"

definition buf_step :: "SockIoEvent \<Rightarrow> instant \<Rightarrow> Buf option \<Rightarrow> SockIoEvent option \<times> Buf option" where
  "buf_step ev now b =
    (if b = None \<and> \<not> is_http_start (captured ev) then (None, None)
     else let buf = buf_append ev now b
       in if stream_done (bf_bytes buf) then (Some (flush ev buf), None) else (None, Some buf))"

lemma synthetic_upd: "synthetic (ev\<lparr>io_kind := io_kind ev, io_pid := io_pid ev\<rparr>) b ts = synthetic ev b ts"
  by (simp add: synthetic_def Let_def)

lemma reassembler_push_captured:
  assumes "IoDir_from_u8 (io_dir ev) = Some dir" "\<not> is_neg (io_ret ev)" "captured ev = c" "c \<noteq> []"
    and "k = \<lparr>ky_tgid = io_tgid ev, ky_fd = io_fd ev, ky_dir = IoDir_u8 dir\<rparr>"
    and "r' = reassembler_evict_stale now r" "m = hm_remove k (rs_bufs r')"
  shows "reassembler_push ev now r =
    (case hm_get (rs_bufs r') k of
       None \<Rightarrow> if \<not> is_http_start c then (None, r'\<lparr>rs_bufs := m\<rparr>)
         else if stream_done c then (Some (synthetic ev c (io_ts_ns ev)), r'\<lparr>rs_bufs := m\<rparr>)
         else (None, r'\<lparr>rs_bufs := hm_insert k (buf_append ev now None) m\<rparr>)
     | Some b \<Rightarrow> if stream_done (bf_bytes (buf_append ev now (Some b)))
         then (Some (flush ev (buf_append ev now (Some b))), r'\<lparr>rs_bufs := m\<rparr>)
         else (None, r'\<lparr>rs_bufs := hm_insert k (buf_append ev now (Some b)) m\<rparr>))"
proof -
  have n: "min (unat (io_prefix_len ev)) (length (io_prefix ev)) \<noteq> 0"
    using assms(3,4) by auto
  have t: "take (min (length x) n) x = take n x" for x :: bytes and n
    by (simp add: min_def)
  show ?thesis
    unfolding reassembler_push_def Let_def assms(1) option.case t assms(3) assms(5,6,7) [symmetric]
      stream_done_def buf_append_def
    using assms(2) n by (simp only: simp_thms if_False)
qed

lemma reassembler_push_slot:
  assumes "push_key ev = Some k" "rs_bufs (reassembler_evict_stale now r) = m"
    and "buf_step ev now (hm_get m k) = (o', b')"
  shows "reassembler_push ev now r = (o', (reassembler_evict_stale now r)\<lparr>rs_bufs :=
    (case b' of None \<Rightarrow> hm_remove k m | Some b \<Rightarrow> hm_insert k b (hm_remove k m))\<rparr>)"
proof -
  obtain c where c: "captured ev = c"
    by simp
  obtain dir where dir: "IoDir_from_u8 (io_dir ev) = Some dir" "\<not> is_neg (io_ret ev)" "c \<noteq> []"
    "k = \<lparr>ky_tgid = io_tgid ev, ky_fd = io_fd ev, ky_dir = IoDir_u8 dir\<rparr>"
    using assms(1) c by (auto simp: push_key_def split: option.splits if_splits)
  have "flush ev (buf_append ev now None) = synthetic ev c (io_ts_ns ev)" "bf_bytes (buf_append ev now None) = c"
    by (simp_all add: flush_def buf_append_def synthetic_upd Let_def c)
  then show ?thesis
    using assms(3) reassembler_push_captured [OF dir(1,2) c dir(3,4) refl refl, of now r] unfolding assms(2) buf_step_def c Let_def
    by (cases "hm_get m k") (auto split: if_splits)
qed

lemma captured_empty: "captured ev = [] \<longleftrightarrow> min (unat (io_prefix_len ev)) (length (io_prefix ev)) = 0"
  by (auto simp: min_def)

lemma reassembler_push_none:
  "push_key ev = None \<Longrightarrow> reassembler_push ev now r = (None, reassembler_evict_stale now r)"
proof (cases "IoDir_from_u8 (io_dir ev)")
  case (Some dir)
  assume "push_key ev = None"
  then have "(is_neg (io_ret ev) \<or> min (unat (io_prefix_len ev)) (length (io_prefix ev)) = 0) = True"
    unfolding push_key_def captured_empty Some by (simp split: if_split_asm)
  then show ?thesis
    by (simp only: reassembler_push_def Let_def Some option.case if_True)
qed (simp add: reassembler_push_def)

lemma evict_bufs: "rs_bufs (reassembler_evict_stale now r) = hm_retain (\<lambda>_ b. now - bf_at b \<le> TIMEOUT) (rs_bufs r)"
  by (simp add: reassembler_evict_stale_def Let_def)

lemma reassembler_step_slot:
  assumes w: "hm_wf (rs_bufs r)" and m: "m = hm_retain (\<lambda>_ b. now - bf_at b \<le> TIMEOUT) (rs_bufs r)"
  shows "fst (reassembler_push e now r) = (case push_key e of None \<Rightarrow> None
      | Some k \<Rightarrow> fst (buf_step e now (hm_get m k))) \<and>
    hm_get (rs_bufs (snd (reassembler_push e now r))) k =
      (let old = hm_get m k in if push_key e = Some k then snd (buf_step e now old) else old) \<and>
    hm_wf (rs_bufs (snd (reassembler_push e now r)))"
proof (cases "push_key e")
  case None
  then show ?thesis
    using w by (simp add: reassembler_push_none evict_bufs m)
next
  case (Some k')
  obtain o' b' where p: "buf_step e now (hm_get m k') = (o', b')"
    by (cases "buf_step e now (hm_get m k')")
  show ?thesis
    using w Some p reassembler_push_slot [OF Some _ p, of r] m
    by (auto simp: evict_bufs Let_def split: option.split)
qed

interpretation reassemble_sm: keyed_machine rs_bufs bf_at TIMEOUT push_key buf_step reassembler_push
  using reassembler_step_slot [OF _ refl] by unfold_locales blast+

interpretation reassemble_ttl: ttl_store bf_at TIMEOUT
  "\<lambda>now m. rs_bufs (reassembler_evict_stale now \<lparr>rs_bufs = m, rs_unmark = []\<rparr>)"
  by unfold_locales (simp add: evict_bufs)

text \<open>The two directions of a socket, and different sockets, never mix: along a history with
  non-decreasing clock the events handed on for one key are those of that key's events alone.\<close>

theorem reassembler_isolated:
  "sorted (map snd h) \<Longrightarrow>
    outputs (\<lambda>e. push_key e = Some k) (mtrace reassembler_push Reassembler_default h) =
    outputs (\<lambda>_. True) (mtrace reassembler_push Reassembler_default (filter (\<lambda>et. push_key (fst et) = Some k) h))"
  by (rule reassemble_sm.isolated) (simp add: Reassembler_default_def)

section \<open>Buffers\<close>

definition HTTP_STARTS :: "bytes list" where
  "HTTP_STARTS = map bstr [''GET '', ''POST '', ''PUT '', ''HEAD '', ''DELETE '', ''OPTIONS '', ''PATCH '',
    ''HTTP/'', ''PRI '']"

lemma starts_with_take: "length p \<le> n \<or> length s \<le> n \<Longrightarrow> starts_with (take n s) p = starts_with s p"
  by (auto simp: starts_with_def min_def)

lemma is_http_start_iff: "is_http_start b \<longleftrightarrow> list_ex (starts_with b) HTTP_STARTS"
proof -
  have "unat (of_nat (min (length b) 65535) :: u16) = min (length b) 65535"
    by (simp add: unat_of_nat take_bit_nat_eq_self)
  then have "is_http_start b \<longleftrightarrow> list_ex (starts_with (take (min (length b) 65535) b)) HTTP_STARTS"
    by (simp add: is_http_start_def http_magic_def HTTP_STARTS_def min.commute Let_def)
  also have "... \<longleftrightarrow> list_ex (starts_with b) HTTP_STARTS"
    by (simp add: HTTP_STARTS_def starts_with_take min_def)
  finally show ?thesis .
qed

lemma is_http_start_append: "is_http_start a \<Longrightarrow> is_http_start (a @ b)"
  using starts_with_append by (fastforce simp: is_http_start_iff list_ex_iff)

lemma is_http_start_take: "is_http_start b \<Longrightarrow> 8 \<le> n \<Longrightarrow> is_http_start (take n b)"
  by (auto simp: is_http_start_iff HTTP_STARTS_def starts_with_take)

definition reasm_buf_ok :: "Buf \<Rightarrow> bool" where
  "reasm_buf_ok b \<longleftrightarrow> is_http_start (bf_bytes b) \<and> \<not> headers_done (bf_bytes b) \<and> length (bf_bytes b) < CAP"

lemma buf_step_ok:
  assumes "pred_option reasm_buf_ok b"
  shows "pred_option reasm_buf_ok (snd (buf_step ev now b))"
    "fst (buf_step ev now b) = Some x \<Longrightarrow> \<exists>b'. x = flush ev b' \<and> is_http_start (bf_bytes b')"
proof -
  show "pred_option reasm_buf_ok (snd (buf_step ev now b))"
    using assms is_http_start_append
    by (auto simp: buf_step_def Let_def buf_append_def reasm_buf_ok_def stream_done_def split: option.splits)
  have "is_http_start (bf_bytes (buf_append ev now b))" if "b \<noteq> None \<or> is_http_start (captured ev)"
    using that assms is_http_start_append by (cases b) (auto simp: buf_append_def reasm_buf_ok_def)
  then show "fst (buf_step ev now b) = Some x \<Longrightarrow> \<exists>b'. x = flush ev b' \<and> is_http_start (bf_bytes b')"
    by (auto simp: buf_step_def Let_def split: if_splits)
qed

lemma bufs_ok:
  "hm_get (rs_bufs (mfinal reassembler_push Reassembler_default h)) k = Some b \<Longrightarrow> reasm_buf_ok b"
proof (induction h arbitrary: k b rule: rev_induct)
  case Nil
  then show ?case
    by (simp add: Reassembler_default_def)
next
  case (snoc et h)
  let ?r = "mfinal reassembler_push Reassembler_default h"
  have w: "hm_wf (rs_bufs ?r)"
    by (rule reassemble_sm.mfinal_wf) (simp add: Reassembler_default_def)
  let ?old = "hm_get (hm_retain (\<lambda>_ v. snd et - bf_at v \<le> TIMEOUT) (rs_bufs ?r)) k"
  have "pred_option reasm_buf_ok ?old"
    using snoc.IH w by (auto simp: hm.get_ret split: option.splits)
  moreover have "(if push_key (fst et) = Some k then snd (buf_step (fst et) (snd et) ?old) else ?old) = Some b"
    using snoc.prems reassemble_sm.step_get [OF w, of "fst et" "snd et" k] by (simp add: mfinal_append Let_def)
  ultimately show ?case
    using buf_step_ok(1) [of ?old "fst et" "snd et"] by (auto split: if_splits)
qed

lemma flush_event:
  "io_normal (flush ev b) \<and> captured (flush ev b) = take 256 (bf_bytes b) \<and>
    io_tgid (flush ev b) = io_tgid ev \<and> io_fd (flush ev b) = io_fd ev \<and> io_dir (flush ev b) = io_dir ev \<and>
    sint (io_ret (flush ev b)) = int (unat (io_prefix_len (flush ev b)))"
proof -
  define n where "n = min (length (bf_bytes b)) 256"
  have n: "n \<le> 256" "n \<le> length (bf_bytes b)"
    by (auto simp: n_def)
  then have u: "unat (of_nat n :: u16) = n"
    by (simp add: unat_of_nat take_bit_nat_eq_self)
  have "sint (of_nat n :: u64) = int n"
    using n(1) signed_take_bit_int_eq_self [of 63 "int n"] by (simp add: signed_of_nat)
  moreover have "uint (of_nat n :: u16) = int n"
    using arg_cong [OF u, of int] by simp
  ultimately show ?thesis
    using n u by (simp add: flush_def synthetic_def Let_def SOCK_IO_PREFIX_LEN_def io_normal_def io_wf_def
        n_def [symmetric] zero_padded_def min_def) (auto simp: n_def min_def)
qed

lemma flush_fields:
  "io_pid (flush ev b) = bf_pid b" "io_kind (flush ev b) = bf_kind b"
  "io_ts_ns (flush ev b) = (if starts_with (bf_bytes b) (bstr ''HTTP/'') then bf_last_ts b else bf_first_ts b)"
  by (simp_all add: flush_def synthetic_def Let_def)

text \<open>C24. Whatever the history, an event the reassembler hands on is well formed (256-byte array,
  zeros after its length), begins with an HTTP method, status line or preface, belongs to the process,
  descriptor and direction of the event that completed it, and its return value is its length.\<close>

theorem reassembler_output_wf:
  assumes "fst (reassembler_push ev now (mfinal reassembler_push Reassembler_default h)) = Some x"
  shows "io_normal x \<and> is_http_start (captured x) \<and> io_tgid x = io_tgid ev \<and> io_fd x = io_fd ev \<and>
    io_dir x = io_dir ev \<and> sint (io_ret x) = int (unat (io_prefix_len x))"
proof -
  let ?r = "mfinal reassembler_push Reassembler_default h"
  have w: "hm_wf (rs_bufs ?r)"
    by (rule reassemble_sm.mfinal_wf) (simp add: Reassembler_default_def)
  obtain k where "fst (buf_step ev now (hm_get (hm_retain (\<lambda>_ v. now - bf_at v \<le> TIMEOUT) (rs_bufs ?r)) k)) = Some x"
    using assms reassemble_sm.step_out [OF w, of ev now] by (auto split: option.splits)
  moreover have "pred_option reasm_buf_ok (hm_get (hm_retain (\<lambda>_ v. now - bf_at v \<le> TIMEOUT) (rs_bufs ?r)) k)"
    using bufs_ok [of h k] w by (auto simp: hm.get_ret split: option.splits)
  ultimately obtain b where "x = flush ev b" "is_http_start (bf_bytes b)"
    using buf_step_ok(2) by blast
  then show ?thesis
    using flush_event [of ev b] is_http_start_take [of "bf_bytes b" 256] by simp
qed

section \<open>Reassembled streams\<close>

abbreviation stream_bytes :: "(SockIoEvent \<times> instant) list \<Rightarrow> bytes" where
  "stream_bytes es \<equiv> concat (map (\<lambda>et. captured (fst et)) es)"

definition stream_buf :: "(SockIoEvent \<times> instant) list \<Rightarrow> Buf" where
  "stream_buf es = \<lparr>bf_bytes = take CAP (stream_bytes es), bf_first_ts = io_ts_ns (fst (hd es)),
    bf_last_ts = io_ts_ns (fst (last es)), bf_at = snd (last es), bf_pid = io_pid (fst (hd es)),
    bf_kind = io_kind (fst (hd es))\<rparr>"

lemma stream_buf_append:
  assumes "es \<noteq> []" "length (stream_bytes es) < CAP"
  shows "buf_append ev now (Some (stream_buf es)) = stream_buf (es @ [(ev, now)])"
  using assms by (simp add: buf_append_def stream_buf_def)

lemma mtrace_append: "mtrace step s (h @ h') = mtrace step s h @ mtrace step (mfinal step s h) h'"
  by (induction h arbitrary: s) (auto simp: case_prod_unfold)

lemma stream_prefix:
  assumes "es \<noteq> []" "hm_wf (rs_bufs r)" "hm_get (rs_bufs r) k = None" "\<forall>et \<in> set es. push_key (fst et) = Some k"
    and "is_http_start (captured (fst (hd es)))" "successively (\<lambda>x y. snd y \<le> snd x + TIMEOUT) es"
    and "\<forall>i \<in> {1..length es}. \<not> stream_done (stream_bytes (take i es))"
  shows "outputs (\<lambda>_. True) (mtrace reassembler_push r es) = replicate (length es) None \<and>
    hm_get (rs_bufs (mfinal reassembler_push r es)) k = Some (stream_buf es)"
  using assms
proof (induction es rule: rev_nonempty_induct)
  case (single et)
  have "\<not> stream_done (captured (fst et))"
    using single.prems(6) by simp
  then show ?case
    using single reassemble_sm.step_out [OF single.prems(1), of "fst et" "snd et"]
      reassemble_sm.step_get [OF single.prems(1), of "fst et" "snd et" k]
    by (auto simp: case_prod_unfold hm.get_ret buf_step_def buf_append_def stream_buf_def stream_done_def)
next
  case (snoc et es)
  let ?r = "mfinal reassembler_push r es"
  have nd: "\<not> stream_done (stream_bytes (take i es))" if "i \<in> {1..length es}" for i
    using bspec [OF snoc.prems(6), of i] that by simp
  have gap: "snd et \<le> snd (last es) + TIMEOUT" "successively (\<lambda>x y. snd y \<le> snd x + TIMEOUT) es"
    using snoc.prems(5) snoc.hyps(1) by (simp_all add: successively_append_iff)
  have ih: "outputs (\<lambda>_. True) (mtrace reassembler_push r es) = replicate (length es) None"
    "hm_get (rs_bufs ?r) k = Some (stream_buf es)"
    using snoc.IH snoc.prems(1-4) snoc.hyps(1) gap nd by auto
  have w: "hm_wf (rs_bufs ?r)"
    using reassemble_sm.mfinal_wf [OF snoc.prems(1)] .
  have b: "hm_get (hm_retain (\<lambda>_ v. snd et - bf_at v \<le> TIMEOUT) (rs_bufs ?r)) k = Some (stream_buf es)"
    using ih(2) w gap(1) by (simp add: hm.get_ret stream_buf_def)
  have "length (stream_bytes es) < CAP"
    using nd [of "length es"] snoc.hyps(1) by (simp add: stream_done_def Suc_le_eq)
  then have a: "buf_append (fst et) (snd et) (Some (stream_buf es)) = stream_buf (es @ [et])"
    using stream_buf_append [OF snoc.hyps(1), of "fst et" "snd et"] by simp
  have "\<not> stream_done (stream_bytes (es @ [et]))"
    using bspec [OF snoc.prems(6), of "length (es @ [et])"] by simp
  then have "\<not> stream_done (bf_bytes (stream_buf (es @ [et])))"
    by (simp add: stream_done_def stream_buf_def del: map_append concat_append)
  then have "buf_step (fst et) (snd et) (Some (stream_buf es)) = (None, Some (stream_buf (es @ [et])))"
    by (simp add: buf_step_def a)
  moreover have "push_key (fst et) = Some k"
    using snoc.prems(3) by simp
  ultimately show ?case
    using ih(1) b reassemble_sm.step_out [OF w, of "fst et" "snd et"]
      reassemble_sm.step_get [OF w, of "fst et" "snd et" k]
    by (simp add: mtrace_append mfinal_append outputs_def case_prod_unfold replicate_append_same)
qed

lemma stream_done_take: "stream_done b \<Longrightarrow> stream_done (take CAP b)"
  by (cases "CAP \<le> length b") (simp_all add: stream_done_def)

lemma stream_last:
  assumes w: "hm_wf (rs_bufs r)" and k: "push_key (fst et) = Some k"
    and b: "hm_get (rs_bufs r) k = (if es = [] then None else Some (stream_buf es))"
    and "es \<noteq> [] \<Longrightarrow> snd et \<le> snd (last es) + TIMEOUT" "es \<noteq> [] \<Longrightarrow> \<not> stream_done (stream_bytes es)"
    and "es = [] \<Longrightarrow> is_http_start (captured (fst et))" "stream_done (stream_bytes (es @ [et]))"
  shows "fst (reassembler_push (fst et) (snd et) r) = Some (flush (fst et) (stream_buf (es @ [et]))) \<and>
    hm_get (rs_bufs (snd (reassembler_push (fst et) (snd et) r))) k = None"
proof -
  let ?b = "if es = [] then None else Some (stream_buf es)"
  have s: "hm_get (hm_retain (\<lambda>_ v. snd et - bf_at v \<le> TIMEOUT) (rs_bufs r)) k = ?b"
    using b w assms(4) by (cases "es = []") (simp_all add: hm.get_ret stream_buf_def)
  have d: "stream_done (take CAP (stream_bytes (es @ [et])))"
    by (rule stream_done_take [OF assms(7)])
  have "buf_step (fst et) (snd et) ?b = (Some (flush (fst et) (stream_buf (es @ [et]))), None)"
  proof (cases "es = []")
    case True
    have "flush (fst et) (buf_append (fst et) (snd et) None) = flush (fst et) (stream_buf [et])"
      by (simp add: flush_def buf_append_def stream_buf_def synthetic_def Let_def SOCK_IO_PREFIX_LEN_def
          CAP_def min_def starts_with_take bstr_def)
    then show ?thesis
      using True assms(6,7) by (simp add: buf_step_def) (simp add: buf_append_def)
  next
    case False
    have "length (stream_bytes es) < CAP"
      using assms(5) [OF False] by (simp add: stream_done_def)
    then have "buf_append (fst et) (snd et) (Some (stream_buf es)) = stream_buf (es @ [et])"
      using stream_buf_append [OF False, of "fst et" "snd et"] by simp
    then show ?thesis
      using False d by (simp add: buf_step_def stream_buf_def del: map_append concat_append)
  qed
  then show ?thesis
    using reassemble_sm.step_out [OF w, of "fst et" "snd et"] reassemble_sm.step_get [OF w, of "fst et" "snd et" k] s k
    by simp
qed

text \<open>C17. Split headers are put together: the pieces of a header block that arrive on one direction of a
  socket at most 60 s apart, the first beginning like HTTP, give exactly one event, at the piece that
  completes the header terminator (or fills the 8 KiB cap), and nothing before. Its prefix is the first
  256 bytes of the concatenation; a request is stamped with its first piece, a response with its last.\<close>

theorem reassemble_stream:
  assumes "es \<noteq> []" "hm_wf (rs_bufs r)" "hm_get (rs_bufs r) k = None" "\<forall>et \<in> set es. push_key (fst et) = Some k"
    and "is_http_start (captured (fst (hd es)))" "successively (\<lambda>x y. snd y \<le> snd x + TIMEOUT) es"
    and "\<forall>i \<in> {1..<length es}. \<not> stream_done (stream_bytes (take i es))" "stream_done (stream_bytes es)"
  shows "\<exists>x. outputs (\<lambda>_. True) (mtrace reassembler_push r es) = replicate (length es - 1) None @ [Some x] \<and>
    captured x = take 256 (stream_bytes es) \<and> io_pid x = io_pid (fst (hd es)) \<and> io_kind x = io_kind (fst (hd es)) \<and>
    io_ts_ns x = io_ts_ns (fst (if starts_with (stream_bytes es) (bstr ''HTTP/'') then last es else hd es)) \<and>
    hm_get (rs_bufs (mfinal reassembler_push r es)) k = None"
proof -
  obtain es' et where es: "es = es' @ [et]"
    using assms(1) by (cases es rule: rev_cases) auto
  have nd: "\<not> stream_done (stream_bytes (take i es'))" if "i \<in> {1..length es'}" for i
    using bspec [OF assms(7), of i] that by (simp add: es)
  have gap: "es' \<noteq> [] \<Longrightarrow> snd et \<le> snd (last es') + TIMEOUT" "successively (\<lambda>x y. snd y \<le> snd x + TIMEOUT) es'"
    using assms(6) by (cases "es' = []"; simp add: es successively_append_iff)+
  have p: "es' \<noteq> [] \<Longrightarrow> outputs (\<lambda>_. True) (mtrace reassembler_push r es') = replicate (length es') None \<and>
      hm_get (rs_bufs (mfinal reassembler_push r es')) k = Some (stream_buf es')"
    using stream_prefix [of es' r k] assms(2-5) gap(2) nd by (simp add: es)
  let ?x = "flush (fst et) (stream_buf es)"
  have l: "fst (reassembler_push (fst et) (snd et) (mfinal reassembler_push r es')) = Some ?x \<and>
      hm_get (rs_bufs (snd (reassembler_push (fst et) (snd et) (mfinal reassembler_push r es')))) k = None"
    unfolding es
  proof (rule stream_last)
    show "hm_get (rs_bufs (mfinal reassembler_push r es')) k = (if es' = [] then None else Some (stream_buf es'))"
      using p assms(3) by (cases "es' = []") auto
    show "es' \<noteq> [] \<Longrightarrow> \<not> stream_done (stream_bytes es')"
      using nd [of "length es'"] by (simp add: Suc_le_eq)
    show "es' = [] \<Longrightarrow> is_http_start (captured (fst et))" "push_key (fst et) = Some k"
      using assms(4,5) by (simp_all add: es)
    show "stream_done (stream_bytes (es' @ [et]))"
      using assms(8) by (simp only: es)
  qed (use gap(1) reassemble_sm.mfinal_wf [OF assms(2)] in simp_all)
  have "outputs (\<lambda>_. True) (mtrace reassembler_push r es') = replicate (length es') None"
    using p by (cases "es' = []") simp_all
  then have "outputs (\<lambda>_. True) (mtrace reassembler_push r (es' @ [et])) = replicate (length es') None @ [Some ?x]"
    using l by (simp add: mtrace_append outputs_def case_prod_unfold)
  moreover have "hm_get (rs_bufs (mfinal reassembler_push r (es' @ [et]))) k = None"
    using l by (simp add: mfinal_append)
  moreover have "captured ?x = take 256 (stream_bytes es)"
    using flush_event [of "fst et" "stream_buf es"] by (simp add: stream_buf_def CAP_def min_def)
  moreover have "io_pid ?x = io_pid (fst (hd es))" "io_kind ?x = io_kind (fst (hd es))"
    "io_ts_ns ?x = io_ts_ns (fst (if starts_with (stream_bytes es) (bstr ''HTTP/'') then last es else hd es))"
    by (simp_all add: flush_fields stream_buf_def starts_with_take CAP_def)
  moreover have "length es - 1 = length es'" "mtrace reassembler_push r es = mtrace reassembler_push r (es' @ [et])"
    "mfinal reassembler_push r es = mfinal reassembler_push r (es' @ [et])"
    by (simp_all add: es)
  ultimately show ?thesis
    by (intro exI [of _ ?x]) presburger
qed

definition demo_piece :: SockIoEvent where
  "demo_piece = demo_io\<lparr>io_prefix_len := 6, io_ts_ns := 120, io_prefix := zero_padded 256 [47, 32, 13, 10, 13, 10]\<rparr>"

lemma demo_pieces:
  "captured demo_io = bstr ''GET ''" "captured demo_piece = [47, 32, 13, 10, 13, 10]"
  "push_key demo_io = Some \<lparr>ky_tgid = 10, ky_fd = 7, ky_dir = 2\<rparr>"
  "push_key demo_piece = Some \<lparr>ky_tgid = 10, ky_fd = 7, ky_dir = 2\<rparr>"
  "stream_bytes [(demo_io, 3), (demo_piece, 9)] = [71, 69, 84, 32, 47, 32, 13, 10, 13, 10]"
  "\<not> stream_done (bstr ''GET '')" "stream_done [71, 69, 84, 32, 47, 32, 13, 10, 13, 10]"
  by (simp_all add: demo_piece_def demo_io_def zero_padded_def bstr_def push_key_def IoDir_from_u8_def
      stream_done_def headers_done_def windows_def CAP_def)

lemma demo_start: "is_http_start (captured demo_io)"
  by (simp add: demo_pieces(1) is_http_start_iff HTTP_STARTS_def bstr_def)

lemma demo_empty: "hm_wf (rs_bufs Reassembler_default)" "hm_get (rs_bufs Reassembler_default) k = None"
  by (simp_all add: Reassembler_default_def)

theorem reassemble_stream_witness:
  "\<exists>x. outputs (\<lambda>_. True) (mtrace reassembler_push Reassembler_default [(demo_io, 3), (demo_piece, 9)]) = [None, Some x] \<and>
    captured x = [71, 69, 84, 32, 47, 32, 13, 10, 13, 10] \<and> io_ts_ns x = 99"
proof -
  let ?es = "[(demo_io, 3), (demo_piece, 9)] :: (SockIoEvent \<times> instant) list"
  have "\<forall>i \<in> {1..<length ?es}. \<not> stream_done (stream_bytes (take i ?es))"
    using demo_pieces(1,6) by (auto simp: less_Suc_eq)
  moreover have "\<forall>et \<in> set ?es. push_key (fst et) = Some \<lparr>ky_tgid = 10, ky_fd = 7, ky_dir = 2\<rparr>"
    using demo_pieces by simp
  moreover have "successively (\<lambda>x y. snd y \<le> snd x + TIMEOUT) ?es"
    by (simp add: TIMEOUT_def secs_def)
  moreover have "stream_done (stream_bytes ?es)"
    using demo_pieces(5,7) by (simp only:)
  moreover have "is_http_start (captured (fst (hd ?es)))"
    using demo_start by simp
  ultimately obtain x where x: "outputs (\<lambda>_. True) (mtrace reassembler_push Reassembler_default ?es) = replicate (length ?es - 1) None @ [Some x]"
    "captured x = take 256 (stream_bytes ?es)"
    "io_ts_ns x = io_ts_ns (fst (if starts_with (stream_bytes ?es) (bstr ''HTTP/'') then last ?es else hd ?es))"
    using reassemble_stream [of ?es Reassembler_default "\<lparr>ky_tgid = 10, ky_fd = 7, ky_dir = 2\<rparr>", OF _ demo_empty]
    by blast
  have "\<not> starts_with (stream_bytes ?es) (bstr ''HTTP/'')"
    unfolding demo_pieces(5) by (simp add: bstr_def)
  then have "io_ts_ns x = 99"
    using x(3) by (simp add: demo_io_def)
  moreover have "captured x = [71, 69, 84, 32, 47, 32, 13, 10, 13, 10]"
    using x(2) unfolding demo_pieces(5) by simp
  ultimately show ?thesis
    using x(1) by (intro exI [of _ x]) (simp del: mtrace.simps outputs_simps)
qed

theorem reassembler_output_wf_witness:
  "\<exists>x. fst (reassembler_push demo_piece 9 (mfinal reassembler_push Reassembler_default [(demo_io, 3)])) = Some x \<and>
    io_normal x \<and> is_http_start (captured x)"
proof -
  have "hm_get (rs_bufs (mfinal reassembler_push Reassembler_default [(demo_io, 3)])) \<lparr>ky_tgid = 10, ky_fd = 7, ky_dir = 2\<rparr> =
      Some (stream_buf [(demo_io, 3)])"
    using stream_prefix [of "[(demo_io, 3)]" Reassembler_default "\<lparr>ky_tgid = 10, ky_fd = 7, ky_dir = 2\<rparr>"]
      demo_empty demo_pieces demo_start by auto
  then have "\<exists>x. fst (reassembler_push demo_piece 9 (mfinal reassembler_push Reassembler_default [(demo_io, 3)])) = Some x"
    using stream_last [of "mfinal reassembler_push Reassembler_default [(demo_io, 3)]" "(demo_piece, 9)"
        "\<lparr>ky_tgid = 10, ky_fd = 7, ky_dir = 2\<rparr>" "[(demo_io, 3)]"]
      reassemble_sm.mfinal_wf [OF demo_empty(1), of "[(demo_io, 3)]"] demo_pieces by (simp add: TIMEOUT_def secs_def bstr_def)
  then show ?thesis
    using reassembler_output_wf [of demo_piece 9 "[(demo_io, 3)]"] by blast
qed

theorem reassembler_isolated_witness:
  "outputs (\<lambda>e. push_key e = Some \<lparr>ky_tgid = 10, ky_fd = 7, ky_dir = 2\<rparr>)
      (mtrace reassembler_push Reassembler_default [(demo_io, 3), (demo_http_resp, 5), (demo_piece, 9)]) =
    outputs (\<lambda>_. True) (mtrace reassembler_push Reassembler_default [(demo_io, 3), (demo_piece, 9)])"
proof -
  have "push_key demo_http_resp = Some \<lparr>ky_tgid = 10, ky_fd = 7, ky_dir = 1\<rparr>"
    by (simp add: demo_http_resp_def demo_io_def push_key_def IoDir_from_u8_def zero_padded_def bstr_def)
  then show ?thesis
    using reassembler_isolated [of "[(demo_io, 3), (demo_http_resp, 5), (demo_piece, 9)]" "\<lparr>ky_tgid = 10, ky_fd = 7, ky_dir = 2\<rparr>"]
      demo_pieces(3,4) by (simp del: mtrace.simps)
qed

end
