(* ===== verification/Comm_Filter.thy ===== *)
theory Comm_Filter
  imports Strings Abi
begin

text \<open>
  Which processes are observed (\<open>src/agent/src/filter.rs\<close>): the allow and deny lists of command names, the
  classification of events, the sets of process ids the kernel maps must hold, and the publication of such a
  set into a kernel map (\<open>src/agent/src/main.rs\<close>). A \<open>HashSet\<close> is a list without duplicates; the
  directory listing, the files and the kernel maps are parameters.
\<close>

section \<open>Model\<close>

definition K8S_DEFAULT_DENY :: "string list" where
  "K8S_DEFAULT_DENY = [''dockerd'', ''containerd'', ''kubelet'', ''kube-proxy'', ''otelcol'', ''otelcol-contrib'']"

definition SELF_COMM :: string where "SELF_COMM = ''obsagent''"

definition K8S_TOKEN :: string where "K8S_TOKEN = ''/var/run/secrets/kubernetes.io/serviceaccount/token''"

datatype IngestSkip = Keep | SelfProcess | Denied

record CommFilter =
  cf_deny :: "string list"
  cf_allow :: "string list option"

definition eq_ignore_ascii_case :: "string \<Rightarrow> string \<Rightarrow> bool" where
  "eq_ignore_ascii_case a b \<longleftrightarrow> map char_lowercase a = map char_lowercase b"

definition parse_comm_list :: "string option \<Rightarrow> string list" where
  "parse_comm_list raw =
    remdups (filter (\<lambda>s. s \<noteq> []) (map trim (split_on CHR '','' (case raw of None \<Rightarrow> [] | Some s \<Rightarrow> s))))"

definition k8s_defaults_enabled :: "string option \<Rightarrow> bool \<Rightarrow> bool" where
  "k8s_defaults_enabled val token_exists =
    (if token_exists then True
     else case val of
       None \<Rightarrow> False
     | Some s \<Rightarrow> let s = trim s in
         \<not> (s = [] \<or> s = ''0'' \<or> eq_ignore_ascii_case s ''false'' \<or> eq_ignore_ascii_case s ''no''))"

definition CommFilter_new :: "string list \<Rightarrow> string list option \<Rightarrow> bool \<Rightarrow> CommFilter" where
  "CommFilter_new extra_deny allow k8s_defaults =
    (let allow = (case allow of Some s \<Rightarrow> if s \<noteq> [] then Some s else None | None \<Rightarrow> None);
         deny = (if k8s_defaults then fold List.insert K8S_DEFAULT_DENY extra_deny else extra_deny)
     in \<lparr>cf_deny = deny, cf_allow = allow\<rparr>)"

definition CommFilter_from_env :: "(string \<Rightarrow> string option) \<Rightarrow> (string \<Rightarrow> bool) \<Rightarrow> CommFilter" where
  "CommFilter_from_env env path_exists =
    (let extra_deny = parse_comm_list (env ''OBSAGENT_COMM_DENY'');
         allow = map_option (\<lambda>s. parse_comm_list (Some s)) (env ''OBSAGENT_COMM_ALLOW'');
         k8s = k8s_defaults_enabled (env ''OBSAGENT_K8S'') (path_exists K8S_TOKEN)
     in CommFilter_new extra_deny allow k8s)"

definition is_passthrough :: "CommFilter \<Rightarrow> bool" where
  "is_passthrough f \<longleftrightarrow> cf_allow f = None \<and> cf_deny f = []"

definition is_self_comm :: "string \<Rightarrow> bool" where
  "is_self_comm c \<longleftrightarrow> trim c = SELF_COMM"

definition filter_allow :: "CommFilter \<Rightarrow> string \<Rightarrow> bool" where
  "filter_allow f c =
    (let c = trim c
     in if is_self_comm c then False
        else case cf_allow f of
          Some allow \<Rightarrow> c \<in> set allow
        | None \<Rightarrow> c \<notin> set (cf_deny f))"

definition is_allow_only :: "CommFilter \<Rightarrow> bool" where
  "is_allow_only f \<longleftrightarrow> cf_allow f \<noteq> None"

definition is_self_tgid :: "u32 \<Rightarrow> u32 \<Rightarrow> bool" where
  "is_self_tgid event_tgid agent_tgid \<longleftrightarrow> event_tgid = agent_tgid"

definition is_otlp_export_route :: "string \<Rightarrow> string \<Rightarrow> bool" where
  "is_otlp_export_route verb path =
    (if \<not> eq_ignore_ascii_case verb ''POST'' then False
     else trim_end_char CHR ''/'' path \<in> set [''/v1/traces'', ''/v1/metrics'', ''/v1/logs''])"

definition is_self_ids :: "u32 \<Rightarrow> u32 \<Rightarrow> u32 list \<Rightarrow> bool" where
  "is_self_ids event_tgid event_pid agent_ids \<longleftrightarrow> event_tgid \<in> set agent_ids \<or> event_pid \<in> set agent_ids"

definition classify_ingest :: "u32 \<Rightarrow> u32 \<Rightarrow> u32 list \<Rightarrow> string \<Rightarrow> CommFilter \<Rightarrow> IngestSkip" where
  "classify_ingest event_tgid event_pid agent_ids c f =
    (if is_self_ids event_tgid event_pid agent_ids \<or> is_self_comm c then SelfProcess
     else if \<not> filter_allow f c then Denied
     else Keep)"

definition DENIED_TGID_CAP :: nat where "DENIED_TGID_CAP = DENIED_TGID_ENTRIES"

definition ALLOWED_TGID_CAP :: nat where "ALLOWED_TGID_CAP = ALLOWED_TGID_ENTRIES"

definition parse_u32 :: "string \<Rightarrow> u32 option" where
  "parse_u32 s = map_option of_nat (parse_unsigned 32 s)"

fun leader_lines :: "string list \<Rightarrow> u32 \<Rightarrow> bool" where
  "leader_lines [] pid = False"
| "leader_lines (line # rest) pid =
    (case strip_prefix ''Tgid:'' line of
       Some r \<Rightarrow> parse_u32 (trim r) = Some pid
     | None \<Rightarrow> leader_lines rest pid)"

definition is_thread_group_leader :: "string \<Rightarrow> u32 \<Rightarrow> bool" where
  "is_thread_group_leader status pid = leader_lines (str_lines status) pid"

fun leader_loop :: "file_system \<Rightarrow> string \<Rightarrow> (u32 \<Rightarrow> string \<Rightarrow> 's \<Rightarrow> bool \<times> 's) \<Rightarrow> string list \<Rightarrow> 's \<Rightarrow> 's" where
  "leader_loop rd root visit [] s = s"
| "leader_loop rd root visit (name # names) s =
    (case parse_u32 name of
       None \<Rightarrow> leader_loop rd root visit names s
     | Some pid \<Rightarrow>
       let path = path_join root name;
           status = (case read_to_string rd (path_join path ''status'') of None \<Rightarrow> [] | Some t \<Rightarrow> t)
       in if \<not> is_thread_group_leader status pid then leader_loop rd root visit names s
          else let c = (case read_to_string rd (path_join path ''comm'') of None \<Rightarrow> [] | Some t \<Rightarrow> trim t)
            in if c = [] then leader_loop rd root visit names s
               else case visit pid c s of (go, s') \<Rightarrow> if go then leader_loop rd root visit names s' else s')"

definition for_each_leader_comm ::
  "file_system \<Rightarrow> (string \<Rightarrow> string list option) \<Rightarrow> string \<Rightarrow> (u32 \<Rightarrow> string \<Rightarrow> 's \<Rightarrow> bool \<times> 's) \<Rightarrow> 's \<Rightarrow> 's" where
  "for_each_leader_comm rd read_dir root visit s =
    (case read_dir root of None \<Rightarrow> s | Some names \<Rightarrow> leader_loop rd root visit names s)"

definition visit_denied :: "CommFilter \<Rightarrow> u32 \<Rightarrow> string \<Rightarrow> u32 list \<Rightarrow> bool \<times> u32 list" where
  "visit_denied f tgid c out =
    (if length out \<ge> DENIED_TGID_CAP then (False, out)
     else (True, if tgid \<notin> set out \<and> \<not> filter_allow f c then List.insert tgid out else out))"

definition denied_tgids_from_proc ::
  "file_system \<Rightarrow> (string \<Rightarrow> string list option) \<Rightarrow> string \<Rightarrow> CommFilter \<Rightarrow> u32 list \<Rightarrow> u32 list" where
  "denied_tgids_from_proc rd read_dir root f extra = for_each_leader_comm rd read_dir root (visit_denied f) extra"

definition visit_allowed :: "CommFilter \<Rightarrow> u32 \<Rightarrow> string \<Rightarrow> u32 list \<Rightarrow> bool \<times> u32 list" where
  "visit_allowed f tgid c out =
    (if length out \<ge> ALLOWED_TGID_CAP then (False, out)
     else (True, if filter_allow f c then List.insert tgid out else out))"

definition allowed_tgids_from_proc ::
  "file_system \<Rightarrow> (string \<Rightarrow> string list option) \<Rightarrow> string \<Rightarrow> CommFilter \<Rightarrow> u32 list" where
  "allowed_tgids_from_proc rd read_dir root f = for_each_leader_comm rd read_dir root (visit_allowed f) []"

definition tgid_map_delta :: "u32 list \<Rightarrow> u32 list \<Rightarrow> u32 list \<times> u32 list" where
  "tgid_map_delta published desired =
    (filter (\<lambda>t. t \<notin> set desired) published, filter (\<lambda>t. t \<notin> set published) desired)"

text \<open>\<open>str::split_whitespace\<close>.\<close>

fun split_ws :: "string \<Rightarrow> string \<Rightarrow> string list" where
  "split_ws cur [] = (if cur = [] then [] else [cur])"
| "split_ws cur (c # s) =
    (if is_ws c then (if cur = [] then split_ws [] s else cur # split_ws [] s) else split_ws (cur @ [c]) s)"

definition insert_parsed :: "string \<Rightarrow> u32 list \<Rightarrow> u32 list" where
  "insert_parsed p ids = (case parse_u32 p of Some n \<Rightarrow> List.insert n ids | None \<Rightarrow> ids)"

definition self_line :: "string \<Rightarrow> u32 list \<Rightarrow> u32 list" where
  "self_line line ids =
    (let ids = (case strip_prefix ''NSpid:'' line of Some rest \<Rightarrow> fold insert_parsed (split_ws [] rest) ids | None \<Rightarrow> ids)
     in case strip_prefix ''Tgid:'' line of Some rest \<Rightarrow> insert_parsed (trim rest) ids | None \<Rightarrow> ids)"

definition collect_self_ids :: "file_system \<Rightarrow> (string \<Rightarrow> string list option) \<Rightarrow> u32 \<Rightarrow> u32 list" where
  "collect_self_ids rd read_dir agent_tgid =
    (let ids = [agent_tgid];
         ids = (case read_to_string rd ''/proc/self/status'' of Some st \<Rightarrow> fold self_line (str_lines st) ids | None \<Rightarrow> ids)
     in case read_dir ''/proc/self/task'' of Some names \<Rightarrow> fold insert_parsed names ids | None \<Rightarrow> ids)"

section \<open>Publication into the kernel maps\<close>

text \<open>A kernel map is used through its insertion and removal, each of which may fail.\<close>

type_synonym 'm map_op = "u32 \<Rightarrow> 'm \<Rightarrow> 'm option"

definition publish_remove :: "'m map_op \<Rightarrow> u32 \<Rightarrow> 'm \<times> u32 list \<Rightarrow> 'm \<times> u32 list" where
  "publish_remove rem t mp =
    (case rem t (fst mp) of Some m \<Rightarrow> (m, List.removeAll t (snd mp)) | None \<Rightarrow> mp)"

definition publish_insert :: "'m map_op \<Rightarrow> u32 \<Rightarrow> 'm \<times> u32 list \<Rightarrow> 'm \<times> u32 list" where
  "publish_insert ins t mp =
    (case ins t (fst mp) of None \<Rightarrow> mp | Some m \<Rightarrow> (m, List.insert t (snd mp)))"

definition apply_tgid_hashmap :: "'m map_op \<Rightarrow> 'm map_op \<Rightarrow> u32 list \<Rightarrow> 'm \<times> u32 list \<Rightarrow> 'm \<times> u32 list" where
  "apply_tgid_hashmap ins rem desired mp =
    (case tgid_map_delta (snd mp) desired of (to_remove, to_insert) \<Rightarrow>
       fold (publish_insert ins) to_insert (fold (publish_remove rem) to_remove mp))"

definition lazy_deny_insert :: "'m map_op \<Rightarrow> CommFilter \<Rightarrow> u32 \<Rightarrow> 'm \<times> u32 list \<Rightarrow> 'm \<times> u32 list" where
  "lazy_deny_insert ins f tgid mp =
    (if is_allow_only f then mp
     else if tgid \<in> set (snd mp) then mp
     else case ins tgid (fst mp) of None \<Rightarrow> mp | Some m \<Rightarrow> (m, List.insert tgid (snd mp)))"

record 'm CaptureMaps =
  cm_denied :: "'m \<times> u32 list"
  cm_allowed :: "'m \<times> u32 list"
  cm_allow_only :: u32
  cm_self_ids :: "u32 list"
  cm_bpf_self_ids :: "u32 list"

text \<open>\<open>set_flag\<close> is the write to the one-element array, which may fail.\<close>

definition sweep_capture_maps ::
  "'m map_op \<Rightarrow> 'm map_op \<Rightarrow> (u32 \<Rightarrow> u32 \<Rightarrow> u32 option) \<Rightarrow> file_system \<Rightarrow> (string \<Rightarrow> string list option) \<Rightarrow> string
    \<Rightarrow> u32 \<Rightarrow> CommFilter \<Rightarrow> 'm CaptureMaps \<Rightarrow> 'm CaptureMaps" where
  "sweep_capture_maps ins rem set_flag rd read_dir root agent_tgid f s =
    (let s = s\<lparr>cm_self_ids := collect_self_ids rd read_dir agent_tgid\<rparr>;
         flag = (if is_allow_only f then 1 else 0);
         s = (case set_flag flag (cm_allow_only s) of Some v \<Rightarrow> s\<lparr>cm_allow_only := v\<rparr> | None \<Rightarrow> s)
     in if is_allow_only f
        then let desired = allowed_tgids_from_proc rd read_dir root f
          in s\<lparr>cm_allowed := apply_tgid_hashmap ins rem desired (cm_allowed s)\<rparr>
        else let extras = fold List.insert (cm_bpf_self_ids s) [agent_tgid];
                 desired = denied_tgids_from_proc rd read_dir root f extras
          in s\<lparr>cm_denied := apply_tgid_hashmap ins rem desired (cm_denied s)\<rparr>)"

section \<open>Classification\<close>

lemma dropWhile_ends: "dropWhile P (rev (dropWhile P (rev s))) = rev (dropWhile P (rev (dropWhile P s)))"
proof (induction s)
  case (Cons x s)
  then show ?case
    by (cases "\<forall>y \<in> set s. P y") (auto simp: dropWhile_append dropWhile_eq_Nil_conv dest: set_dropWhileD)
qed simp

lemma trim_idem: "trim (trim s) = trim s"
proof -
  have "dropWhile P (dropWhile P xs) = dropWhile P xs" for P :: "char \<Rightarrow> bool" and xs
    by (induction xs) auto
  then show ?thesis
    unfolding trim_def by (simp add: dropWhile_ends [symmetric])
qed

text \<open>What is observed: an event passes if and only if neither its process nor its thread is the agent, its
  command is not the agent's, and its command is on the allow list when there is one and off the deny list
  otherwise.\<close>

theorem classify_ingest_keep:
  "classify_ingest tgid pid ids c f = Keep \<longleftrightarrow>
    tgid \<notin> set ids \<and> pid \<notin> set ids \<and> trim c \<noteq> ''obsagent'' \<and>
    (case cf_allow f of Some allow \<Rightarrow> trim c \<in> set allow | None \<Rightarrow> trim c \<notin> set (cf_deny f))"
  by (auto simp: classify_ingest_def is_self_ids_def is_self_comm_def filter_allow_def SELF_COMM_def trim_idem
      split: option.splits)

section \<open>The process ids of a filter\<close>

definition leader_entry :: "file_system \<Rightarrow> string \<Rightarrow> string \<Rightarrow> (u32 \<times> string) option" where
  "leader_entry rd root name =
    (case parse_u32 name of None \<Rightarrow> None
     | Some pid \<Rightarrow>
       if is_thread_group_leader
           (case read_to_string rd (path_join (path_join root name) ''status'') of None \<Rightarrow> [] | Some t \<Rightarrow> t) pid
       then case read_to_string rd (path_join (path_join root name) ''comm'') of
           None \<Rightarrow> None
         | Some t \<Rightarrow> if trim t = [] then None else Some (pid, trim t)
       else None)"

fun visit_all :: "(u32 \<Rightarrow> string \<Rightarrow> 's \<Rightarrow> bool \<times> 's) \<Rightarrow> (u32 \<times> string) list \<Rightarrow> 's \<Rightarrow> 's" where
  "visit_all visit [] s = s"
| "visit_all visit (e # es) s =
    (case visit (fst e) (snd e) s of (go, s') \<Rightarrow> if go then visit_all visit es s' else s')"

lemma leader_loop_visit: "leader_loop rd root visit names s = visit_all visit (List.map_filter (leader_entry rd root) names) s"
  by (induction names arbitrary: s)
    (auto simp: leader_entry_def List.map_filter_simps Let_def split: option.splits if_splits prod.splits)

abbreviation leaders :: "file_system \<Rightarrow> (string \<Rightarrow> string list option) \<Rightarrow> string \<Rightarrow> (u32 \<times> string) list" where
  "leaders rd read_dir root \<equiv>
    List.map_filter (leader_entry rd root) (case read_dir root of None \<Rightarrow> [] | Some names \<Rightarrow> names)"

lemma for_each_leader_visit: "for_each_leader_comm rd read_dir root visit s = visit_all visit (leaders rd read_dir root) s"
  by (simp add: for_each_leader_comm_def leader_loop_visit split: option.split)

abbreviation visit_rejected :: "CommFilter \<Rightarrow> (u32 \<times> string) list \<Rightarrow> u32 list \<Rightarrow> u32 list" where
  "visit_rejected f es out \<equiv> visit_all (visit_denied f) es out"

definition add_rejected :: "CommFilter \<Rightarrow> u32 \<times> string \<Rightarrow> u32 list \<Rightarrow> u32 list" where
  "add_rejected f e out = (if fst e \<notin> set out \<and> \<not> filter_allow f (snd e) then List.insert (fst e) out else out)"

lemma add_rejected_facts:
  "set (add_rejected f e out) = (if filter_allow f (snd e) then set out else insert (fst e) (set out))"
  "length out \<le> length (add_rejected f e out)" "length (add_rejected f e out) \<le> Suc (length out)"
  by (auto simp: add_rejected_def)

lemma visit_rejected_Cons:
  "visit_rejected f (e # es) out =
    (if length out \<ge> DENIED_TGID_CAP then out else visit_rejected f es (add_rejected f e out))"
  by (simp add: visit_denied_def add_rejected_def)

declare visit_all.simps(2) [simp del]

lemma visit_denied_grows: "set out \<subseteq> set (visit_rejected f es out)" "length out \<le> length (visit_rejected f es out)"
proof -
  have "set out \<subseteq> set (visit_rejected f es out) \<and> length out \<le> length (visit_rejected f es out)"
  proof (induction es arbitrary: out)
    case (Cons e es)
    have "set out \<subseteq> set (add_rejected f e out)"
      by (auto simp: add_rejected_facts(1))
    then show ?case
      using Cons [of "add_rejected f e out"] add_rejected_facts(2) [of out f e]
      by (auto simp: visit_rejected_Cons)
  qed simp
  then show "set out \<subseteq> set (visit_rejected f es out)" "length out \<le> length (visit_rejected f es out)"
    by auto
qed

lemma visit_denied_bounded: "length out \<le> DENIED_TGID_CAP \<Longrightarrow> length (visit_rejected f es out) \<le> DENIED_TGID_CAP"
proof (induction es arbitrary: out)
  case (Cons e es)
  then show ?case
    using Cons.IH [of "add_rejected f e out"] add_rejected_facts(3) [of f e out]
    by (simp add: visit_rejected_Cons)
qed simp

lemma visit_denied_distinct: "distinct out \<Longrightarrow> distinct (visit_rejected f es out)"
proof (induction es arbitrary: out)
  case (Cons e es)
  have "distinct (add_rejected f e out)"
    using Cons.prems by (simp add: add_rejected_def)
  then show ?case
    using Cons by (simp add: visit_rejected_Cons)
qed simp

lemma visit_denied_sound:
  "t \<in> set (visit_rejected f es out) \<Longrightarrow> t \<in> set out \<or> (\<exists>c. (t, c) \<in> set es \<and> \<not> filter_allow f c)"
proof (induction es arbitrary: out)
  case (Cons e es)
  show ?case
  proof (cases "length out \<ge> DENIED_TGID_CAP")
    case False
    then have "t \<in> set (add_rejected f e out) \<or> (\<exists>c. (t, c) \<in> set es \<and> \<not> filter_allow f c)"
      using Cons by (simp add: visit_rejected_Cons)
    then show ?thesis
      by (cases e) (auto simp: add_rejected_facts(1) split: if_splits)
  qed (use Cons.prems in \<open>simp add: visit_rejected_Cons\<close>)
qed simp

lemma visit_denied_complete:
  "length (visit_rejected f es out) < DENIED_TGID_CAP \<Longrightarrow> (t, c) \<in> set es \<Longrightarrow> \<not> filter_allow f c \<Longrightarrow>
    t \<in> set (visit_rejected f es out)"
proof (induction es arbitrary: out)
  case (Cons e es)
  have small: "length out < DENIED_TGID_CAP"
    using visit_denied_grows(2) [of out f "e # es"] Cons.prems(1) by simp
  then have step: "visit_rejected f (e # es) out = visit_rejected f es (add_rejected f e out)"
    by (simp add: visit_rejected_Cons)
  show ?case
  proof (cases "e = (t, c)")
    case True
    then have "t \<in> set (add_rejected f e out)"
      using Cons.prems(3) by (simp add: add_rejected_facts(1))
    then show ?thesis
      using visit_denied_grows(1) [of "add_rejected f e out" f es] unfolding step by blast
  next
    case False
    then show ?thesis
      using Cons.IH [of "add_rejected f e out"] Cons.prems unfolding step by simp
  qed
qed simp

section \<open>Publication\<close>

text \<open>A kernel map: what an operation does when it succeeds, and when it may fail.\<close>

definition map_sound :: "('m \<Rightarrow> u32 set) \<Rightarrow> 'm map_op \<Rightarrow> 'm map_op \<Rightarrow> bool" where
  "map_sound keys ins rem \<longleftrightarrow>
    (\<forall>t m m'. ins t m = Some m' \<longrightarrow> keys m' = insert t (keys m)) \<and>
    (\<forall>t m m'. rem t m = Some m' \<longrightarrow> keys m' = keys m - {t})"

definition map_total :: "('m \<Rightarrow> u32 set) \<Rightarrow> nat \<Rightarrow> 'm map_op \<Rightarrow> 'm map_op \<Rightarrow> bool" where
  "map_total keys cap ins rem \<longleftrightarrow>
    (\<forall>t m. ins t m = None \<longrightarrow> t \<notin> keys m \<and> cap \<le> card (keys m)) \<and> (\<forall>t m. rem t m = None \<longrightarrow> t \<notin> keys m)"

abbreviation mirrored :: "('m \<Rightarrow> u32 set) \<Rightarrow> 'm \<times> u32 list \<Rightarrow> bool" where
  "mirrored keys mp \<equiv> keys (fst mp) = set (snd mp)"

lemma publish_mirrored:
  assumes "map_sound keys ins rem" "mirrored keys mp"
  shows "mirrored keys (publish_insert ins t mp)" "mirrored keys (publish_remove rem t mp)"
  using assms by (auto simp: map_sound_def publish_insert_def publish_remove_def split: option.splits)

lemma fold_mirrored:
  assumes "map_sound keys ins rem"
  shows "mirrored keys mp \<Longrightarrow> mirrored keys (fold (publish_insert ins) ts mp)"
    "mirrored keys mp \<Longrightarrow> mirrored keys (fold (publish_remove rem) ts mp)"
  using publish_mirrored [OF assms] by (induction ts arbitrary: mp) simp_all

lemma map_totalD:
  assumes "map_total keys cap ins rem" "mirrored keys mp"
  shows "ins t (fst mp) = None \<Longrightarrow> t \<notin> set (snd mp) \<and> cap \<le> card (set (snd mp))"
    "rem t (fst mp) = None \<Longrightarrow> t \<notin> set (snd mp)"
  using assms unfolding map_total_def by metis+

lemma fold_remove:
  assumes "map_total keys cap ins rem" "map_sound keys ins rem"
  shows "mirrored keys mp \<Longrightarrow> set (snd (fold (publish_remove rem) ts mp)) = set (snd mp) - set ts"
proof (induction ts arbitrary: mp)
  case (Cons t ts)
  have "set (snd (publish_remove rem t mp)) = set (snd mp) - {t}"
    using map_totalD(2) [OF assms(1) Cons.prems, of t] by (auto simp: publish_remove_def split: option.splits)
  then show ?case
    using Cons.IH [OF publish_mirrored(2) [OF assms(2) Cons.prems], of t] by auto
qed simp

lemma fold_insert:
  assumes "map_total keys cap ins rem" "map_sound keys ins rem" "finite D" "card D \<le> cap"
  shows "mirrored keys mp \<Longrightarrow> set (snd mp) \<subseteq> D \<Longrightarrow> set ts \<subseteq> D \<Longrightarrow>
    set (snd (fold (publish_insert ins) ts mp)) = set (snd mp) \<union> set ts"
proof (induction ts arbitrary: mp)
  case (Cons t ts)
  have "set (snd mp) \<subset> D" if "t \<notin> set (snd mp)"
    using Cons.prems(2,3) that by auto
  then have "card (set (snd mp)) < cap" if "t \<notin> set (snd mp)"
    using psubset_card_mono [OF assms(3)] assms(4) that by (meson less_le_trans)
  then have "set (snd (publish_insert ins t mp)) = insert t (set (snd mp))"
    using map_totalD(1) [OF assms(1) Cons.prems(1), of t]
    by (cases "ins t (fst mp)") (fastforce simp: publish_insert_def)+
  then show ?case
    using Cons.IH [OF publish_mirrored(1) [OF assms(2) Cons.prems(1)], of t] Cons.prems(2,3) by auto
qed simp

lemma apply_mirrored:
  "map_sound keys ins rem \<Longrightarrow> mirrored keys mp \<Longrightarrow> mirrored keys (apply_tgid_hashmap ins rem desired mp)"
  by (simp add: apply_tgid_hashmap_def tgid_map_delta_def fold_mirrored)

lemma apply_exact:
  assumes "map_total keys cap ins rem" "map_sound keys ins rem" "mirrored keys mp" "card (set desired) \<le> cap"
  shows "set (snd (apply_tgid_hashmap ins rem desired mp)) = set desired"
proof -
  let ?mp = "fold (publish_remove rem) (filter (\<lambda>t. t \<notin> set desired) (snd mp)) mp"
  have kept: "set (snd ?mp) = set (snd mp) \<inter> set desired"
    using fold_remove [OF assms(1,2,3), of "filter (\<lambda>t. t \<notin> set desired) (snd mp)"] by auto
  have sub: "set (snd ?mp) \<subseteq> set desired" "set (filter (\<lambda>t. t \<notin> set (snd mp)) desired) \<subseteq> set desired"
    using kept by auto
  have "set (snd (fold (publish_insert ins) (filter (\<lambda>t. t \<notin> set (snd mp)) desired) ?mp)) =
      set (snd ?mp) \<union> set (filter (\<lambda>t. t \<notin> set (snd mp)) desired)"
    by (rule fold_insert [OF assms(1,2) finite_set assms(4) fold_mirrored(2) [OF assms(2,3)] sub])
  also have "\<dots> = set desired"
    unfolding kept by auto
  finally show ?thesis
    by (simp only: apply_tgid_hashmap_def tgid_map_delta_def prod.case)
qed

lemma lazy_mirrored: "map_sound keys ins rem \<Longrightarrow> mirrored keys mp \<Longrightarrow> mirrored keys (lazy_deny_insert ins f t mp)"
  using publish_mirrored(1) [of keys ins rem mp t] by (simp add: lazy_deny_insert_def publish_insert_def)

lemma fold_insert_list: "set (fold List.insert xs ys) = set xs \<union> set ys" "length (fold List.insert xs ys) \<le> length xs + length ys"
proof -
  show "set (fold List.insert xs ys) = set xs \<union> set ys"
    by (induction xs arbitrary: ys) auto
  show "length (fold List.insert xs ys) \<le> length xs + length ys"
  proof (induction xs arbitrary: ys)
    case (Cons x xs)
    have "length (List.insert x ys) \<le> Suc (length ys)"
      by (simp add: List.insert_def)
    then show ?case
      using Cons [of "List.insert x ys"] by simp
  qed simp
qed

lemma denied_tgids_visit:
  "denied_tgids_from_proc rd read_dir root f extra = visit_rejected f (leaders rd read_dir root) extra"
  by (simp add: denied_tgids_from_proc_def for_each_leader_visit)

lemma fold_insert_distinct: "distinct ys \<Longrightarrow> distinct (fold List.insert xs ys)"
  by (induction xs arbitrary: ys) simp_all

abbreviation rejected :: "file_system \<Rightarrow> (string \<Rightarrow> string list option) \<Rightarrow> string \<Rightarrow> CommFilter \<Rightarrow> u32 set" where
  "rejected rd read_dir root f \<equiv> {t. \<exists>c. (t, c) \<in> set (leaders rd read_dir root) \<and> \<not> filter_allow f c}"

lemma denied_tgids_exact:
  fixes rd :: file_system and f :: CommFilter and root :: string and extra :: "u32 list"
    and read_dir :: "string \<Rightarrow> string list option"
  assumes "distinct extra" "length extra \<le> DENIED_TGID_CAP"
  defines "out \<equiv> denied_tgids_from_proc rd read_dir root f extra"
  shows "card (set out) \<le> DENIED_TGID_CAP" "set extra \<subseteq> set out" "set out \<subseteq> set extra \<union> rejected rd read_dir root f"
    "card (set out) = DENIED_TGID_CAP \<or> rejected rd read_dir root f \<subseteq> set out"
proof -
  let ?es = "leaders rd read_dir root"
  have out: "out = visit_rejected f ?es extra"
    by (simp only: out_def denied_tgids_visit)
  have card: "card (set out) = length out"
    unfolding out by (intro distinct_card visit_denied_distinct assms(1))
  have len: "length out \<le> DENIED_TGID_CAP"
    unfolding out by (rule visit_denied_bounded [OF assms(2)])
  then show "card (set out) \<le> DENIED_TGID_CAP"
    by (simp only: card)
  show "set extra \<subseteq> set out"
    unfolding out by (rule visit_denied_grows)
  show "set out \<subseteq> set extra \<union> rejected rd read_dir root f"
    using visit_denied_sound [of _ f ?es extra] unfolding out by blast
  show "card (set out) = DENIED_TGID_CAP \<or> rejected rd read_dir root f \<subseteq> set out"
    using visit_denied_complete [of f ?es extra] len unfolding card unfolding out by (auto simp: le_less)
qed

text \<open>C29. A sweep in deny mode leaves the kernel map exactly right: it holds the agent's own ids, every other id
  in it is a process whose command is rejected, every rejected process is in it unless the map is full, the
  userspace copy agrees with it, and the allow map is untouched.\<close>

theorem sweep_denied_exact:
  assumes laws: "map_sound keys ins rem" "map_total keys DENIED_TGID_CAP ins rem"
    and mirror: "mirrored keys (cm_denied s)"
    and mode: "\<not> is_allow_only f"
    and room: "length (cm_bpf_self_ids s) < DENIED_TGID_CAP"
    and run: "s' = sweep_capture_maps ins rem set_flag rd read_dir root agent f s"
  shows "mirrored keys (cm_denied s') \<and> cm_allowed s' = cm_allowed s \<and>
    insert agent (set (cm_bpf_self_ids s)) \<subseteq> keys (fst (cm_denied s')) \<and>
    keys (fst (cm_denied s')) \<subseteq> insert agent (set (cm_bpf_self_ids s)) \<union> rejected rd read_dir root f \<and>
    (card (keys (fst (cm_denied s'))) = DENIED_TGID_CAP \<or> rejected rd read_dir root f \<subseteq> keys (fst (cm_denied s')))"
proof -
  let ?extra = "fold List.insert (cm_bpf_self_ids s) [agent]"
  let ?want = "denied_tgids_from_proc rd read_dir root f ?extra"
  have denied: "cm_denied s' = apply_tgid_hashmap ins rem ?want (cm_denied s)" and allowed: "cm_allowed s' = cm_allowed s"
    using mode by (simp_all add: run sweep_capture_maps_def Let_def split: option.split)
  have extra: "distinct ?extra" "length ?extra \<le> DENIED_TGID_CAP" "set ?extra = insert agent (set (cm_bpf_self_ids s))"
    using fold_insert_list [of "cm_bpf_self_ids s" "[agent]"] fold_insert_distinct [of "[agent]" "cm_bpf_self_ids s"] room
    by auto
  note want = denied_tgids_exact [OF extra(1,2), of rd read_dir root f, unfolded extra(3)]
  have m: "mirrored keys (cm_denied s')"
    unfolding denied by (rule apply_mirrored [OF laws(1) mirror])
  moreover have "set (snd (cm_denied s')) = set ?want"
    unfolding denied by (rule apply_exact [OF laws(2,1) mirror want(1)])
  ultimately show ?thesis
    using want(2-4) allowed by (simp only: simp_thms)
qed

text \<open>A kernel map as a list of at most \<open>DENIED_TGID_CAP\<close> keys.\<close>

definition demo_ins :: "u32 list map_op" where
  "demo_ins t m = (if t \<in> set m \<or> card (set m) < DENIED_TGID_CAP then Some (List.insert t m) else None)"

definition demo_rem :: "u32 list map_op" where
  "demo_rem t m = (if t \<in> set m then Some (removeAll t m) else None)"

theorem sweep_denied_exact_witness:
  "{7, 9} \<subseteq> set (fst (cm_denied (sweep_capture_maps demo_ins demo_rem (\<lambda>v _. Some v) (\<lambda>_. None) (\<lambda>_. None) ''/proc'' 7
    (CommFilter_new [] None True) \<lparr>cm_denied = ([3], [3]), cm_allowed = ([], []), cm_allow_only = 0, cm_self_ids = [],
      cm_bpf_self_ids = [9]\<rparr>)))"
proof -
  have "map_sound set demo_ins demo_rem" "map_total set DENIED_TGID_CAP demo_ins demo_rem"
    by (auto simp: map_sound_def map_total_def demo_ins_def demo_rem_def split: if_splits)
  moreover have "\<not> is_allow_only (CommFilter_new [] None True)" "1 < DENIED_TGID_CAP"
    by (simp_all add: is_allow_only_def CommFilter_new_def DENIED_TGID_CAP_def DENIED_TGID_ENTRIES_def PENDING_MAP_ENTRIES_def)
  ultimately show ?thesis
    using sweep_denied_exact [of set demo_ins demo_rem "\<lparr>cm_denied = ([3], [3]), cm_allowed = ([], []), cm_allow_only = 0,
      cm_self_ids = [], cm_bpf_self_ids = [9]\<rparr>" "CommFilter_new [] None True" _ "\<lambda>v _. Some v" "\<lambda>_. None" "\<lambda>_. None" "''/proc''" 7]
    by auto
qed

end
