(* ===== verification/K8s_Index.thy ===== *)
theory K8s_Index
  imports Comm_Filter
begin

text \<open>
  The Kubernetes index (\<open>src/agent/src/k8s_index.rs\<close>): pods and services by address and UID, built from paged
  API lists and replaced as a whole. The HTTP client and the JSON decoder (\<open>reqwest\<close>, \<open>serde_json\<close>)
  are parameters: a page is fetched for a page number and a continue token, and decoded into the source's records.
\<close>

section \<open>Model\<close>

definition MAX_LIST_PAGES :: nat where "MAX_LIST_PAGES = 512"

type_synonym owner = "string \<times> string"

record PodIndex =
  pi_by_pod_ip :: "(u32, owner) hashmap"
  pi_by_cluster_ip :: "(u32, owner) hashmap"
  pi_by_uid :: "(string, owner) hashmap"

definition PodIndex_default :: PodIndex where
  "PodIndex_default = \<lparr>pi_by_pod_ip = [], pi_by_cluster_ip = [], pi_by_uid = []\<rparr>"

definition lookup_ip :: "PodIndex \<Rightarrow> u32 \<Rightarrow> owner option" where
  "lookup_ip p daddr_raw =
    (case hm_get (pi_by_pod_ip p) daddr_raw of Some o1 \<Rightarrow> Some o1 | None \<Rightarrow> hm_get (pi_by_cluster_ip p) daddr_raw)"

definition lookup_uid :: "PodIndex \<Rightarrow> string \<Rightarrow> owner option" where
  "lookup_uid p uid = hm_get (pi_by_uid p) uid"

definition pod_count :: "PodIndex \<Rightarrow> nat" where "pod_count p = length (pi_by_uid p)"

definition pod_ip_count :: "PodIndex \<Rightarrow> nat" where "pod_ip_count p = length (pi_by_pod_ip p)"

definition service_ip_count :: "PodIndex \<Rightarrow> nat" where "service_ip_count p = length (pi_by_cluster_ip p)"

definition pod_index_is_empty :: "PodIndex \<Rightarrow> bool" where
  "pod_index_is_empty p \<longleftrightarrow> pi_by_uid p = [] \<and> pi_by_pod_ip p = [] \<and> pi_by_cluster_ip p = []"

text \<open>\<open>HashMap::extend\<close>.\<close>

definition hm_extend :: "('k, 'v) hashmap \<Rightarrow> ('k, 'v) hashmap \<Rightarrow> ('k, 'v) hashmap" where
  "hm_extend m new = fold (\<lambda>kv. hm_insert (fst kv) (snd kv)) new m"

definition absorb_pods :: "PodIndex \<Rightarrow> PodIndex \<Rightarrow> PodIndex" where
  "absorb_pods p other =
    p\<lparr>pi_by_uid := hm_extend (pi_by_uid p) (pi_by_uid other),
      pi_by_pod_ip := hm_extend (pi_by_pod_ip p) (pi_by_pod_ip other)\<rparr>"

definition poll_jitter_ms :: "u64 \<Rightarrow> u64 \<Rightarrow> u64" where
  "poll_jitter_ms pid nanos = 250 + (xor (pid * 2654435761) nanos) mod 4750"

definition api_base :: "string \<Rightarrow> string \<Rightarrow> string" where
  "api_base host port =
    (if CHR '':'' \<in> set host \<and> \<not> starts_with host ''['' then ''https://['' @ host @ '']:'' @ port
     else ''https://'' @ host @ '':'' @ port)"

section \<open>Decoded lists\<close>

record ObjectMeta =
  om_name :: "string option"
  om_namespace :: "string option"
  om_uid :: "string option"
  om_deletion_timestamp :: "string option"

record PodSpec =
  ps_host_network :: bool

record PodStatus =
  pt_phase :: "string option"
  pt_pod_ip :: "string option"
  pt_pod_ips :: "string option list option"

record PodItem =
  po_metadata :: "ObjectMeta option"
  po_spec :: "PodSpec option"
  po_status :: "PodStatus option"

record ServiceSpec =
  se_cluster_ip :: "string option"
  se_cluster_ips :: "string list option"

record ServiceItem =
  si_metadata :: "ObjectMeta option"
  si_spec :: "ServiceSpec option"

text \<open>\<open>metadata.continue\<close> is present when both the metadata and the field are.\<close>

record 'i KubeList =
  kl_metadata :: "string option option"
  kl_items :: "'i list option"

datatype ListError = FetchFailed | BadJson | MissingItems | TooManyPages

definition list_continue :: "string option option \<Rightarrow> string option" where
  "list_continue meta =
    (case meta of Some (Some c) \<Rightarrow> if c \<noteq> [] then Some c else None | _ \<Rightarrow> None)"

text \<open>\<open>str::parse::<Ipv4Addr>\<close>: four decimal numbers up to 255 without leading zeros.\<close>

definition parse_octet :: "string \<Rightarrow> u8 option" where
  "parse_octet s =
    (if s \<noteq> [] \<and> length s \<le> 3 \<and> list_all is_ascii_digit s \<and> (hd s = CHR ''0'' \<longrightarrow> length s = 1) \<and> read_nat s < 256
     then Some (of_nat (read_nat s)) else None)"

definition parse_ipv4 :: "string \<Rightarrow> bytes option" where
  "parse_ipv4 s =
    (case map parse_octet (split_on CHR ''.'' s) of
       [Some a, Some b, Some c, Some d] \<Rightarrow> Some [a, b, c, d]
     | _ \<Rightarrow> None)"

definition insert_v4_ip :: "string \<Rightarrow> string \<Rightarrow> string \<Rightarrow> (u32, owner) hashmap \<Rightarrow> (u32, owner) hashmap" where
  "insert_v4_ip ip ns name m =
    (if ip = [] \<or> eq_ignore_ascii_case ip ''none'' then m
     else case parse_ipv4 ip of
       None \<Rightarrow> m
     | Some octets \<Rightarrow> hm_insert (from_le octets) (ns, name) m)"

definition pod_ips_of :: "PodStatus \<Rightarrow> string list" where
  "pod_ips_of st =
    (case pt_pod_ip st of Some ip \<Rightarrow> [ip] | None \<Rightarrow> []) @
    (case pt_pod_ips st of Some ips \<Rightarrow> List.map_filter (\<lambda>e. e) ips | None \<Rightarrow> [])"

abbreviation str_or_empty :: "string option \<Rightarrow> string" where
  "str_or_empty s \<equiv> (case s of None \<Rightarrow> [] | Some t \<Rightarrow> t)"

definition index_pod :: "PodItem \<Rightarrow> PodIndex \<Rightarrow> PodIndex" where
  "index_pod item index =
    (case po_metadata item of
       None \<Rightarrow> index
     | Some meta \<Rightarrow>
       let name = str_or_empty (om_name meta); ns = str_or_empty (om_namespace meta); uid = str_or_empty (om_uid meta)
       in if name = [] \<or> ns = [] then index
          else let index = (if uid \<noteq> [] then index\<lparr>pi_by_uid := hm_insert uid (ns, name) (pi_by_uid index)\<rparr> else index);
              deleting = (case om_deletion_timestamp meta of Some t \<Rightarrow> t \<noteq> [] | None \<Rightarrow> False);
              host_network = (case po_spec item of Some sp \<Rightarrow> ps_host_network sp | None \<Rightarrow> False);
              running = (case po_status item of Some st \<Rightarrow> pt_phase st = Some ''Running'' | None \<Rightarrow> False)
            in if \<not> running \<or> host_network \<or> deleting then index
               else case po_status item of
                 None \<Rightarrow> index
               | Some st \<Rightarrow> index\<lparr>pi_by_pod_ip := fold (\<lambda>ip. insert_v4_ip ip ns name) (pod_ips_of st) (pi_by_pod_ip index)\<rparr>)"

definition parse_pod_list_page ::
  "(string \<Rightarrow> PodItem KubeList option) \<Rightarrow> string \<Rightarrow> ListError + PodIndex \<times> string option" where
  "parse_pod_list_page from_str body =
    (case from_str body of
       None \<Rightarrow> Inl BadJson
     | Some l \<Rightarrow>
       (case kl_items l of
          None \<Rightarrow> Inl MissingItems
        | Some items \<Rightarrow> Inr (fold index_pod items PodIndex_default, list_continue (kl_metadata l))))"

definition index_service :: "ServiceItem \<Rightarrow> (u32, owner) hashmap \<Rightarrow> (u32, owner) hashmap" where
  "index_service item m =
    (case si_metadata item of
       None \<Rightarrow> m
     | Some meta \<Rightarrow>
       let name = str_or_empty (om_name meta); ns = str_or_empty (om_namespace meta)
       in if name = [] \<or> ns = [] then m
          else case si_spec item of
            None \<Rightarrow> m
          | Some spec \<Rightarrow>
            let m = (case se_cluster_ip spec of Some ip \<Rightarrow> insert_v4_ip ip ns name m | None \<Rightarrow> m)
            in case se_cluster_ips spec of
                 Some ips \<Rightarrow> fold (\<lambda>ip. insert_v4_ip ip ns name) ips m
               | None \<Rightarrow> m)"

definition parse_service_list_page ::
  "(string \<Rightarrow> ServiceItem KubeList option) \<Rightarrow> string \<Rightarrow> ListError + (u32, owner) hashmap \<times> string option" where
  "parse_service_list_page from_str body =
    (case from_str body of
       None \<Rightarrow> Inl BadJson
     | Some l \<Rightarrow>
       (case kl_items l of
          None \<Rightarrow> Inl MissingItems
        | Some items \<Rightarrow> Inr (fold index_service items [], list_continue (kl_metadata l))))"

section \<open>Paging and refresh\<close>

type_synonym fetch = "nat \<Rightarrow> string option \<Rightarrow> string option"

text \<open>The paging loop of both lists: \<open>fuel\<close> is the number of pages still allowed by \<open>MAX_LIST_PAGES\<close>.\<close>

fun list_pages ::
  "fetch \<Rightarrow> (string \<Rightarrow> ListError + 'p \<times> string option) \<Rightarrow> ('a \<Rightarrow> 'p \<Rightarrow> 'a) \<Rightarrow> nat \<Rightarrow> nat \<Rightarrow> string option \<Rightarrow> 'a
    \<Rightarrow> ListError + 'a" where
  "list_pages get parse absorb 0 page tok acc = Inl TooManyPages"
| "list_pages get parse absorb (Suc fuel) page tok acc =
    (case get page tok of
       None \<Rightarrow> Inl FetchFailed
     | Some body \<Rightarrow>
       (case parse body of
          Inl e \<Rightarrow> Inl e
        | Inr (p, next) \<Rightarrow>
          let acc = absorb acc p
          in case next of
               Some c \<Rightarrow> if c \<noteq> [] then list_pages get parse absorb fuel (page + 1) (Some c) acc else Inr acc
             | None \<Rightarrow> Inr acc))"

definition list_all_pods :: "(string \<Rightarrow> PodItem KubeList option) \<Rightarrow> fetch \<Rightarrow> ListError + PodIndex" where
  "list_all_pods from_str get =
    list_pages get (parse_pod_list_page from_str) absorb_pods MAX_LIST_PAGES 0 None PodIndex_default"

definition list_all_services :: "(string \<Rightarrow> ServiceItem KubeList option) \<Rightarrow> fetch \<Rightarrow> ListError + (u32, owner) hashmap" where
  "list_all_services from_str get =
    list_pages get (parse_service_list_page from_str) hm_extend MAX_LIST_PAGES 0 None []"

text \<open>The environment and the token file are read before: \<open>configured\<close> tells whether that succeeded.\<close>

definition refresh_once ::
  "(string \<Rightarrow> PodItem KubeList option) \<Rightarrow> (string \<Rightarrow> ServiceItem KubeList option) \<Rightarrow> bool \<Rightarrow> fetch \<Rightarrow> fetch
    \<Rightarrow> (u32, owner) hashmap \<Rightarrow> ListError + PodIndex" where
  "refresh_once pods_of services_of configured get_pods get_services prev_cluster =
    (if \<not> configured then Inl FetchFailed
     else case list_all_pods pods_of get_pods of
       Inl e \<Rightarrow> Inl e
     | Inr next \<Rightarrow>
       (case list_all_services services_of get_services of
          Inr m \<Rightarrow> Inr (next\<lparr>pi_by_cluster_ip := m\<rparr>)
        | Inl e \<Rightarrow> Inr (next\<lparr>pi_by_cluster_ip := prev_cluster\<rparr>)))"

text \<open>One tick of the refresh task: the snapshot is replaced or kept.\<close>

definition refresh_tick ::
  "(string \<Rightarrow> PodItem KubeList option) \<Rightarrow> (string \<Rightarrow> ServiceItem KubeList option) \<Rightarrow> bool \<Rightarrow> fetch \<Rightarrow> fetch
    \<Rightarrow> PodIndex \<Rightarrow> PodIndex" where
  "refresh_tick pods_of services_of configured get_pods get_services idx =
    (case refresh_once pods_of services_of configured get_pods get_services (pi_by_cluster_ip idx) of
       Inr next \<Rightarrow> next
     | Inl e \<Rightarrow> idx)"

definition merge_lists ::
  "(string \<Rightarrow> PodItem KubeList option) \<Rightarrow> (string \<Rightarrow> ServiceItem KubeList option) \<Rightarrow> PodIndex \<Rightarrow> string option
    \<Rightarrow> string option \<Rightarrow> ListError + PodIndex option" where
  "merge_lists pods_of services_of prev pods_json services_json =
    (case pods_json of
       None \<Rightarrow> Inr None
     | Some pods_json \<Rightarrow>
       (case parse_pod_list_page pods_of pods_json of
          Inl e \<Rightarrow> Inl e
        | Inr (next, _) \<Rightarrow>
          Inr (Some (next\<lparr>pi_by_cluster_ip :=
            (case services_json of
               Some body \<Rightarrow> (case parse_service_list_page services_of body of
                   Inr (m, _) \<Rightarrow> m | Inl _ \<Rightarrow> pi_by_cluster_ip prev)
             | None \<Rightarrow> pi_by_cluster_ip prev)\<rparr>))))"

section \<open>Complete lists\<close>

text \<open>The pages of a list that the server serves up to its end.\<close>

inductive complete_list ::
  "fetch \<Rightarrow> (string \<Rightarrow> ListError + 'p \<times> string option) \<Rightarrow> nat \<Rightarrow> string option \<Rightarrow> 'p list \<Rightarrow> bool"
  for get :: fetch and parse :: "string \<Rightarrow> ListError + 'p \<times> string option" where
  last_page: "get page tok = Some body \<Longrightarrow> parse body = Inr (p, next) \<Longrightarrow> next \<in> {None, Some []} \<Longrightarrow>
    complete_list get parse page tok [p]"
| more_pages: "get page tok = Some body \<Longrightarrow> parse body = Inr (p, Some c) \<Longrightarrow> c \<noteq> [] \<Longrightarrow>
    complete_list get parse (page + 1) (Some c) ps \<Longrightarrow> complete_list get parse page tok (p # ps)"

lemma list_pages_complete:
  "complete_list get parse page tok ps \<Longrightarrow> length ps \<le> fuel \<Longrightarrow>
    list_pages get parse absorb fuel page tok acc = Inr (foldl absorb acc ps)"
proof (induction arbitrary: fuel acc rule: complete_list.induct)
  case (last_page page tok body p nxt)
  then show ?case
    by (cases fuel) auto
next
  case (more_pages page tok body p c ps)
  then show ?case
    by (cases fuel) auto
qed

lemma list_pages_sound:
  "list_pages get parse absorb fuel page tok acc = Inr r \<Longrightarrow>
    \<exists>ps. complete_list get parse page tok ps \<and> length ps \<le> fuel \<and> r = foldl absorb acc ps"
proof (induction fuel arbitrary: page tok acc)
  case (Suc fuel)
  then obtain body p nxt where page: "get page tok = Some body" "parse body = Inr (p, nxt)"
    by (auto split: option.splits sum.splits)
  show ?case
  proof (cases "nxt \<in> {None, Some []}")
    case True
    then show ?thesis
      using Suc.prems page complete_list.last_page [of get page tok body parse p nxt]
      by (intro exI [of _ "[p]"]) (auto simp: Let_def)
  next
    case False
    then obtain c where c: "nxt = Some c" "c \<noteq> []"
      by auto
    then have "list_pages get parse absorb fuel (page + 1) (Some c) (absorb acc p) = Inr r"
      using Suc.prems page by (simp add: Let_def)
    then obtain ps where "complete_list get parse (page + 1) (Some c) ps" "length ps \<le> fuel" "r = foldl absorb (absorb acc p) ps"
      using Suc.IH by blast
    then show ?thesis
      using complete_list.more_pages [of get page tok body parse p c ps] page c by (intro exI [of _ "p # ps"]) auto
  qed
qed simp

lemma list_pages_iff:
  "list_pages get parse absorb fuel page tok acc = Inr r \<longleftrightarrow>
    (\<exists>ps. complete_list get parse page tok ps \<and> length ps \<le> fuel \<and> r = foldl absorb acc ps)"
  using list_pages_sound list_pages_complete by metis

section \<open>What the index holds\<close>

text \<open>The addresses a pod is known by, as a specification: those of a running pod of its own network.\<close>

definition usable_ip :: "string \<Rightarrow> u32 option" where
  "usable_ip ip = (if ip = [] \<or> eq_ignore_ascii_case ip ''none'' then None else map_option from_le (parse_ipv4 ip))"

definition named :: "ObjectMeta option \<Rightarrow> owner option" where
  "named meta = (case meta of Some m \<Rightarrow>
       if str_or_empty (om_name m) \<noteq> [] \<and> str_or_empty (om_namespace m) \<noteq> []
       then Some (str_or_empty (om_namespace m), str_or_empty (om_name m)) else None
     | None \<Rightarrow> None)"

definition live_pod :: "PodItem \<Rightarrow> bool" where
  "live_pod item \<longleftrightarrow> (\<exists>st. po_status item = Some st \<and> pt_phase st = Some ''Running'') \<and>
    (\<forall>sp. po_spec item = Some sp \<longrightarrow> \<not> ps_host_network sp) \<and>
    (\<forall>m. po_metadata item = Some m \<longrightarrow> om_deletion_timestamp m \<in> {None, Some []})"

definition pod_addresses :: "PodItem \<Rightarrow> (u32 \<times> owner) list" where
  "pod_addresses item =
    (case (named (po_metadata item), po_status item) of
       (Some own, Some st) \<Rightarrow>
         if live_pod item then map (\<lambda>a. (a, own)) (List.map_filter usable_ip (pod_ips_of st)) else []
     | _ \<Rightarrow> [])"

definition pod_uid_entry :: "PodItem \<Rightarrow> (string \<times> owner) list" where
  "pod_uid_entry item =
    (case (named (po_metadata item), po_metadata item) of
       (Some own, Some meta) \<Rightarrow> if str_or_empty (om_uid meta) = [] then [] else [(str_or_empty (om_uid meta), own)]
     | _ \<Rightarrow> [])"

lemma hm_extend_get: "hm_get (hm_extend m xs) k = (case map_of (rev xs) k of Some v \<Rightarrow> Some v | None \<Rightarrow> hm_get m k)"
proof (induction xs arbitrary: m)
  case (Cons x xs)
  have "hm_extend m (x # xs) = hm_extend (hm_insert (fst x) (snd x) m) xs"
    by (simp add: hm_extend_def)
  then show ?case
    using Cons [of "hm_insert (fst x) (snd x) m"] by (auto simp: map_add_def split: option.split)
qed (simp add: hm_extend_def)

lemma hm_extend_append: "hm_extend m (xs @ ys) = hm_extend (hm_extend m xs) ys"
  by (simp add: hm_extend_def)

lemma insert_usable: "insert_v4_ip ip ns name m = (case usable_ip ip of None \<Rightarrow> m | Some a \<Rightarrow> hm_insert a (ns, name) m)"
  by (simp add: insert_v4_ip_def usable_ip_def split: option.split)

lemma fold_insert_ips:
  "fold (\<lambda>ip. insert_v4_ip ip ns name) ips m = hm_extend m (map (\<lambda>a. (a, (ns, name))) (List.map_filter usable_ip ips))"
  by (induction ips arbitrary: m)
    (simp_all add: insert_usable List.map_filter_simps hm_extend_def split: option.split)

lemma index_pod_ips: "pi_by_pod_ip (index_pod item idx) = hm_extend (pi_by_pod_ip idx) (pod_addresses item)"
proof (cases "named (po_metadata item)")
  case None
  then show ?thesis
    by (auto simp: index_pod_def pod_addresses_def named_def hm_extend_def Let_def split: option.splits if_splits)
next
  case (Some own)
  then obtain meta where meta: "po_metadata item = Some meta" "str_or_empty (om_name meta) \<noteq> []"
    "str_or_empty (om_namespace meta) \<noteq> []" "own = (str_or_empty (om_namespace meta), str_or_empty (om_name meta))"
    by (auto simp: named_def split: option.splits if_splits)
  show ?thesis
  proof (cases "live_pod item")
    case True
    then obtain st where "po_status item = Some st" "pt_phase st = Some ''Running''"
      by (auto simp: live_pod_def)
    then show ?thesis
      using True Some meta fold_insert_ips
      by (auto simp: index_pod_def pod_addresses_def live_pod_def Let_def split: option.split)
  next
    case False
    then show ?thesis
      using Some meta
      by (auto simp: index_pod_def pod_addresses_def live_pod_def hm_extend_def Let_def split: option.split)
  qed
qed

lemma index_pod_uid: "pi_by_uid (index_pod item idx) = hm_extend (pi_by_uid idx) (pod_uid_entry item)"
  by (auto simp: index_pod_def pod_uid_entry_def named_def hm_extend_def Let_def split: option.split)

lemma index_pods:
  "pi_by_pod_ip (fold index_pod items idx) = hm_extend (pi_by_pod_ip idx) (concat (map pod_addresses items))"
  "pi_by_uid (fold index_pod items idx) = hm_extend (pi_by_uid idx) (concat (map pod_uid_entry items))"
  by (induction items arbitrary: idx) (simp_all add: index_pod_ips index_pod_uid hm_extend_append, simp_all add: hm_extend_def)

text \<open>C39. The pod index is exact: an address belongs to the last listed pod that is named, running, not on the host
  network, not being deleted and has this address, and a UID to the last named pod with this UID.\<close>

theorem k8s_pod_index_exact:
  "hm_get (pi_by_pod_ip (fold index_pod items PodIndex_default)) a = map_of (rev (concat (map pod_addresses items))) a \<and>
    lookup_uid (fold index_pod items PodIndex_default) u = map_of (rev (concat (map pod_uid_entry items))) u"
  by (simp add: index_pods lookup_uid_def hm_extend_get PodIndex_default_def split: option.split)

definition service_addresses :: "ServiceItem \<Rightarrow> (u32 \<times> owner) list" where
  "service_addresses item =
    (case (named (si_metadata item), si_spec item) of
       (Some own, Some sp) \<Rightarrow>
         map (\<lambda>a. (a, own)) (List.map_filter usable_ip
           ((case se_cluster_ip sp of Some ip \<Rightarrow> [ip] | None \<Rightarrow> []) @ (case se_cluster_ips sp of Some ips \<Rightarrow> ips | None \<Rightarrow> [])))
     | _ \<Rightarrow> [])"

lemma map_filter_app: "List.map_filter f (xs @ ys) = List.map_filter f xs @ List.map_filter f ys"
  by (simp add: List.map_filter_def)

lemma index_service_ips: "index_service item m = hm_extend m (service_addresses item)"
proof (cases "named (si_metadata item)")
  case None
  then show ?thesis
    by (auto simp: index_service_def service_addresses_def named_def hm_extend_def Let_def split: option.splits if_splits)
next
  case (Some own)
  then obtain meta where meta: "si_metadata item = Some meta" "str_or_empty (om_name meta) \<noteq> []"
    "str_or_empty (om_namespace meta) \<noteq> []" "own = (str_or_empty (om_namespace meta), str_or_empty (om_name meta))"
    by (auto simp: named_def split: option.splits if_splits)
  have "insert_v4_ip ip ns name m = hm_extend m (map (\<lambda>a. (a, (ns, name))) (List.map_filter usable_ip [ip]))" for ip ns name
    using fold_insert_ips [of ns name "[ip]" m] by simp
  then show ?thesis
    using Some meta fold_insert_ips
    by (auto simp: index_service_def service_addresses_def Let_def map_filter_app hm_extend_append split: option.split)
      (simp_all add: hm_extend_def)
qed

lemma index_services: "fold index_service items m = hm_extend m (concat (map service_addresses items))"
  by (induction items arbitrary: m) (simp_all add: index_service_ips hm_extend_append, simp add: hm_extend_def)

lemma hm_extend_wf: "hm_wf m \<Longrightarrow> hm_wf (hm_extend m xs)"
  by (induction xs arbitrary: m) (simp_all add: hm_extend_def hm.wf_ins)

section \<open>Whole lists\<close>

text \<open>The pages of a list as the server serves them, up to one that names no next page.\<close>

inductive item_pages :: "fetch \<Rightarrow> (string \<Rightarrow> 'i KubeList option) \<Rightarrow> nat \<Rightarrow> string option \<Rightarrow> 'i list list \<Rightarrow> bool"
  for get :: fetch and from_str :: "string \<Rightarrow> 'i KubeList option" where
  final_page: "get page tok = Some body \<Longrightarrow> from_str body = Some l \<Longrightarrow> kl_items l = Some items \<Longrightarrow>
    kl_metadata l \<in> {None, Some None, Some (Some [])} \<Longrightarrow> item_pages get from_str page tok [items]"
| next_page: "get page tok = Some body \<Longrightarrow> from_str body = Some l \<Longrightarrow> kl_items l = Some items \<Longrightarrow>
    kl_metadata l = Some (Some c) \<Longrightarrow> c \<noteq> [] \<Longrightarrow> item_pages get from_str (page + 1) (Some c) pages \<Longrightarrow>
    item_pages get from_str page tok (items # pages)"

definition served :: "fetch \<Rightarrow> (string \<Rightarrow> 'i KubeList option) \<Rightarrow> 'i list list \<Rightarrow> bool" where
  "served get from_str pages \<longleftrightarrow> item_pages get from_str 0 None pages \<and> length pages \<le> 512"

definition parse_with :: "('i list \<Rightarrow> 'p) \<Rightarrow> (string \<Rightarrow> 'i KubeList option) \<Rightarrow> string \<Rightarrow> ListError + 'p \<times> string option" where
  "parse_with f from_str body =
    (case from_str body of None \<Rightarrow> Inl BadJson | Some l \<Rightarrow>
      (case kl_items l of None \<Rightarrow> Inl MissingItems | Some items \<Rightarrow> Inr (f items, list_continue (kl_metadata l))))"

lemma parse_as:
  "parse_pod_list_page = parse_with (\<lambda>items. fold index_pod items PodIndex_default)"
  "parse_service_list_page = parse_with (\<lambda>items. fold index_service items [])"
  by (simp_all add: fun_eq_iff parse_pod_list_page_def parse_service_list_page_def parse_with_def)

lemma parse_with_Inr:
  "parse_with f from_str body = Inr (p, next) \<longleftrightarrow>
    (\<exists>l items. from_str body = Some l \<and> kl_items l = Some items \<and> p = f items \<and> next = list_continue (kl_metadata l))"
  by (auto simp: parse_with_def split: option.splits)

lemma list_continue_cases:
  "list_continue m \<in> {None, Some []} \<longleftrightarrow> m \<in> {None, Some None, Some (Some [])}"
  "c \<noteq> [] \<Longrightarrow> list_continue m = Some c \<longleftrightarrow> m = Some (Some c)"
  by (auto simp: list_continue_def split: option.splits if_splits)

lemma complete_items:
  "complete_list get (parse_with f from_str) page tok ps \<longleftrightarrow> (\<exists>pages. item_pages get from_str page tok pages \<and> ps = map f pages)"
proof
  assume "complete_list get (parse_with f from_str) page tok ps"
  then show "\<exists>pages. item_pages get from_str page tok pages \<and> ps = map f pages"
  proof (induction rule: complete_list.induct)
    case (last_page page tok body p nxt)
    then obtain l items where "from_str body = Some l" "kl_items l = Some items" "p = f items" "nxt = list_continue (kl_metadata l)"
      by (auto simp: parse_with_Inr)
    then show ?case
      using last_page item_pages.final_page [of get page tok body from_str l items] list_continue_cases(1) [of "kl_metadata l"]
      by (intro exI [of _ "[items]"]) auto
  next
    case (more_pages page tok body p c ps)
    then obtain l items pages where "from_str body = Some l" "kl_items l = Some items" "p = f items"
      "Some c = list_continue (kl_metadata l)" "item_pages get from_str (page + 1) (Some c) pages" "ps = map f pages"
      by (auto simp: parse_with_Inr)
    then show ?case
      using more_pages item_pages.next_page [of get page tok body from_str l items c pages] list_continue_cases(2) [of c "kl_metadata l"]
      by (intro exI [of _ "items # pages"]) auto
  qed
next
  assume "\<exists>pages. item_pages get from_str page tok pages \<and> ps = map f pages"
  then obtain pages where "item_pages get from_str page tok pages" "ps = map f pages"
    by blast
  then show "complete_list get (parse_with f from_str) page tok ps"
  proof (induction arbitrary: ps rule: item_pages.induct)
    case (final_page page tok body l items)
    then show ?case
      using list_continue_cases(1) [of "kl_metadata l"]
      by (auto intro!: complete_list.last_page [of get page tok body _ _ "list_continue (kl_metadata l)"] simp: parse_with_Inr)
  next
    case (next_page page tok body l items c pages)
    then show ?case
      using list_continue_cases(2) [of c "kl_metadata l"]
      by (auto intro!: complete_list.more_pages [of get page tok body _ _ c] simp: parse_with_Inr)
  qed
qed

lemma list_all_pods_iff:
  "list_all_pods pods_of get = Inr r \<longleftrightarrow> (\<exists>pages. served get pods_of pages \<and>
    r = foldl absorb_pods PodIndex_default (map (\<lambda>items. fold index_pod items PodIndex_default) pages))"
  by (auto simp: list_all_pods_def list_pages_iff served_def MAX_LIST_PAGES_def parse_as complete_items)

lemma list_all_services_iff:
  "list_all_services services_of get = Inr r \<longleftrightarrow> (\<exists>pages. served get services_of pages \<and>
    r = foldl hm_extend [] (map (\<lambda>items. fold index_service items []) pages))"
  by (auto simp: list_all_services_def list_pages_iff served_def MAX_LIST_PAGES_def parse_as complete_items)

lemma absorb_fields:
  "pi_by_cluster_ip (foldl absorb_pods p ps) = pi_by_cluster_ip p"
  "pi_by_uid (foldl absorb_pods p ps) = foldl hm_extend (pi_by_uid p) (map pi_by_uid ps)"
  "pi_by_pod_ip (foldl absorb_pods p ps) = foldl hm_extend (pi_by_pod_ip p) (map pi_by_pod_ip ps)"
  by (induction ps arbitrary: p) (simp_all add: absorb_pods_def)

lemma extend_pages:
  "hm_get (foldl hm_extend m (map (\<lambda>items. hm_extend [] (concat (map e items))) pages)) k =
    (case map_of (rev (concat (map e (concat pages)))) k of Some v \<Rightarrow> Some v | None \<Rightarrow> hm_get m k)"
proof (induction pages arbitrary: m)
  case (Cons items pages)
  let ?q = "hm_extend [] (concat (map e items))"
  have "hm_wf ?q"
    by (rule hm_extend_wf) simp
  then have "map_of (rev ?q) = map_of ?q"
    by (subst map_of_inject_set) (simp_all add: hm_wf_def flip: rev_map)
  then have "map_of (rev ?q) k = hm_get ?q k"
    by (simp add: hm_get_def)
  then have "hm_get (hm_extend m ?q) k = (case map_of (rev (concat (map e items))) k of Some v \<Rightarrow> Some v | None \<Rightarrow> hm_get m k)"
    by (simp add: hm_extend_get split: option.split)
  then show ?case
    using Cons [of "hm_extend m ?q"] by (auto simp: map_add_def split: option.split)
qed simp

text \<open>C37. A refresh never installs part of a list. If the server serves the pods up to a page that names no next one,
  within 512 pages, the new snapshot knows exactly the pods of all these pages: an address belongs to the last
  listed live pod with this address and a UID to the last named pod with it. The service addresses are then
  those of all pages of the service list if that is served whole, the later one winning, and else the previous
  ones. In every other case the snapshot stays as it is.\<close>

theorem k8s_refresh_all_or_nothing:
  "let idx' = refresh_tick pods_of services_of configured get_pods get_services idx
   in if configured \<and> (\<exists>pages. served get_pods pods_of pages)
      then (\<exists>pages. served get_pods pods_of pages \<and>
          (\<forall>a. hm_get (pi_by_pod_ip idx') a = map_of (rev (concat (map pod_addresses (concat pages)))) a) \<and>
          (\<forall>u. lookup_uid idx' u = map_of (rev (concat (map pod_uid_entry (concat pages)))) u)) \<and>
        (if \<exists>ss. served get_services services_of ss
         then \<exists>ss. served get_services services_of ss \<and>
           (\<forall>a. hm_get (pi_by_cluster_ip idx') a = map_of (rev (concat (map service_addresses (concat ss)))) a)
         else pi_by_cluster_ip idx' = pi_by_cluster_ip idx)
      else idx' = idx"
proof (cases "list_all_pods pods_of get_pods")
  case (Inl e)
  then have "\<nexists>pages. served get_pods pods_of pages"
    using list_all_pods_iff [of pods_of get_pods] by auto
  then show ?thesis
    using Inl by (simp add: refresh_once_def refresh_tick_def Let_def)
next
  case (Inr q)
  then obtain pages where pages: "served get_pods pods_of pages"
    "q = foldl absorb_pods PodIndex_default (map (\<lambda>items. fold index_pod items PodIndex_default) pages)"
    using list_all_pods_iff by blast
  have q: "hm_get (pi_by_pod_ip q) a = map_of (rev (concat (map pod_addresses (concat pages)))) a"
    "hm_get (pi_by_uid q) u = map_of (rev (concat (map pod_uid_entry (concat pages)))) u" for a u
    using extend_pages [of "[]" pod_addresses pages a] extend_pages [of "[]" pod_uid_entry pages u]
    by (simp_all add: pages(2) absorb_fields comp_def index_pods PodIndex_default_def split: option.splits)
  show ?thesis
  proof (cases "list_all_services services_of get_services")
    case (Inl e)
    then have "\<nexists>ss. served get_services services_of ss"
      using list_all_services_iff [of services_of get_services] by auto
    then show ?thesis
      using Inl Inr pages(1) q by (auto simp: refresh_once_def refresh_tick_def lookup_uid_def Let_def)
  next
    case services: (Inr m)
    then obtain ss where ss: "served get_services services_of ss" "m = foldl hm_extend [] (map (\<lambda>items. fold index_service items []) ss)"
      using list_all_services_iff by blast
    then have "hm_get m a = map_of (rev (concat (map service_addresses (concat ss)))) a" for a
      using extend_pages [of "[]" service_addresses ss a] by (simp add: index_services split: option.splits)
    then show ?thesis
      using Inr services pages(1) q ss(1) by (auto simp: refresh_once_def refresh_tick_def lookup_uid_def Let_def)
  qed
qed

lemma endless_pages:
  assumes "\<And>n tok. n < page + fuel \<Longrightarrow> \<exists>body p c. get n tok = Some body \<and> parse body = Inr (p, Some c) \<and> c \<noteq> []"
  shows "list_pages get parse absorb fuel page tok acc = Inl TooManyPages"
  using assms
proof (induction fuel arbitrary: page tok acc)
  case (Suc fuel)
  obtain body p c where "get page tok = Some body" "parse body = Inr (p, Some c)" "c \<noteq> []"
    using Suc.prems [of page tok] by auto
  moreover have "list_pages get parse absorb fuel (page + 1) (Some c) (absorb acc p) = Inl TooManyPages"
    by (rule Suc.IH) (rule Suc.prems, simp)
  ultimately show ?case
    by (simp add: Let_def)
qed simp

text \<open>C38. Paging ends after 512 pages, and not before. If the server names a next page on each of the first 512 pages, whatever
  it would serve after them, the listing ends with an error and the snapshot is kept; and every list of
  at most 512 pages is read to its end.\<close>

theorem k8s_paging_ends:
  assumes "\<And>page tok. page < 512 \<Longrightarrow> \<exists>body l items c. get page tok = Some body \<and> pods_of body = Some l \<and> kl_items l = Some items \<and>
      kl_metadata l = Some (Some c) \<and> c \<noteq> []"
  shows "list_all_pods pods_of get = Inl TooManyPages \<and>
    refresh_tick pods_of services_of configured get get_services idx = idx \<and>
    (\<forall>get' pages. item_pages get' pods_of 0 None pages \<and> length pages \<le> 512 \<longrightarrow> (\<exists>r. list_all_pods pods_of get' = Inr r))"
proof -
  have step: "\<exists>body p c. get n tok = Some body \<and> parse_with (\<lambda>items. fold index_pod items PodIndex_default) pods_of body = Inr (p, Some c) \<and> c \<noteq> []"
    if "n < 512" for n tok
    using assms [OF that, of tok] by (force simp: parse_with_Inr list_continue_def)
  have "list_all_pods pods_of get = Inl TooManyPages"
    unfolding list_all_pods_def parse_as MAX_LIST_PAGES_def by (rule endless_pages) (rule step, simp)
  moreover have "\<exists>r. list_all_pods pods_of get' = Inr r" if "item_pages get' pods_of 0 None pages" "length pages \<le> 512" for get' pages
    using that by (auto simp: list_all_pods_iff served_def)
  ultimately show ?thesis
    by (auto simp: refresh_tick_def refresh_once_def)
qed

definition demo_pod :: PodItem where
  "demo_pod = \<lparr>po_metadata = Some \<lparr>om_name = Some ''api'', om_namespace = Some ''demo'', om_uid = Some ''u1'',
      om_deletion_timestamp = None\<rparr>, po_spec = None,
    po_status = Some \<lparr>pt_phase = Some ''Running'', pt_pod_ip = Some ''10.0.0.7'', pt_pod_ips = None\<rparr>\<rparr>"

theorem k8s_paging_ends_witness:
  "list_all_pods (\<lambda>_. Some \<lparr>kl_metadata = Some (Some ''next''), kl_items = Some [demo_pod]\<rparr>)
    (\<lambda>page tok. if page < 512 then Some ''{}'' else None) = Inl TooManyPages"
  by (rule k8s_paging_ends [THEN conjunct1]) simp

end
