(* ===== verification/Sampling.thy ===== *)
theory Sampling
  imports Correlate Strings
begin

text \<open>
  Two small policies: the automatic sampling denominator of the kernel probes
  (\<open>src/agent/src/sample.rs\<close>) and the cache of peer addresses (\<open>src/agent/src/peer_cache.rs\<close>).
\<close>

section \<open>Sampling\<close>

definition SAMPLE_N_MAX :: u32 where "SAMPLE_N_MAX = 16"

definition DECAY_TICKS :: u32 where "DECAY_TICKS = 30"

definition parse_bpf_sample_n :: "string option \<Rightarrow> u32 option" where
  "parse_bpf_sample_n raw =
    (case Option.bind raw (parse_unsigned 32) of
       None \<Rightarrow> None
     | Some n \<Rightarrow> if n \<ge> 1 then Some (of_nat n) else None)"

definition bpf_sample_n_from_env :: "(string \<Rightarrow> string option) \<Rightarrow> u32 option" where
  "bpf_sample_n_from_env env = parse_bpf_sample_n (env ''OBSAGENT_SAMPLE_N'')"

definition keep_io :: "u32 \<Rightarrow> u32 \<Rightarrow> bool" where
  "keep_io n rnd \<longleftrightarrow> (if n \<le> 1 then True else rnd mod n = 0)"

text \<open>\<open>clamp\<close> and \<open>saturating_mul\<close> on 32 bits.\<close>

definition clamp_u32 :: "u32 \<Rightarrow> u32 \<Rightarrow> u32 \<Rightarrow> u32" where
  "clamp_u32 lo hi n = (if n < lo then lo else if n > hi then hi else n)"

definition sat_mul_u32 :: "u32 \<Rightarrow> u32 \<Rightarrow> u32" where
  "sat_mul_u32 a b = (if unat a * unat b < 2 ^ 32 then a * b else - 1)"

definition next_auto_n :: "u32 \<Rightarrow> u64 \<Rightarrow> u32 \<Rightarrow> u32 \<times> u32" where
  "next_auto_n current drops_delta quiet_ticks =
    (let n = clamp_u32 1 SAMPLE_N_MAX current
     in if drops_delta > 0 then (min (sat_mul_u32 n 2) SAMPLE_N_MAX, 0)
        else let quiet = sat_add quiet_ticks 1
          in if quiet \<ge> DECAY_TICKS then (max (n div 2) 1, 0) else (n, quiet))"

section \<open>The peer cache\<close>

definition PEER_TTL :: nat where "PEER_TTL = secs 120"

definition PEER_CAP :: nat where "PEER_CAP = 16384"

record PeerEntry =
  pe_peer :: PeerAddr
  pe_at :: instant

record PeerCache =
  pc_map :: "(u32 \<times> i32, PeerEntry) hashmap"

definition PeerCache_default :: PeerCache where
  "PeerCache_default = \<lparr>pc_map = []\<rparr>"

definition peer_insert :: "u32 \<Rightarrow> i32 \<Rightarrow> PeerAddr \<Rightarrow> instant \<Rightarrow> PeerCache \<Rightarrow> PeerCache" where
  "peer_insert tgid fd peer now c =
    (let m = pc_map c;
         m = (if length m \<ge> PEER_CAP then hm_retain (\<lambda>_ e. now - pe_at e \<le> PEER_TTL) m else m);
         m = (if length m \<ge> PEER_CAP then [] else m)
     in c\<lparr>pc_map := hm_insert (tgid, fd) \<lparr>pe_peer = peer, pe_at = now\<rparr> m\<rparr>)"

definition peer_get :: "u32 \<Rightarrow> i32 \<Rightarrow> instant \<Rightarrow> PeerCache \<Rightarrow> PeerAddr option \<times> PeerCache" where
  "peer_get tgid fd now c =
    (case hm_get (pc_map c) (tgid, fd) of
       Some e \<Rightarrow> if now - pe_at e \<le> PEER_TTL then (Some (pe_peer e), c)
                 else (None, c\<lparr>pc_map := hm_remove (tgid, fd) (pc_map c)\<rparr>)
     | None \<Rightarrow> (None, c))"

section \<open>The sampling policy\<close>

abbreviation auto_step :: "u32 \<times> u32 \<Rightarrow> u64 \<Rightarrow> u32 \<times> u32" where
  "auto_step s d \<equiv> next_auto_n (fst s) d (snd s)"

abbreviation auto_run :: "u64 list \<Rightarrow> u32 \<times> u32" where
  "auto_run ds \<equiv> foldl auto_step (1, 0) ds"

abbreviation halve :: "u32 \<Rightarrow> u32" where
  "halve n \<equiv> max (n div 2) 1"

lemma denominators:
  assumes "n \<in> {1, 2, 4, 8, 16 :: u32}"
  shows "clamp_u32 1 SAMPLE_N_MAX n = n" "halve n \<in> {1, 2, 4, 8, 16}" "halve (halve (halve (halve n))) = 1"
    "min (sat_mul_u32 n 2) SAMPLE_N_MAX \<in> {1, 2, 4, 8, 16}"
  using assms by (auto simp: clamp_u32_def SAMPLE_N_MAX_def sat_mul_u32_def)

lemma quiet_tick:
  assumes "n \<in> {1, 2, 4, 8, 16}" "q < 30"
  shows "next_auto_n n 0 (of_nat q) = (if Suc q = 30 then (halve n, 0) else (n, of_nat (Suc q)))"
proof -
  have u: "unat (of_nat k :: u32) = k" if "k \<le> 30" for k
    using that by (simp add: unat_of_nat take_bit_nat_eq_self)
  have "unat (of_nat q :: u32) + unat (1 :: u32) < 2 ^ LENGTH(32)"
    using u [of q] assms(2) by (simp only: unat_1) simp
  then have "sat_add (of_nat q) 1 = (of_nat (Suc q) :: u32)"
    by (simp only: sat_add_def if_True of_nat_Suc add.commute)
  moreover have "DECAY_TICKS \<le> (of_nat (Suc q) :: u32) \<longleftrightarrow> 30 \<le> Suc q"
    using u [of "Suc q"] assms(2) by (simp only: word_le_nat_alt DECAY_TICKS_def Suc_le_eq) simp
  moreover have "30 \<le> Suc q \<longleftrightarrow> Suc q = 30"
    using assms(2) by arith
  ultimately show ?thesis
    by (simp only: next_auto_n_def denominators(1) [OF assms(1)] Let_def less_irrefl if_False)
qed

lemma drop_tick:
  "n \<in> {1, 2, 4, 8, 16} \<Longrightarrow> d > 0 \<Longrightarrow> next_auto_n n d q = (min (sat_mul_u32 n 2) SAMPLE_N_MAX, 0)"
  by (simp add: next_auto_n_def denominators(1))

definition auto_ok :: "u32 \<times> u32 \<Rightarrow> bool" where
  "auto_ok s \<longleftrightarrow> (\<exists>n q. s = (n, of_nat q) \<and> n \<in> {1, 2, 4, 8, 16} \<and> q < 30)"

lemma auto_okI: "n \<in> {1, 2, 4, 8, 16} \<Longrightarrow> q < 30 \<Longrightarrow> auto_ok (n, of_nat q)"
  unfolding auto_ok_def by blast

lemma auto_ok_step:
  assumes "auto_ok s"
  shows "auto_ok (auto_step s d)"
proof -
  obtain n q where s: "s = (n, of_nat q)" and n: "n \<in> {1, 2, 4, 8, 16}" and q: "q < 30"
    using assms unfolding auto_ok_def by blast
  consider "d > 0" | "d = 0" "Suc q = 30" | "d = 0" "Suc q < 30"
    using q by (metis Suc_lessI word_neq_0_conv)
  then show ?thesis
  proof cases
    case 1
    then show ?thesis
      using auto_okI [OF denominators(4) [OF n], of 0] drop_tick [OF n] by (simp only: s fst_conv snd_conv) simp
  next
    case 2
    then show ?thesis
      using auto_okI [OF denominators(2) [OF n], of 0] quiet_tick [OF n q] by (simp only: s fst_conv snd_conv) simp
  next
    case 3
    then show ?thesis
      using auto_okI [OF n 3(2)] quiet_tick [OF n q] by (simp only: s fst_conv snd_conv) (simp del: of_nat_Suc)
  qed
qed

lemma auto_ok_run: "auto_ok s \<Longrightarrow> auto_ok (foldl auto_step s ds)"
  by (induction ds arbitrary: s) (simp_all add: auto_ok_step)

lemma quiet_run:
  assumes "n \<in> {1, 2, 4, 8, 16}"
  shows "q + j < 30 \<Longrightarrow> foldl auto_step (n, of_nat q) (replicate j 0) = (n, of_nat (q + j))"
proof (induction j arbitrary: q)
  case (Suc j)
  have "next_auto_n n 0 (of_nat q) = (n, of_nat (Suc q))"
    using quiet_tick [OF assms, of q] Suc.prems by (simp del: of_nat_Suc)
  then show ?case
    using Suc.IH [of "Suc q"] Suc.prems
    by (simp only: replicate_Suc foldl_Cons fst_conv snd_conv add_Suc add_Suc_right)
qed simp

lemma quiet_halves:
  assumes "n \<in> {1, 2, 4, 8, 16}" "q < 30"
  shows "foldl auto_step (n, of_nat q) (replicate (30 - q) 0) = (halve n, 0)"
proof -
  have "30 - q = Suc (29 - q)" "q + (29 - q) = 29"
    using assms(2) by arith+
  then show ?thesis
    using quiet_run [OF assms(1), of q "29 - q"] quiet_tick [OF assms(1), of 29]
    by (simp only: replicate_Suc replicate_append_same [symmetric] foldl_append foldl_Cons foldl_Nil fst_conv snd_conv) simp
qed

lemma quiet_resets:
  assumes "n \<in> {1, 2, 4, 8, 16}" "q < 30"
  shows "fst (foldl auto_step (n, of_nat q) (replicate 120 0)) = 1"
proof -
  have h: "n \<in> {1, 2, 4, 8, 16} \<Longrightarrow> foldl auto_step (n, 0) (replicate 30 0) = (halve n, 0)" for n
    using quiet_halves [of n 0] by simp
  have "replicate 120 (0 :: u64) =
      replicate (30 - q) 0 @ replicate 30 0 @ replicate 30 0 @ replicate 30 0 @ replicate q 0"
    using assms(2) by (simp flip: replicate_add)
  then have "foldl auto_step (n, of_nat q) (replicate 120 0) =
      foldl auto_step (halve (halve (halve (halve n))), 0) (replicate q 0)"
    using quiet_halves [OF assms] denominators(2) assms(1) by (simp only: foldl_append h)
  moreover have "foldl auto_step (1, 0) (replicate q 0) = (1, of_nat q)"
    using quiet_run [of 1 0 q] assms(2) by simp
  ultimately show ?thesis
    by (simp only: denominators(3) [OF assms(1)] fst_conv)
qed

text \<open>C34. The automatic denominator is always one of 1, 2, 4, 8, 16; a tick with drops doubles it up to 16, and
  whatever happened before, two minutes without drops bring it back to 1, where every socket is kept.\<close>

theorem auto_sampling_policy:
  "fst (auto_run ds) \<in> {1, 2, 4, 8, 16} \<and>
    (d > 0 \<longrightarrow> fst (auto_run (ds @ [d])) = (if fst (auto_run ds) = 16 then 16 else 2 * fst (auto_run ds))) \<and>
    fst (auto_run (ds @ replicate 120 0)) = 1 \<and> keep_io (fst (auto_run (ds @ replicate 120 0))) rnd"
proof -
  have "auto_ok (auto_run ds)"
    using auto_okI [of 1 0] by (intro auto_ok_run) simp
  then obtain n q where n: "n \<in> {1, 2, 4, 8, 16}" and q: "q < 30" and run: "auto_run ds = (n, of_nat q)"
    unfolding auto_ok_def by blast
  have "d > 0 \<longrightarrow> fst (next_auto_n n d (of_nat q)) = (if n = 16 then 16 else 2 * n)"
    using n drop_tick [OF n, of d] by (auto simp: sat_mul_u32_def SAMPLE_N_MAX_def)
  moreover have "keep_io 1 rnd"
    by (simp add: keep_io_def)
  ultimately show ?thesis
    using n quiet_resets [OF n q] by (simp only: foldl_append foldl_Cons foldl_Nil run fst_conv snd_conv simp_thms)
qed

theorem auto_sampling_policy_witness:
  "fst (auto_run ([5] @ [3])) = 4 \<and> fst (auto_run ([5] @ replicate 120 0)) = 1"
proof
  have two: "fst (auto_run [5]) = 2"
    by (simp add: next_auto_n_def clamp_u32_def sat_mul_u32_def SAMPLE_N_MAX_def)
  have "(3 :: u64) > 0 \<longrightarrow> fst (auto_run ([5] @ [3])) = (if fst (auto_run [5]) = 16 then 16 else 2 * fst (auto_run [5]))"
    by (rule auto_sampling_policy [THEN conjunct2, THEN conjunct1])
  then show "fst (auto_run ([5] @ [3])) = 4"
    unfolding two by simp
  show "fst (auto_run ([5] @ replicate 120 0)) = 1"
    by (rule auto_sampling_policy [THEN conjunct2, THEN conjunct2, THEN conjunct1])
qed

section \<open>The peer cache\<close>

text \<open>The map side of an insertion, for the contract of an aged cache.\<close>

abbreviation peer_put :: "instant \<Rightarrow> u32 \<times> i32 \<Rightarrow> PeerEntry \<Rightarrow> (u32 \<times> i32, PeerEntry) hashmap \<Rightarrow> (u32 \<times> i32, PeerEntry) hashmap" where
  "peer_put now k e m \<equiv> hm_insert k e (make_room pe_at PEER_TTL PEER_CAP now m)"

interpretation peer_cache: ttl_cache pe_at PEER_TTL PEER_CAP peer_put
  by unfold_locales (simp_all add: PEER_CAP_def)

lemma peer_insert_map:
  "pc_map (peer_insert tgid fd peer now c) = peer_put now (tgid, fd) \<lparr>pe_peer = peer, pe_at = now\<rparr> (pc_map c)"
  by (simp add: peer_insert_def make_room_def Let_def)

datatype peer_op = PeerInsert u32 i32 PeerAddr | PeerGet u32 i32

fun peer_step :: "PeerCache \<Rightarrow> peer_op \<times> instant \<Rightarrow> PeerCache" where
  "peer_step c (PeerInsert tgid fd peer, now) = peer_insert tgid fd peer now c"
| "peer_step c (PeerGet tgid fd, now) = snd (peer_get tgid fd now c)"

definition peer_inv :: "(peer_op \<times> instant) list \<Rightarrow> PeerCache \<Rightarrow> bool" where
  "peer_inv h c \<longleftrightarrow> hm_wf (pc_map c) \<and> length (pc_map c) \<le> PEER_CAP \<and>
    (\<forall>tgid fd e. hm_get (pc_map c) (tgid, fd) = Some e \<longrightarrow> (PeerInsert tgid fd (pe_peer e), pe_at e) \<in> set h)"

lemma peer_inv_insert:
  assumes "peer_inv h c"
  shows "peer_inv (h @ [(PeerInsert tgid fd p, now)]) (peer_insert tgid fd p now c)"
proof -
  let ?e = "\<lparr>pe_peer = p, pe_at = now\<rparr>"
  have wf: "hm_wf (pc_map c)"
    and known: "hm_get (pc_map c) (i, j) = Some e \<Longrightarrow> (PeerInsert i j (pe_peer e), pe_at e) \<in> set h" for i j e
    using assms by (simp_all add: peer_inv_def)
  have "(PeerInsert i j (pe_peer e), pe_at e) \<in> set (h @ [(PeerInsert tgid fd p, now)])"
    if "hm_get (peer_put now (tgid, fd) ?e (pc_map c)) (i, j) = Some e" for i j e
    using peer_cache.put_get [OF wf that] known [of i j e] by auto
  then show ?thesis
    using peer_cache.put_wf [OF wf] peer_cache.put_bounded [OF wf]
    unfolding peer_inv_def peer_insert_map by blast
qed

lemma peer_inv_get: "peer_inv h c \<Longrightarrow> peer_inv (h @ [o1]) (snd (peer_get tgid fd now c))"
  using hm.len_rem [of "(tgid, fd)" "pc_map c"]
  by (auto simp: peer_inv_def peer_get_def split: option.splits if_splits)

lemma peer_inv_step: "peer_inv h c \<Longrightarrow> peer_inv (h @ [(op1, now)]) (peer_step c (op1, now))"
  by (cases op1) (simp_all only: peer_step.simps peer_inv_insert peer_inv_get)

lemma peer_inv_run: "peer_inv h (foldl peer_step PeerCache_default h)"
proof (induction h rule: rev_induct)
  case (snoc ot h)
  then show ?case
    using peer_inv_step [OF snoc.IH, of "fst ot" "snd ot"] by (simp only: foldl_append foldl_Cons foldl_Nil prod.collapse)
qed (simp add: peer_inv_def PeerCache_default_def hm_wf_def hm_get_def)

text \<open>A cached peer is one that was stored for this very socket in the last 120 s, and the cache never holds
  more than 16384 entries.\<close>

theorem peer_cache_sound:
  "length (pc_map (foldl peer_step PeerCache_default h)) \<le> PEER_CAP \<and>
    (case fst (peer_get tgid fd now (foldl peer_step PeerCache_default h)) of
       None \<Rightarrow> True
     | Some p \<Rightarrow> \<exists>t. (PeerInsert tgid fd p, t) \<in> set h \<and> now - t \<le> PEER_TTL)"
  using peer_inv_run [of h] by (auto simp: peer_inv_def peer_get_def split: option.splits)

end
