(* ===== verification/Dual_Plane.thy ===== *)
theory Dual_Plane
  imports Complex_Main Sampling
begin

text \<open>
  The dual-plane join (\<open>src/agent/src/dual_plane.rs\<close>): socket timestamps of a TLS descriptor are kept for
  60 s and joined to a finished exchange, together with the outcome window and the handshake samples.
\<close>

section \<open>Model\<close>

definition DEFAULT_JOIN_NS :: u64 where "DEFAULT_JOIN_NS = 5000000"

definition WIRE_SLACK_NS :: u64 where "WIRE_SLACK_NS = 20000000"

definition MAX_TS_PER_DIR :: nat where "MAX_TS_PER_DIR = 4096"

record DpKey =
  dk_tgid :: u32
  dk_fd :: i32

record FdTimes =
  ft_writes :: "u64 list"
  ft_reads :: "u64 list"
  ft_last :: instant

datatype Outcome = OutHit | OutFallback | OutMiss

datatype JoinKind = Hit | Fallback

record Join =
  jn_wire_ns :: u64
  jn_kind :: JoinKind

record JoinWindow =
  jw_hit :: nat
  jw_fallback :: nat
  jw_miss :: nat

definition JoinWindow_total :: "JoinWindow \<Rightarrow> nat" where
  "JoinWindow_total w = jw_hit w + jw_fallback w + jw_miss w"

record DualPlane =
  dp_fds :: "(DpKey, FdTimes) hashmap"
  dp_join_window_ns :: u64
  dp_outcomes :: "(instant \<times> Outcome) list"
  dp_hs_samples :: "(instant \<times> u64) list"

definition DualPlane_new :: "u64 \<Rightarrow> DualPlane" where
  "DualPlane_new join_window_ns =
    \<lparr>dp_fds = [], dp_join_window_ns = join_window_ns, dp_outcomes = [], dp_hs_samples = []\<rparr>"

definition DualPlane_from_env :: "(string \<Rightarrow> string option) \<Rightarrow> DualPlane" where
  "DualPlane_from_env env =
    (let ms = (case Option.bind (env ''OBSAGENT_JOIN_MS'') (parse_unsigned 64) of
                 Some v \<Rightarrow> if v > 0 then v else 5
               | None \<Rightarrow> 5)
     in DualPlane_new (if ms * 1000000 < 2 ^ 64 then of_nat (ms * 1000000) else - 1))"

definition DualPlane_default :: DualPlane where
  "DualPlane_default = DualPlane_new DEFAULT_JOIN_NS"

fun drop_below :: "u64 \<Rightarrow> u64 list \<Rightarrow> u64 list" where
  "drop_below lo [] = []"
| "drop_below lo (t # q) = (if t < lo then drop_below lo q else t # q)"

fun drop_excess :: "nat \<Rightarrow> u64 list \<Rightarrow> u64 list" where
  "drop_excess n [] = []"
| "drop_excess n (t # q) = (if length (t # q) > n then drop_excess n q else t # q)"

definition push_ts :: "u64 list \<Rightarrow> u64 \<Rightarrow> u64 list" where
  "push_ts q ts_ns =
    (let q = q @ [ts_ns]; lo = sat_sub ts_ns (of_nat TIMEOUT)
     in drop_excess MAX_TS_PER_DIR (drop_below lo q))"

definition note_ts :: "u32 \<Rightarrow> i32 \<Rightarrow> IoDir \<Rightarrow> u64 \<Rightarrow> instant \<Rightarrow> DualPlane \<Rightarrow> DualPlane" where
  "note_ts tgid fd dir ts_ns now d =
    d\<lparr>dp_fds := hm_entry \<lparr>dk_tgid = tgid, dk_fd = fd\<rparr> \<lparr>ft_writes = [], ft_reads = [], ft_last = now\<rparr>
      (\<lambda>slot. let slot = slot\<lparr>ft_last := now\<rparr> in case dir of
         Write \<Rightarrow> slot\<lparr>ft_writes := push_ts (ft_writes slot) ts_ns\<rparr>
       | Read \<Rightarrow> slot\<lparr>ft_reads := push_ts (ft_reads slot) ts_ns\<rparr>) (dp_fds d)\<rparr>"

definition latest :: "u32 \<Rightarrow> i32 \<Rightarrow> IoDir \<Rightarrow> u64 \<Rightarrow> u64 \<Rightarrow> DualPlane \<Rightarrow> u64 option" where
  "latest tgid fd dir lo hi d =
    (case hm_get (dp_fds d) \<lparr>dk_tgid = tgid, dk_fd = fd\<rparr> of None \<Rightarrow> None
     | Some slot \<Rightarrow> find (\<lambda>ts. ts \<ge> lo \<and> ts \<le> hi)
         (rev (case dir of Write \<Rightarrow> ft_writes slot | Read \<Rightarrow> ft_reads slot)))"

definition accept_wire ::
  "u64 \<Rightarrow> u64 \<Rightarrow> u64 \<Rightarrow> u64 \<Rightarrow> JoinKind \<Rightarrow> instant \<Rightarrow> DualPlane \<Rightarrow> Join option \<times> DualPlane" where
  "accept_wire start_ts end_ts t_start_ns t_end_ns kind now d =
    (let wire_ns = sat_sub end_ts start_ts; content_ns = sat_sub t_end_ns t_start_ns
     in if wire_ns = 0 \<or> wire_ns > sat_add content_ns WIRE_SLACK_NS then (None, d)
        else let outcome = (case kind of Hit \<Rightarrow> OutHit | Fallback \<Rightarrow> OutFallback)
          in (Some \<lparr>jn_wire_ns = wire_ns, jn_kind = kind\<rparr>, d\<lparr>dp_outcomes := dp_outcomes d @ [(now, outcome)]\<rparr>))"

text \<open>One \<open>if let (Some(s), Some(e))\<close> attempt of the join.\<close>

definition try_join ::
  "u64 option \<Rightarrow> u64 option \<Rightarrow> u64 \<Rightarrow> u64 \<Rightarrow> JoinKind \<Rightarrow> instant \<Rightarrow> DualPlane \<Rightarrow> Join option \<times> DualPlane" where
  "try_join s e t_start_ns t_end_ns kind now d =
    (case (s, e) of (Some s, Some e) \<Rightarrow> accept_wire s e t_start_ns t_end_ns kind now d | _ \<Rightarrow> (None, d))"

definition join_wire :: "u32 \<Rightarrow> i32 \<Rightarrow> u64 \<Rightarrow> u64 \<Rightarrow> bool \<Rightarrow> instant \<Rightarrow> DualPlane \<Rightarrow> Join option \<times> DualPlane" where
  "join_wire tgid fd t_start_ns t_end_ns client now d =
    (let start_dir = (if client then Write else Read); end_dir = (if client then Read else Write);
         w = dp_join_window_ns d;
         start_lo = sat_sub t_start_ns w; end_lo = sat_sub t_end_ns w;
         start_ts = latest tgid fd start_dir start_lo t_start_ns d;
         end_ts = latest tgid fd end_dir end_lo t_end_ns d
     in case try_join start_ts end_ts t_start_ns t_end_ns Hit now d of
          (Some j, d) \<Rightarrow> (Some j, d)
        | (None, d) \<Rightarrow>
          let end_fb = latest tgid fd end_dir (sat_add t_end_ns 1) (sat_add t_end_ns w) d
          in case try_join start_ts end_fb t_start_ns t_end_ns Fallback now d of
               (Some j, d) \<Rightarrow> (Some j, d)
             | (None, d) \<Rightarrow> (None, d\<lparr>dp_outcomes := dp_outcomes d @ [(now, OutMiss)]\<rparr>))"

definition dp_record_handshake :: "u64 \<Rightarrow> instant \<Rightarrow> DualPlane \<Rightarrow> DualPlane" where
  "dp_record_handshake latency_ns now d =
    (if latency_ns > 0 then d\<lparr>dp_hs_samples := dp_hs_samples d @ [(now, latency_ns)]\<rparr> else d)"

fun prune_at :: "instant \<Rightarrow> (instant \<times> 'a) list \<Rightarrow> (instant \<times> 'a) list" where
  "prune_at now [] = []"
| "prune_at now (s # q) = (if now - fst s > TIMEOUT then prune_at now q else s # q)"

definition dp_evict_stale :: "instant \<Rightarrow> DualPlane \<Rightarrow> DualPlane" where
  "dp_evict_stale now d =
    d\<lparr>dp_fds := hm_retain (\<lambda>_ r. now - ft_last r \<le> TIMEOUT) (dp_fds d),
      dp_outcomes := prune_at now (dp_outcomes d), dp_hs_samples := prune_at now (dp_hs_samples d)\<rparr>"

definition dp_evict_closed :: "(u32 \<Rightarrow> i32 \<Rightarrow> bool) \<Rightarrow> DualPlane \<Rightarrow> DualPlane" where
  "dp_evict_closed still_open d = d\<lparr>dp_fds := hm_retain (\<lambda>k _. still_open (dk_tgid k) (dk_fd k)) (dp_fds d)\<rparr>"

definition count_outcome :: "instant \<Rightarrow> instant \<times> Outcome \<Rightarrow> JoinWindow \<Rightarrow> JoinWindow" where
  "count_outcome now ao w =
    (if now - fst ao > TIMEOUT then w
     else case snd ao of
       OutHit \<Rightarrow> w\<lparr>jw_hit := jw_hit w + 1\<rparr>
     | OutFallback \<Rightarrow> w\<lparr>jw_fallback := jw_fallback w + 1\<rparr>
     | OutMiss \<Rightarrow> w\<lparr>jw_miss := jw_miss w + 1\<rparr>)"

definition join_window :: "instant \<Rightarrow> DualPlane \<Rightarrow> JoinWindow" where
  "join_window now d = fold (count_outcome now) (dp_outcomes d) \<lparr>jw_hit = 0, jw_fallback = 0, jw_miss = 0\<rparr>"

definition join_hit_rate :: "instant \<Rightarrow> DualPlane \<Rightarrow> rat" where
  "join_hit_rate now d =
    (let w = join_window now d; n = JoinWindow_total w in if n = 0 then 0 else of_nat (jw_hit w) / of_nat n)"

text \<open>\<open>f64::round\<close> of a non-negative number: halves go up.\<close>

definition percentile_ns :: "(instant \<times> u64) list \<Rightarrow> rat \<Rightarrow> u64 option" where
  "percentile_ns samples q =
    (if samples = [] then None
     else let v = sort (map snd samples);
              idx = nat \<lfloor>(of_nat (length v) - 1) * q + 1 / 2\<rfloor>
          in Some (v ! min idx (length v - 1)))"

definition handshake_p50_ns :: "DualPlane \<Rightarrow> u64 option" where
  "handshake_p50_ns d = percentile_ns (dp_hs_samples d) (1 / 2)"

definition handshake_count :: "DualPlane \<Rightarrow> nat" where
  "handshake_count d = length (dp_hs_samples d)"

section \<open>Where the joined timestamps come from\<close>

datatype dp_op =
    Note u32 i32 IoDir u64
  | TryJoin u32 i32 u64 u64 bool
  | Handshake u64
  | EvictStale
  | EvictClosed "u32 \<Rightarrow> i32 \<Rightarrow> bool"

fun dp_step :: "DualPlane \<Rightarrow> dp_op \<times> instant \<Rightarrow> DualPlane" where
  "dp_step d (Note tgid fd dir ts, now) = note_ts tgid fd dir ts now d"
| "dp_step d (TryJoin tgid fd ts te client, now) = snd (join_wire tgid fd ts te client now d)"
| "dp_step d (Handshake ns, now) = dp_record_handshake ns now d"
| "dp_step d (EvictStale, now) = dp_evict_stale now d"
| "dp_step d (EvictClosed still_open, now) = dp_evict_closed still_open d"

abbreviation dp_run :: "u64 \<Rightarrow> (dp_op \<times> instant) list \<Rightarrow> DualPlane" where
  "dp_run w \<equiv> foldl dp_step (DualPlane_new w)"

definition fd_queue :: "DualPlane \<Rightarrow> u32 \<Rightarrow> i32 \<Rightarrow> IoDir \<Rightarrow> u64 list" where
  "fd_queue d tgid fd dir =
    (case hm_get (dp_fds d) \<lparr>dk_tgid = tgid, dk_fd = fd\<rparr> of None \<Rightarrow> []
     | Some slot \<Rightarrow> (case dir of Write \<Rightarrow> ft_writes slot | Read \<Rightarrow> ft_reads slot))"

lemma drop_below_set: "set (drop_below lo q) \<subseteq> set q"
  by (induction q) auto

lemma drop_excess_set: "set (drop_excess n q) \<subseteq> set q" "length (drop_excess n q) \<le> n"
  by (induction q) auto

lemma push_ts_set: "set (push_ts q t) \<subseteq> insert t (set q)"
  using drop_excess_set(1) [of MAX_TS_PER_DIR "drop_below (sat_sub t (of_nat TIMEOUT)) (q @ [t])"]
    drop_below_set [of "sat_sub t (of_nat TIMEOUT)" "q @ [t]"]
  by (auto simp: push_ts_def Let_def)

lemma push_ts_length: "length (push_ts q t) \<le> MAX_TS_PER_DIR"
  by (simp add: push_ts_def Let_def drop_excess_set(2))

lemma latest_queue: "latest tgid fd dir lo hi d = find (\<lambda>ts. ts \<ge> lo \<and> ts \<le> hi) (rev (fd_queue d tgid fd dir))"
  by (auto simp: latest_def fd_queue_def split: option.splits)

lemma latest_Some: "latest tgid fd dir lo hi d = Some ts \<Longrightarrow> ts \<in> set (fd_queue d tgid fd dir) \<and> lo \<le> ts \<and> ts \<le> hi"
  unfolding latest_queue find_Some_iff by (metis nth_mem set_rev)

lemma accept_wire_state: "dp_fds (snd (accept_wire s e a b k now d)) = dp_fds d"
  "dp_join_window_ns (snd (accept_wire s e a b k now d)) = dp_join_window_ns d"
  by (simp_all add: accept_wire_def Let_def)

lemma try_join_state: "dp_fds (snd (try_join s e a b k now d)) = dp_fds d"
  "dp_join_window_ns (snd (try_join s e a b k now d)) = dp_join_window_ns d"
  by (simp_all add: try_join_def accept_wire_state split: option.splits)

lemma try_join_None: "try_join s e a b k now d = (None, d') \<Longrightarrow> d' = d"
  by (auto simp: try_join_def accept_wire_def Let_def split: option.splits if_splits)

text \<open>The three ways out of a join.\<close>

abbreviation half_dir :: "bool \<Rightarrow> IoDir" where
  "half_dir is_write \<equiv> if is_write then Write else Read"

abbreviation hit_try :: "u32 \<Rightarrow> i32 \<Rightarrow> u64 \<Rightarrow> u64 \<Rightarrow> bool \<Rightarrow> instant \<Rightarrow> DualPlane \<Rightarrow> Join option \<times> DualPlane" where
  "hit_try tgid fd a b client now d \<equiv>
    try_join (latest tgid fd (half_dir client) (sat_sub a (dp_join_window_ns d)) a d)
      (latest tgid fd (half_dir (\<not> client)) (sat_sub b (dp_join_window_ns d)) b d) a b Hit now d"

abbreviation fallback_try :: "u32 \<Rightarrow> i32 \<Rightarrow> u64 \<Rightarrow> u64 \<Rightarrow> bool \<Rightarrow> instant \<Rightarrow> DualPlane \<Rightarrow> Join option \<times> DualPlane" where
  "fallback_try tgid fd a b client now d \<equiv>
    try_join (latest tgid fd (half_dir client) (sat_sub a (dp_join_window_ns d)) a d)
      (latest tgid fd (half_dir (\<not> client)) (sat_add b 1) (sat_add b (dp_join_window_ns d)) d) a b Fallback now d"

lemma join_wire_alt:
  "join_wire tgid fd a b client now d =
    (if fst (hit_try tgid fd a b client now d) \<noteq> None then hit_try tgid fd a b client now d
     else if fst (fallback_try tgid fd a b client now d) \<noteq> None then fallback_try tgid fd a b client now d
     else (None, d\<lparr>dp_outcomes := dp_outcomes d @ [(now, OutMiss)]\<rparr>))"
proof -
  have swap: "(if client then Read else Write) = half_dir (\<not> client)"
    by simp
  obtain r1 d1 r2 d2 where t: "hit_try tgid fd a b client now d = (r1, d1)" "fallback_try tgid fd a b client now d = (r2, d2)"
    by fastforce
  have "r1 = None \<Longrightarrow> d1 = d" "r2 = None \<Longrightarrow> d2 = d"
    using t try_join_None by blast+
  then show ?thesis
    using t by (cases r1; cases r2) (simp_all add: join_wire_def Let_def swap)
qed

lemma join_wire_state: "dp_fds (snd (join_wire tgid fd a b client now d)) = dp_fds d"
  "dp_join_window_ns (snd (join_wire tgid fd a b client now d)) = dp_join_window_ns d"
  by (simp_all add: join_wire_alt try_join_state)

text \<open>What one attempt returns and records.\<close>

lemma try_join_Some:
  assumes "fst (try_join s e a b k now d) = Some j"
  shows "\<exists>s' e'. s = Some s' \<and> e = Some e' \<and> jn_kind j = k \<and> jn_wire_ns j = sat_sub e' s' \<and> jn_wire_ns j \<noteq> 0 \<and>
    jn_wire_ns j \<le> sat_add (sat_sub b a) WIRE_SLACK_NS"
  using assms by (auto simp: try_join_def accept_wire_def Let_def not_less split: option.splits if_splits)

lemma join_wire_Some:
  fixes d :: DualPlane
  assumes "fst (join_wire tgid fd a b client now d) = Some j"
  defines "w \<equiv> dp_join_window_ns d"
  shows "\<exists>s e. s \<in> set (fd_queue d tgid fd (half_dir client)) \<and> e \<in> set (fd_queue d tgid fd (half_dir (\<not> client))) \<and>
    sat_sub a w \<le> s \<and> s \<le> a \<and>
    (case jn_kind j of Hit \<Rightarrow> sat_sub b w \<le> e \<and> e \<le> b | Fallback \<Rightarrow> sat_add b 1 \<le> e \<and> e \<le> sat_add b w) \<and>
    jn_wire_ns j = sat_sub e s \<and> jn_wire_ns j \<noteq> 0 \<and> jn_wire_ns j \<le> sat_add (sat_sub b a) WIRE_SLACK_NS"
proof (cases "fst (hit_try tgid fd a b client now d) = None")
  case True
  then have j: "fst (fallback_try tgid fd a b client now d) = Some j"
    using assms(1) by (simp add: join_wire_alt split: if_splits)
  show ?thesis
  proof -
    obtain s e where "latest tgid fd (half_dir client) (sat_sub a (dp_join_window_ns d)) a d = Some s"
      "latest tgid fd (half_dir (\<not> client)) (sat_add b 1) (sat_add b (dp_join_window_ns d)) d = Some e"
      and r: "jn_kind j = Fallback" "jn_wire_ns j = sat_sub e s" "jn_wire_ns j \<noteq> 0" "jn_wire_ns j \<le> sat_add (sat_sub b a) WIRE_SLACK_NS"
      using try_join_Some [OF j] by blast
    then show ?thesis
      using latest_Some r unfolding w_def r(1) JoinKind.case by blast
  qed
next
  case False
  then have j: "fst (hit_try tgid fd a b client now d) = Some j"
    using assms(1) by (simp add: join_wire_alt)
  show ?thesis
  proof -
    obtain s e where "latest tgid fd (half_dir client) (sat_sub a (dp_join_window_ns d)) a d = Some s"
      "latest tgid fd (half_dir (\<not> client)) (sat_sub b (dp_join_window_ns d)) b d = Some e"
      and r: "jn_kind j = Hit" "jn_wire_ns j = sat_sub e s" "jn_wire_ns j \<noteq> 0" "jn_wire_ns j \<le> sat_add (sat_sub b a) WIRE_SLACK_NS"
      using try_join_Some [OF j] by blast
    then show ?thesis
      using latest_Some r unfolding w_def r(1) JoinKind.case by blast
  qed
qed

lemma fd_queue_note:
  "set (fd_queue (note_ts t f dir ts now d) tgid fd dir') \<subseteq>
    set (fd_queue d tgid fd dir') \<union> (if t = tgid \<and> f = fd \<and> dir = dir' then {ts} else {})"
  by (auto simp: fd_queue_def note_ts_def hm_get_entry Let_def
      dest!: push_ts_set [THEN subsetD] split: option.splits IoDir.splits if_splits)

lemma fd_queue_fds: "dp_fds d' = dp_fds d \<Longrightarrow> fd_queue d' = fd_queue d"
  by (simp add: fd_queue_def fun_eq_iff)

lemma fd_queue_retain:
  "hm_wf (dp_fds d) \<Longrightarrow> set (fd_queue (d\<lparr>dp_fds := hm_retain P (dp_fds d)\<rparr>) tgid fd dir) \<subseteq> set (fd_queue d tgid fd dir)"
  by (auto simp: fd_queue_def hm.get_ret split: option.splits if_splits)

definition dp_inv :: "u64 \<Rightarrow> (dp_op \<times> instant) list \<Rightarrow> DualPlane \<Rightarrow> bool" where
  "dp_inv w h d \<longleftrightarrow> hm_wf (dp_fds d) \<and> dp_join_window_ns d = w \<and>
    (\<forall>tgid fd dir. \<forall>ts \<in> set (fd_queue d tgid fd dir). Note tgid fd dir ts \<in> fst ` set h)"

lemma dp_invI:
  assumes "hm_wf (dp_fds d)" "dp_join_window_ns d = w"
    and "\<And>tgid fd dir ts. ts \<in> set (fd_queue d tgid fd dir) \<Longrightarrow> Note tgid fd dir ts \<in> fst ` set h"
  shows "dp_inv w h d"
  using assms unfolding dp_inv_def by blast

lemma dp_invD:
  assumes "dp_inv w h d"
  shows "hm_wf (dp_fds d)" "dp_join_window_ns d = w"
    "ts \<in> set (fd_queue d tgid fd dir) \<Longrightarrow> Note tgid fd dir ts \<in> fst ` set h"
  using assms unfolding dp_inv_def by blast+

lemma dp_inv_same:
  "dp_inv w h d \<Longrightarrow> dp_fds d' = dp_fds d \<Longrightarrow> dp_join_window_ns d' = dp_join_window_ns d \<Longrightarrow> dp_inv w (h @ [ot]) d'"
  using fd_queue_fds [of d' d] by (auto simp: dp_inv_def)

lemma dp_inv_retain:
  assumes "dp_inv w h d" "dp_fds d' = hm_retain P (dp_fds d)" "dp_join_window_ns d' = dp_join_window_ns d"
  shows "dp_inv w (h @ [ot]) d'"
proof -
  have "fd_queue d' = fd_queue (d\<lparr>dp_fds := hm_retain P (dp_fds d)\<rparr>)"
    using assms(2) by (intro fd_queue_fds) simp
  then have "set (fd_queue d' tgid fd dir) \<subseteq> set (fd_queue d tgid fd dir)" for tgid fd dir
    using fd_queue_retain [OF dp_invD(1) [OF assms(1)], of P] by simp
  then have "Note tgid fd dir ts \<in> fst ` set (h @ [ot])" if "ts \<in> set (fd_queue d' tgid fd dir)" for tgid fd dir ts
    using that dp_invD(3) [OF assms(1), of ts tgid fd dir] by auto
  then show ?thesis
    using dp_invD(1,2) [OF assms(1)] assms(2,3) by (intro dp_invI) simp_all
qed

lemma dp_inv_note:
  assumes "dp_inv w h d"
  shows "dp_inv w (h @ [(Note t f dir ts, now)]) (note_ts t f dir ts now d)"
proof (rule dp_invI)
  show "hm_wf (dp_fds (note_ts t f dir ts now d))" "dp_join_window_ns (note_ts t f dir ts now d) = w"
    using dp_invD(1,2) [OF assms] by (simp_all add: note_ts_def hm_wf_entry)
  show "Note i j k x \<in> fst ` set (h @ [(Note t f dir ts, now)])"
    if "x \<in> set (fd_queue (note_ts t f dir ts now d) i j k)" for i j k x
    using subsetD [OF fd_queue_note that] dp_invD(3) [OF assms, of x i j k] by (auto split: if_splits)
qed

lemma dp_inv_step: "dp_inv w h d \<Longrightarrow> dp_inv w (h @ [(op1, now)]) (dp_step d (op1, now))"
proof (cases op1)
  case (TryJoin tgid fd a b client)
  assume "dp_inv w h d"
  then show ?thesis
    unfolding TryJoin dp_step.simps by (rule dp_inv_same) (rule join_wire_state)+
next
  case EvictStale
  assume "dp_inv w h d"
  then show ?thesis
    unfolding EvictStale dp_step.simps
    by (rule dp_inv_retain [where P = "\<lambda>_ r. now - ft_last r \<le> TIMEOUT"]) (simp_all add: dp_evict_stale_def)
next
  case (EvictClosed still_open)
  assume "dp_inv w h d"
  then show ?thesis
    unfolding EvictClosed dp_step.simps
    by (rule dp_inv_retain [where P = "\<lambda>k _. still_open (dk_tgid k) (dk_fd k)"]) (simp_all add: dp_evict_closed_def)
next
  case (Handshake ns)
  assume "dp_inv w h d"
  then show ?thesis
    unfolding Handshake dp_step.simps by (rule dp_inv_same) (simp_all add: dp_record_handshake_def)
qed (simp only: dp_step.simps dp_inv_note)

lemma dp_inv_run: "dp_inv w h (dp_run w h)"
proof (induction h rule: rev_induct)
  case (snoc ot h)
  then show ?case
    using dp_inv_step [OF snoc.IH, of "fst ot" "snd ot"] by (simp only: foldl_append foldl_Cons foldl_Nil prod.collapse)
qed (simp add: dp_inv_def DualPlane_new_def hm_wf_def fd_queue_def hm_get_def)

text \<open>C30. A wire time is never made up: after any history of timestamps, joins and evictions, a join that
  succeeds used two timestamps noted for this very descriptor, the first in the direction of the request and
  within the join window before the exchange, the second in the direction of the response, at its end within the
  window (a hit) or after it (a fallback), and the wire time is their difference, positive and at most 20 ms
  above the time of the exchange.\<close>

theorem dual_plane_join_sound:
  assumes "fst (join_wire tgid fd a b client now (dp_run w h)) = Some j"
  shows "\<exists>s e. Note tgid fd (half_dir client) s \<in> fst ` set h \<and> Note tgid fd (half_dir (\<not> client)) e \<in> fst ` set h \<and>
    sat_sub a w \<le> s \<and> s \<le> a \<and>
    (case jn_kind j of Hit \<Rightarrow> sat_sub b w \<le> e \<and> e \<le> b | Fallback \<Rightarrow> sat_add b 1 \<le> e \<and> e \<le> sat_add b w) \<and>
    s < e \<and> unat (jn_wire_ns j) = unat e - unat s \<and>
    unat (jn_wire_ns j) \<le> unat b - unat a + unat WIRE_SLACK_NS"
proof -
  have inv: "dp_inv w h (dp_run w h)"
    by (rule dp_inv_run)
  note ww = dp_invD(2) [OF inv]
  obtain s e where se: "s \<in> set (fd_queue (dp_run w h) tgid fd (half_dir client))"
      "e \<in> set (fd_queue (dp_run w h) tgid fd (half_dir (\<not> client)))" "sat_sub a w \<le> s" "s \<le> a"
      "case jn_kind j of Hit \<Rightarrow> sat_sub b w \<le> e \<and> e \<le> b | Fallback \<Rightarrow> sat_add b 1 \<le> e \<and> e \<le> sat_add b w"
      "jn_wire_ns j = sat_sub e s" "jn_wire_ns j \<noteq> 0" "jn_wire_ns j \<le> sat_add (sat_sub b a) WIRE_SLACK_NS"
    using join_wire_Some [OF assms] unfolding ww by blast
  have "unat (jn_wire_ns j) = unat e - unat s"
    using se(6) by (simp only: unat_sat_sub)
  moreover have "unat (jn_wire_ns j) \<noteq> 0"
    using se(7) by (simp only: unat_eq_0 not_False_eq_True)
  moreover have "unat (jn_wire_ns j) \<le> unat b - unat a + unat WIRE_SLACK_NS"
    using se(8) by (simp add: word_le_nat_alt unat_sat_add unat_sat_sub)
  ultimately show ?thesis
    using se(3-5) dp_invD(3) [OF inv se(1)] dp_invD(3) [OF inv se(2)] unfolding word_less_nat_alt
    by - (rule exI [of _ s], rule exI [of _ e], simp)
qed

theorem dual_plane_join_sound_witness:
  "\<exists>j. fst (join_wire 1 7 2000000 9000000 True 10 (dp_run DEFAULT_JOIN_NS
      [(Note 1 7 Write 1500000, 3), (Note 1 7 Read 8000000, 8)])) = Some j \<and> unat (jn_wire_ns j) \<le> 27000000"
proof -
  let ?r = "fst (join_wire 1 7 2000000 9000000 True 10 (dp_run DEFAULT_JOIN_NS
      [(Note 1 7 Write 1500000, 3), (Note 1 7 Read 8000000, 8)]))"
  have "?r = Some \<lparr>jn_wire_ns = 6500000, jn_kind = Hit\<rparr>"
    by (simp add: join_wire_def try_join_def accept_wire_def latest_def note_ts_def push_ts_def DualPlane_new_def
        hm_entry_def hm_get_def hm_insert_def sat_sub_def sat_add_def MAX_TS_PER_DIR_def DEFAULT_JOIN_NS_def
        WIRE_SLACK_NS_def TIMEOUT_def secs_def Let_def)
  then show ?thesis
    using dual_plane_join_sound [of 1 7 2000000 9000000 True 10 DEFAULT_JOIN_NS
      "[(Note 1 7 Write 1500000, 3), (Note 1 7 Read 8000000, 8)]" "\<lparr>jn_wire_ns = 6500000, jn_kind = Hit\<rparr>"]
    by (auto simp: WIRE_SLACK_NS_def)
qed

section \<open>The window of outcomes\<close>

lemma prune_at_dropWhile: "prune_at now q = dropWhile (\<lambda>s. now - fst s > TIMEOUT) q"
  by (induction q) auto

interpretation outcome_window: rolling_window fst TIMEOUT prune_at
  by unfold_locales (rule prune_at_dropWhile)

interpretation fd_ttl: ttl_store ft_last TIMEOUT "\<lambda>now. hm_retain (\<lambda>_ r. now - ft_last r \<le> TIMEOUT)"
  by unfold_locales simp

lemma try_join_outcome:
  "fst (try_join s e a b k now d) = Some j \<Longrightarrow> dp_outcomes (snd (try_join s e a b k now d)) =
    dp_outcomes d @ [(now, case jn_kind j of Hit \<Rightarrow> OutHit | Fallback \<Rightarrow> OutFallback)]"
  by (auto simp: try_join_def accept_wire_def Let_def split: option.splits if_splits)

lemma join_wire_outcome:
  "dp_outcomes (snd (join_wire tgid fd a b client now d)) = dp_outcomes d @
    [(now, case fst (join_wire tgid fd a b client now d) of None \<Rightarrow> OutMiss
           | Some j \<Rightarrow> (case jn_kind j of Hit \<Rightarrow> OutHit | Fallback \<Rightarrow> OutFallback))]"
  by (auto simp: join_wire_alt try_join_outcome split: option.split)

lemma count_outcomes:
  "JoinWindow_total (fold (count_outcome now) os w) = JoinWindow_total w + length (filter (\<lambda>ao. now - fst ao \<le> TIMEOUT) os)"
  by (induction os arbitrary: w)
    (auto simp: count_outcome_def JoinWindow_total_def not_less split: Outcome.splits)

definition join_at :: "dp_op \<times> instant \<Rightarrow> bool" where
  "join_at ot = (case fst ot of TryJoin _ _ _ _ _ \<Rightarrow> True | _ \<Rightarrow> False)"

lemma outcomes_step:
  assumes "t \<le> now"
  shows "length (filter (\<lambda>ao. now - fst ao \<le> TIMEOUT) (dp_outcomes (dp_step d (op1, t)))) =
    length (filter (\<lambda>ao. now - fst ao \<le> TIMEOUT) (dp_outcomes d)) +
    (if join_at (op1, t) \<and> now - t \<le> TIMEOUT then 1 else 0)"
  using assms by (cases op1) (simp_all add: join_at_def note_ts_def join_wire_outcome dp_record_handshake_def
      dp_evict_stale_def dp_evict_closed_def outcome_window.prune_filter)

lemma outcomes_run:
  "\<forall>t \<in> set (map snd h). t \<le> now \<Longrightarrow>
    length (filter (\<lambda>ao. now - fst ao \<le> TIMEOUT) (dp_outcomes (foldl dp_step d h))) =
    length (filter (\<lambda>ao. now - fst ao \<le> TIMEOUT) (dp_outcomes d)) +
    length (filter (\<lambda>ot. join_at ot \<and> now - snd ot \<le> TIMEOUT) h)"
proof (induction h arbitrary: d)
  case (Cons ot h)
  then show ?case
    using outcomes_step [of "snd ot" now d "fst ot"] by simp
qed simp

lemma join_rate_bounds: "0 \<le> join_hit_rate now d" "join_hit_rate now d \<le> 1"
  by (simp_all add: join_hit_rate_def Let_def JoinWindow_total_def divide_le_eq)

text \<open>C31. The join statistics count every attempt of the last 60 s once: whatever was noted and evicted in
  between, hits, fallbacks and misses add up to the joins tried in the window, and the hit rate lies
  between 0 and 1.\<close>

theorem dual_plane_window_exact:
  assumes "\<forall>t \<in> set (map snd h). t \<le> now"
  shows "JoinWindow_total (join_window now (dp_run w h)) =
      length (filter (\<lambda>ot. join_at ot \<and> now - snd ot \<le> TIMEOUT) h) \<and>
    0 \<le> join_hit_rate now (dp_run w h) \<and> join_hit_rate now (dp_run w h) \<le> 1"
proof -
  have "JoinWindow_total \<lparr>jw_hit = 0, jw_fallback = 0, jw_miss = 0\<rparr> = 0" "dp_outcomes (DualPlane_new w) = []"
    by (simp_all add: JoinWindow_total_def DualPlane_new_def)
  then show ?thesis
    using outcomes_run [OF assms, of "DualPlane_new w"] join_rate_bounds
    by (simp add: join_window_def count_outcomes)
qed

theorem dual_plane_window_exact_witness:
  "JoinWindow_total (join_window (secs 61) (dp_run 5 [(TryJoin 1 7 5 9 True, 0), (TryJoin 1 7 5 9 True, secs 2),
      (EvictStale, secs 3)])) = 1"
  using dual_plane_window_exact [of "[(TryJoin 1 7 5 9 True, 0), (TryJoin 1 7 5 9 True, secs 2), (EvictStale, secs 3)]"
      "secs 61" 5]
  by (simp add: join_at_def secs_def TIMEOUT_def)

end
