(* ===== verification/Identity.thy ===== *)
theory Identity
  imports Strings
begin

text \<open>
  Process identity (\<open>src/agent/src/identity.rs\<close>) and the cgroup index (\<open>src/agent/src/cgroup_index.rs\<close>):
  node labels from \<open>/proc\<close>, the two bounded caches, pod and container ids from cgroup paths, and the map from
  cgroup inodes to pod UIDs. The file system is a parameter of the operations that read it.
\<close>

section \<open>Cgroup paths\<close>

definition looks_like_uid :: "string \<Rightarrow> bool" where
  "looks_like_uid s \<longleftrightarrow> length s = 36 \<and> s ! 8 = CHR ''-'' \<and> s ! 13 = CHR ''-'' \<and> s ! 18 = CHR ''-''
    \<and> s ! 23 = CHR ''-'' \<and> list_all is_ascii_hexdigit (filter (\<lambda>c. c \<noteq> CHR ''-'') s)"

definition SLICE_PREFIXES :: "string list" where
  "SLICE_PREFIXES = [''kubepods-guaranteed-pod'', ''kubepods-burstable-pod'', ''kubepods-besteffort-pod'',
    ''kubepods-pod'']"

text \<open>One path component: the four slice prefixes in order, then the plain \<open>pod\<close> directory of cgroupfs.\<close>

definition pod_uid_of_slice :: "string \<Rightarrow> string \<Rightarrow> string option" where
  "pod_uid_of_slice part prefix =
    (case strip_prefix prefix part of None \<Rightarrow> None
     | Some rest \<Rightarrow>
         let uid = (case strip_suffix ''.slice'' rest of None \<Rightarrow> rest | Some u \<Rightarrow> u);
             uid = replace_char CHR ''_'' CHR ''-'' uid
         in if looks_like_uid uid then Some uid else None)"

definition pod_uid_of_part :: "string \<Rightarrow> string option" where
  "pod_uid_of_part part =
    (case find_map (pod_uid_of_slice part) SLICE_PREFIXES of
       Some uid \<Rightarrow> Some uid
     | None \<Rightarrow>
         (case strip_prefix ''pod'' part of None \<Rightarrow> None
          | Some rest \<Rightarrow>
              let uid = replace_char CHR ''_'' CHR ''-'' rest
              in if looks_like_uid uid then Some uid else None))"

definition extract_pod_uid :: "string \<Rightarrow> string option" where
  "extract_pod_uid path = find_map pod_uid_of_part (split_on CHR ''/'' path)"

definition container_id_with :: "string \<Rightarrow> string \<Rightarrow> string option" where
  "container_id_with prefix part =
    (case strip_prefix prefix part of None \<Rightarrow> None
     | Some rest \<Rightarrow>
         let i = (case strip_suffix ''.scope'' rest of None \<Rightarrow> rest | Some r \<Rightarrow> r)
         in if length i \<ge> 12 \<and> list_all is_ascii_hexdigit i then Some i else None)"

definition container_id_of_part :: "string \<Rightarrow> string option" where
  "container_id_of_part part =
    (case container_id_with ''cri-containerd-'' part of Some i \<Rightarrow> Some i
     | None \<Rightarrow>
         (case container_id_with ''docker-'' part of Some i \<Rightarrow> Some i
          | None \<Rightarrow> if length part = 64 \<and> list_all is_ascii_hexdigit part then Some part else None))"

definition extract_container_id :: "string \<Rightarrow> string option" where
  "extract_container_id path = find_map container_id_of_part (split_on CHR ''/'' path)"

record CgroupIds =
  ci_pod_uid :: "string option"
  ci_container_id :: "string option"

definition parse_cgroup_line :: "string \<Rightarrow> CgroupIds \<Rightarrow> CgroupIds" where
  "parse_cgroup_line line out =
    (let path = last (split_on CHR '':'' line);
         out = (if ci_pod_uid out = None
                then (case extract_pod_uid path of None \<Rightarrow> out | Some uid \<Rightarrow> out\<lparr>ci_pod_uid := Some uid\<rparr>)
                else out)
     in if ci_container_id out = None
        then (case extract_container_id path of None \<Rightarrow> out | Some cid \<Rightarrow> out\<lparr>ci_container_id := Some cid\<rparr>)
        else out)"

definition parse_cgroup :: "string \<Rightarrow> CgroupIds" where
  "parse_cgroup content = fold parse_cgroup_line (str_lines content) \<lparr>ci_pod_uid = None, ci_container_id = None\<rparr>"

section \<open>Nodes and the resolver\<close>

definition CACHE_TTL :: nat where "CACHE_TTL = secs 30"

definition CACHE_CAP :: nat where "CACHE_CAP = 8192"

record NodeId =
  nd_label :: string
  nd_tgid :: u32
  nd_comm :: string
  nd_container_id :: "string option"
  nd_pod_uid :: "string option"

definition proc_fallback :: "u32 \<Rightarrow> string \<Rightarrow> NodeId" where
  "proc_fallback tgid comm =
    (let safe = (if comm = [] then ''unknown'' else comm)
     in \<lparr>nd_label = ''proc:'' @ safe @ '':'' @ show_nat (unat tgid), nd_tgid = tgid, nd_comm = safe,
         nd_container_id = None, nd_pod_uid = None\<rparr>)"

definition short_uid :: "string \<Rightarrow> string" where
  "short_uid uid = (case str_get_to 8 uid of None \<Rightarrow> uid | Some s \<Rightarrow> s)"

definition short_cid :: "string \<Rightarrow> string" where
  "short_cid cid = (case str_get_to 12 cid of None \<Rightarrow> cid | Some s \<Rightarrow> s)"

definition ws_or_nul :: "char \<Rightarrow> bool" where
  "ws_or_nul c \<longleftrightarrow> is_ws c \<or> c = CHR 0x00"

definition read_comm :: "file_system \<Rightarrow> string \<Rightarrow> string" where
  "read_comm rd path =
    (case read_to_string rd path of None \<Rightarrow> []
     | Some s \<Rightarrow> rev (dropWhile ws_or_nul (rev (dropWhile ws_or_nul s))))"

definition read_cmdline_basename :: "file_system \<Rightarrow> string \<Rightarrow> string" where
  "read_cmdline_basename rd path =
    (case rd path of None \<Rightarrow> []
     | Some bytes \<Rightarrow>
         let first = takeWhile (\<lambda>b. b \<noteq> 0) bytes
         in if first = [] then []
            else let path = from_utf8_lossy first
              in (case path_file_name path of None \<Rightarrow> path | Some n \<Rightarrow> n))"

record CacheEntry =
  ce_id :: NodeId
  ce_at :: instant

record IdentityResolver =
  ir_proc_root :: string
  ir_cache :: "(u32, CacheEntry) hashmap"
  ir_comm_cache :: "(u32, string \<times> instant) hashmap"

definition IdentityResolver_new :: "string \<Rightarrow> IdentityResolver" where
  "IdentityResolver_new root = \<lparr>ir_proc_root = root, ir_cache = [], ir_comm_cache = []\<rparr>"

definition choose_proc_root :: "(string \<Rightarrow> bool) \<Rightarrow> string \<Rightarrow> u32 \<Rightarrow> string \<Rightarrow> string" where
  "choose_proc_root is_file host_proc self_pid fallback =
    (if is_file (path_join (path_join host_proc (show_nat (unat self_pid))) ''comm'') then host_proc else fallback)"

definition IdentityResolver_default ::
  "(string \<Rightarrow> string option) \<Rightarrow> (string \<Rightarrow> bool) \<Rightarrow> u32 \<Rightarrow> IdentityResolver" where
  "IdentityResolver_default env is_file self_pid =
    IdentityResolver_new (case env ''OBSAGENT_PROC_ROOT'' of Some root \<Rightarrow> root
      | None \<Rightarrow> choose_proc_root is_file ''/host/proc'' self_pid ''/proc'')"

definition process_comm :: "file_system \<Rightarrow> string \<Rightarrow> u32 \<Rightarrow> string" where
  "process_comm rd proc_root tgid =
    (let dir = path_join proc_root (show_nat (unat tgid));
         c = read_comm rd (path_join dir ''comm'')
     in if c = [] then read_cmdline_basename rd (path_join dir ''cmdline'') else c)"

definition resolve_uncached :: "file_system \<Rightarrow> string \<Rightarrow> u32 \<Rightarrow> NodeId" where
  "resolve_uncached rd proc_root tgid =
    (let comm = process_comm rd proc_root tgid;
         cgroup = (case read_to_string rd (path_join (path_join proc_root (show_nat (unat tgid))) ''cgroup'') of
                     None \<Rightarrow> [] | Some s \<Rightarrow> s);
         parsed = parse_cgroup cgroup
     in case (ci_pod_uid parsed, ci_container_id parsed) of
          (Some uid, cid) \<Rightarrow>
            \<lparr>nd_label = ''pod:'' @ short_uid uid, nd_tgid = tgid, nd_comm = comm, nd_container_id = cid,
             nd_pod_uid = Some uid\<rparr>
        | (None, Some cid) \<Rightarrow>
            \<lparr>nd_label = ''ctr:'' @ short_cid cid, nd_tgid = tgid, nd_comm = comm, nd_container_id = Some cid,
             nd_pod_uid = None\<rparr>
        | (None, None) \<Rightarrow> proc_fallback tgid comm)"

definition remember_node :: "instant \<Rightarrow> u32 \<Rightarrow> CacheEntry \<Rightarrow> (u32, CacheEntry) hashmap \<Rightarrow> (u32, CacheEntry) hashmap" where
  "remember_node now tgid e m = hm_insert tgid e (make_room ce_at CACHE_TTL CACHE_CAP now m)"

definition remember_comm :: "instant \<Rightarrow> u32 \<Rightarrow> string \<times> instant \<Rightarrow> (u32, string \<times> instant) hashmap
  \<Rightarrow> (u32, string \<times> instant) hashmap" where
  "remember_comm now tgid e m = hm_insert tgid e (make_room snd CACHE_TTL CACHE_CAP now m)"

definition resolve :: "file_system \<Rightarrow> u32 \<Rightarrow> instant \<Rightarrow> IdentityResolver \<Rightarrow> NodeId \<times> IdentityResolver" where
  "resolve rd tgid now r =
    (let fresh = (case hm_get (ir_cache r) tgid of Some e \<Rightarrow> if now - ce_at e \<le> CACHE_TTL then Some (ce_id e) else None
                  | None \<Rightarrow> None)
     in case fresh of Some i \<Rightarrow> (i, r)
        | None \<Rightarrow>
            let i = resolve_uncached rd (ir_proc_root r) tgid
            in (i, r\<lparr>ir_cache := remember_node now tgid \<lparr>ce_id = i, ce_at = now\<rparr> (ir_cache r)\<rparr>))"

definition comm :: "file_system \<Rightarrow> u32 \<Rightarrow> instant \<Rightarrow> IdentityResolver \<Rightarrow> string \<times> IdentityResolver" where
  "comm rd tgid now r =
    (let fresh = (case hm_get (ir_comm_cache r) tgid of Some (c, at) \<Rightarrow> if now - at \<le> CACHE_TTL then Some c else None
                  | None \<Rightarrow> None)
     in case fresh of Some c \<Rightarrow> (c, r)
        | None \<Rightarrow>
            let c = process_comm rd (ir_proc_root r) tgid
            in (c, r\<lparr>ir_comm_cache := remember_comm now tgid (c, now) (ir_comm_cache r)\<rparr>))"

definition comm_pair :: "file_system \<Rightarrow> u32 \<Rightarrow> u32 \<Rightarrow> instant \<Rightarrow> IdentityResolver \<Rightarrow> string \<times> IdentityResolver" where
  "comm_pair rd tgid pid now r =
    (case comm rd tgid now r of (c, r) \<Rightarrow>
       if c \<noteq> [] \<or> pid = 0 \<or> pid = tgid then (c, r) else comm rd pid now r)"

section \<open>The cgroup index\<close>

text \<open>A directory of the cgroup file system: its path, its inode if \<open>metadata\<close> succeeds, and its subdirectories.\<close>

datatype CgDir = CgDir (cg_path: string) (cg_ino: "u64 option") (cg_subdirs: "CgDir list")

type_synonym CgroupPodIndex = "(u64, string) hashmap"

fun cg_walk :: "CgDir \<Rightarrow> CgroupPodIndex \<Rightarrow> CgroupPodIndex" where
  "cg_walk (CgDir path ino subdirs) out =
    fold cg_walk subdirs
      (case extract_pod_uid path of None \<Rightarrow> out
       | Some uid \<Rightarrow> (case ino of None \<Rightarrow> out | Some i \<Rightarrow> hm_insert i uid out))"

definition scan_cgroup_fs :: "CgDir option \<Rightarrow> CgroupPodIndex" where
  "scan_cgroup_fs root = (case root of None \<Rightarrow> [] | Some d \<Rightarrow> cg_walk d [])"

definition cgroup_lookup :: "CgroupPodIndex \<Rightarrow> u64 \<Rightarrow> string option" where
  "cgroup_lookup index cgroup_id = (if cgroup_id = 0 then None else hm_get index cgroup_id)"

definition cgroup_root_path :: "(string \<Rightarrow> string option) \<Rightarrow> string" where
  "cgroup_root_path env = (case env ''OBSAGENT_CGROUP_ROOT'' of Some p \<Rightarrow> p | None \<Rightarrow> ''/sys/fs/cgroup'')"

section \<open>Identifiers found in paths\<close>

lemma pod_uid_of_part_wf: "pod_uid_of_part part = Some uid \<Longrightarrow> looks_like_uid uid"
  by (auto simp: pod_uid_of_part_def pod_uid_of_slice_def Let_def split: option.splits if_splits
      dest!: find_map_Some)

lemma extract_pod_uid_wf: "extract_pod_uid path = Some uid \<Longrightarrow> looks_like_uid uid"
  by (auto simp: extract_pod_uid_def dest!: find_map_Some pod_uid_of_part_wf)

definition container_id_ok :: "string \<Rightarrow> bool" where
  "container_id_ok i \<longleftrightarrow> 12 \<le> length i \<and> list_all is_ascii_hexdigit i"

lemma extract_container_id_wf: "extract_container_id path = Some i \<Longrightarrow> container_id_ok i"
  by (auto simp: extract_container_id_def container_id_of_part_def container_id_with_def container_id_ok_def
      Let_def split: option.splits if_splits dest!: find_map_Some)

lemma parse_cgroup_line_wf:
  "pred_option looks_like_uid (ci_pod_uid out) \<and> pred_option container_id_ok (ci_container_id out) \<Longrightarrow>
    pred_option looks_like_uid (ci_pod_uid (parse_cgroup_line line out)) \<and>
    pred_option container_id_ok (ci_container_id (parse_cgroup_line line out))"
  by (auto simp: parse_cgroup_line_def Let_def extract_pod_uid_wf extract_container_id_wf split: option.splits)

lemma parse_cgroup_wf:
  "pred_option looks_like_uid (ci_pod_uid (parse_cgroup content)) \<and>
    pred_option container_id_ok (ci_container_id (parse_cgroup content))"
proof -
  have "pred_option looks_like_uid (ci_pod_uid (fold parse_cgroup_line ls out)) \<and>
      pred_option container_id_ok (ci_container_id (fold parse_cgroup_line ls out))"
    if "pred_option looks_like_uid (ci_pod_uid out) \<and> pred_option container_id_ok (ci_container_id out)" for ls out
    using that by (induction ls arbitrary: out) (simp_all add: parse_cgroup_line_wf)
  then show ?thesis
    by (simp add: parse_cgroup_def)
qed

lemma uid_chars: "looks_like_uid uid \<Longrightarrow> c \<in> set uid \<Longrightarrow> c = CHR ''-'' \<or> is_ascii_hexdigit c"
  by (auto simp: looks_like_uid_def list_all_iff)

lemma uid_no_underscore: "looks_like_uid uid \<Longrightarrow> CHR ''_'' \<notin> set uid \<and> CHR ''.'' \<notin> set uid \<and> CHR ''/'' \<notin> set uid"
  by (auto simp: is_ascii_hexdigit_def is_ascii_digit_def dest: uid_chars)

lemma unescape_escape:
  "CHR ''_'' \<notin> set uid \<Longrightarrow> replace_char CHR ''_'' CHR ''-'' (replace_char CHR ''-'' CHR ''_'' uid) = uid"
  by (induction uid) (auto simp: replace_char_def)

lemma strip_suffix_append: "strip_suffix p (s @ p) = Some s"
  by (simp add: strip_suffix_def ends_with_def)

lemma strip_prefix_append: "strip_prefix p (p @ s) = Some s"
  by (simp add: strip_prefix_def starts_with_def)

lemma pod_uid_of_slice_found:
  "looks_like_uid uid \<Longrightarrow> pod_uid_of_slice (prefix @ replace_char CHR ''-'' CHR ''_'' uid @ ''.slice'') prefix = Some uid"
  using uid_no_underscore [of uid]
  by (simp add: pod_uid_of_slice_def strip_prefix_append strip_suffix_append unescape_escape)

lemma slice_mismatch:
  assumes "i < length p" "i < length a" "a ! i \<noteq> p ! i"
  shows "pod_uid_of_slice (a @ x) p = None"
proof -
  have "\<not> starts_with (a @ x) p"
  proof
    assume "starts_with (a @ x) p"
    then have "take (length p) (a @ x) ! i = p ! i"
      by (simp only: starts_with_def)
    then show False
      using assms by (simp add: nth_append)
  qed
  then show ?thesis
    by (simp add: pod_uid_of_slice_def strip_prefix_def)
qed

lemma pod_uid_of_slice_part:
  assumes "looks_like_uid uid" "prefix \<in> set SLICE_PREFIXES"
  shows "pod_uid_of_part (prefix @ replace_char CHR ''-'' CHR ''_'' uid @ ''.slice'') = Some uid"
proof -
  let ?x = "replace_char CHR ''-'' CHR ''_'' uid @ ''.slice''"
  note found = pod_uid_of_slice_found [OF assms(1)]
  have m: "pod_uid_of_slice (''kubepods-burstable-pod'' @ ?x) ''kubepods-guaranteed-pod'' = None"
    "pod_uid_of_slice (''kubepods-besteffort-pod'' @ ?x) ''kubepods-guaranteed-pod'' = None"
    "pod_uid_of_slice (''kubepods-pod'' @ ?x) ''kubepods-guaranteed-pod'' = None"
    "pod_uid_of_slice (''kubepods-besteffort-pod'' @ ?x) ''kubepods-burstable-pod'' = None"
    "pod_uid_of_slice (''kubepods-pod'' @ ?x) ''kubepods-burstable-pod'' = None"
    "pod_uid_of_slice (''kubepods-pod'' @ ?x) ''kubepods-besteffort-pod'' = None"
    by (rule slice_mismatch [of 9] slice_mismatch [of 10]; simp)+
  have "find_map (pod_uid_of_slice (prefix @ ?x)) SLICE_PREFIXES = Some uid"
    using assms(2) unfolding SLICE_PREFIXES_def find_map.simps list.set
    by (elim insertE emptyE) (simp_all only: found m option.case)
  then show ?thesis
    by (simp add: pod_uid_of_part_def)
qed

text \<open>C26. Pod UIDs survive the systemd escaping: in any cgroup path whose components before it name no pod,
  a slice of one of the four quality-of-service classes built from a UID (dashes written as underscores)
  gives back exactly that UID.\<close>

theorem extract_pod_uid_roundtrip:
  assumes "looks_like_uid uid" "prefix \<in> set SLICE_PREFIXES"
    and "\<forall>part \<in> set before. pod_uid_of_part part = None"
    and "\<forall>part \<in> set (before @ after). CHR ''/'' \<notin> set part"
  shows "extract_pod_uid (join ''/'' (before @ [prefix @ replace_char CHR ''-'' CHR ''_'' uid @ ''.slice''] @ after)) = Some uid"
proof -
  let ?part = "prefix @ replace_char CHR ''-'' CHR ''_'' uid @ ''.slice''"
  have "CHR ''/'' \<notin> set prefix"
    using assms(2) by (auto simp: SLICE_PREFIXES_def)
  moreover have "CHR ''/'' \<notin> set (replace_char CHR ''-'' CHR ''_'' uid)"
    using uid_no_underscore [OF assms(1)] by (auto simp: replace_char_def)
  ultimately have "\<forall>part \<in> set (before @ [?part] @ after). CHR ''/'' \<notin> set part"
    using assms(4) by auto
  then have "split_on CHR ''/'' (join ''/'' (before @ [?part] @ after)) = before @ [?part] @ after"
    by (intro split_join) simp_all
  moreover have "find_map pod_uid_of_part before = None"
    using assms(3) by (induction before) auto
  ultimately show ?thesis
    using pod_uid_of_slice_part [OF assms(1,2)] by (simp add: extract_pod_uid_def find_map_append)
qed

definition demo_uid :: string where
  "demo_uid = ''a1b2c3d4-0000-1111-2222-333344445555''"

lemma demo_uid_ok: "looks_like_uid demo_uid"
  by (simp add: looks_like_uid_def demo_uid_def is_ascii_hexdigit_def is_ascii_digit_def)

theorem extract_pod_uid_roundtrip_witness:
  "extract_pod_uid (join ''/'' ([[], ''kubepods.slice''] @
      [''kubepods-burstable-pod'' @ replace_char CHR ''-'' CHR ''_'' demo_uid @ ''.slice''] @ [''x.scope''])) = Some demo_uid"
proof -
  have "pod_uid_of_part [] = None" "pod_uid_of_part ''kubepods.slice'' = None"
    by (simp_all add: pod_uid_of_part_def SLICE_PREFIXES_def pod_uid_of_slice_def strip_prefix_def)
  then show ?thesis
    using extract_pod_uid_roundtrip [OF demo_uid_ok, of "''kubepods-burstable-pod''" "[[], ''kubepods.slice'']" "[''x.scope'']"]
    by (simp add: SLICE_PREFIXES_def)
qed

text \<open>Whatever the text of a cgroup file, a pod UID taken from it has the 8-4-4-4-12 hexadecimal form and a
  container id is at least twelve hexadecimal digits, so neither can carry other characters into labels.\<close>

theorem parse_cgroup_ids:
  "(ci_pod_uid (parse_cgroup content) = Some uid \<longrightarrow> looks_like_uid uid) \<and>
    (ci_container_id (parse_cgroup content) = Some i \<longrightarrow> 12 \<le> length i \<and> list_all is_ascii_hexdigit i)"
  using parse_cgroup_wf [of content] by (auto simp: container_id_ok_def)

theorem parse_cgroup_ids_witness:
  "ci_pod_uid (parse_cgroup (''0::/pod'' @ demo_uid)) = Some demo_uid \<and> looks_like_uid demo_uid"
proof -
  have "ci_pod_uid (parse_cgroup (''0::/pod'' @ demo_uid)) = Some demo_uid"
    by code_simp
  then show ?thesis
    using parse_cgroup_ids [of "''0::/pod'' @ demo_uid" demo_uid] by blast
qed

section \<open>The caches\<close>

interpretation node_cache: ttl_cache ce_at CACHE_TTL CACHE_CAP remember_node
  by unfold_locales (simp_all add: remember_node_def CACHE_CAP_def)

interpretation comm_cache: ttl_cache snd CACHE_TTL CACHE_CAP remember_comm
  by unfold_locales (simp_all add: remember_comm_def CACHE_CAP_def)

datatype IdOp = OpResolve file_system u32 instant | OpComm file_system u32 instant

fun id_step :: "IdOp \<Rightarrow> IdentityResolver \<Rightarrow> IdentityResolver" where
  "id_step (OpResolve rd tgid now) r = snd (resolve rd tgid now r)"
| "id_step (OpComm rd tgid now) r = snd (comm rd tgid now r)"

definition id_inv :: "string \<Rightarrow> IdOp list \<Rightarrow> IdentityResolver \<Rightarrow> bool" where
  "id_inv root h r \<longleftrightarrow> ir_proc_root r = root \<and> hm_wf (ir_cache r) \<and> hm_wf (ir_comm_cache r) \<and>
    length (ir_cache r) \<le> CACHE_CAP \<and> length (ir_comm_cache r) \<le> CACHE_CAP \<and>
    (\<forall>k e. hm_get (ir_cache r) k = Some e \<longrightarrow>
      (\<exists>rd. OpResolve rd k (ce_at e) \<in> set h \<and> ce_id e = resolve_uncached rd root k)) \<and>
    (\<forall>k c t. hm_get (ir_comm_cache r) k = Some (c, t) \<longrightarrow>
      (\<exists>rd. OpComm rd k t \<in> set h \<and> c = process_comm rd root k))"

lemma id_inv_mono: "id_inv root h r \<Longrightarrow> id_inv root (h @ h') r"
  unfolding id_inv_def by (metis Un_iff set_append)

lemma resolve_hit:
  "hm_get (ir_cache r) tgid = Some e \<Longrightarrow> now - ce_at e \<le> CACHE_TTL \<Longrightarrow> resolve rd tgid now r = (ce_id e, r)"
  by (simp add: resolve_def)

lemma resolve_miss:
  "\<not> (\<exists>e. hm_get (ir_cache r) tgid = Some e \<and> now - ce_at e \<le> CACHE_TTL) \<Longrightarrow> i = resolve_uncached rd (ir_proc_root r) tgid \<Longrightarrow>
    resolve rd tgid now r = (i, r\<lparr>ir_cache := remember_node now tgid \<lparr>ce_id = i, ce_at = now\<rparr> (ir_cache r)\<rparr>)"
  by (cases "hm_get (ir_cache r) tgid") (simp_all add: resolve_def Let_def)

lemma comm_hit:
  "hm_get (ir_comm_cache r) tgid = Some (c, t) \<Longrightarrow> now - t \<le> CACHE_TTL \<Longrightarrow> comm rd tgid now r = (c, r)"
  by (simp add: comm_def)

lemma comm_miss:
  "\<not> (\<exists>c t. hm_get (ir_comm_cache r) tgid = Some (c, t) \<and> now - t \<le> CACHE_TTL) \<Longrightarrow> c = process_comm rd (ir_proc_root r) tgid \<Longrightarrow>
    comm rd tgid now r = (c, r\<lparr>ir_comm_cache := remember_comm now tgid (c, now) (ir_comm_cache r)\<rparr>)"
  by (cases "hm_get (ir_comm_cache r) tgid") (auto simp: comm_def Let_def)

lemma id_inv_resolve:
  assumes inv: "id_inv root h r" and i: "i = resolve_uncached rd root tgid"
  shows "id_inv root (h @ [OpResolve rd tgid now]) (r\<lparr>ir_cache := remember_node now tgid \<lparr>ce_id = i, ce_at = now\<rparr> (ir_cache r)\<rparr>)"
proof -
  have w: "hm_wf (ir_cache r)"
    using inv by (simp add: id_inv_def)
  have "\<exists>rd'. OpResolve rd' k (ce_at e) \<in> set (h @ [OpResolve rd tgid now]) \<and> ce_id e = resolve_uncached rd' root k"
    if "hm_get (remember_node now tgid \<lparr>ce_id = i, ce_at = now\<rparr> (ir_cache r)) k = Some e" for k e
    using node_cache.put_get [OF w that] inv i by (auto simp: id_inv_def)
  then show ?thesis
    using id_inv_mono [OF inv, of "[OpResolve rd tgid now]"] node_cache.put_wf [OF w] node_cache.put_bounded [OF w]
    by (simp add: id_inv_def)
qed

lemma id_inv_comm:
  assumes inv: "id_inv root h r" and c: "c = process_comm rd root tgid"
  shows "id_inv root (h @ [OpComm rd tgid now]) (r\<lparr>ir_comm_cache := remember_comm now tgid (c, now) (ir_comm_cache r)\<rparr>)"
proof -
  have w: "hm_wf (ir_comm_cache r)"
    using inv by (simp add: id_inv_def)
  have "\<exists>rd'. OpComm rd' k t \<in> set (h @ [OpComm rd tgid now]) \<and> c' = process_comm rd' root k"
    if "hm_get (remember_comm now tgid (c, now) (ir_comm_cache r)) k = Some (c', t)" for k c' t
    using comm_cache.put_get [OF w that] inv c by (auto simp: id_inv_def)
  then show ?thesis
    using id_inv_mono [OF inv, of "[OpComm rd tgid now]"] comm_cache.put_wf [OF w] comm_cache.put_bounded [OF w]
    by (simp add: id_inv_def)
qed

lemma id_inv_root: "id_inv root h r \<Longrightarrow> ir_proc_root r = root"
  by (simp add: id_inv_def)

lemma id_inv_step: "id_inv root h r \<Longrightarrow> id_inv root (h @ [x]) (id_step x r)"
proof (cases x)
  case (OpResolve rd tgid now)
  assume inv: "id_inv root h r"
  show ?thesis
  proof (cases "\<exists>e. hm_get (ir_cache r) tgid = Some e \<and> now - ce_at e \<le> CACHE_TTL")
    case True
    then show ?thesis
      using id_inv_mono [OF inv] OpResolve resolve_hit [of r tgid _ now rd] by auto
  next
    case False
    show ?thesis
      using id_inv_resolve [OF inv refl, of rd tgid now] resolve_miss [OF False refl, of rd] id_inv_root [OF inv] OpResolve
      by simp
  qed
next
  case (OpComm rd tgid now)
  assume inv: "id_inv root h r"
  show ?thesis
  proof (cases "\<exists>c t. hm_get (ir_comm_cache r) tgid = Some (c, t) \<and> now - t \<le> CACHE_TTL")
    case True
    then show ?thesis
      using id_inv_mono [OF inv] OpComm comm_hit [of r tgid _ _ now rd] by auto
  next
    case False
    show ?thesis
      using id_inv_comm [OF inv refl, of rd tgid now] comm_miss [OF False refl, of rd] id_inv_root [OF inv] OpComm
      by simp
  qed
qed

lemma id_inv_run: "id_inv root h (fold id_step h (IdentityResolver_new root))"
proof (induction h rule: rev_induct)
  case Nil
  then show ?case
    by (simp add: id_inv_def IdentityResolver_new_def)
qed (simp add: id_inv_step)

text \<open>C22. Identities are never stale: after any sequence of lookups both caches hold at most 8192 entries, and the
  identity returned for a process is what reading its \<open>/proc\<close> entry gave at some lookup of that same process at
  most 30 s ago.\<close>

theorem identity_fresh:
  assumes "resolve rd tgid now (fold id_step h (IdentityResolver_new root)) = (i, r')"
  shows "length (ir_cache r') \<le> CACHE_CAP \<and> length (ir_comm_cache r') \<le> CACHE_CAP \<and>
    (\<exists>rd' t. OpResolve rd' tgid t \<in> set (h @ [OpResolve rd tgid now]) \<and> now - t \<le> CACHE_TTL \<and>
      i = resolve_uncached rd' root tgid)"
proof -
  let ?r = "fold id_step h (IdentityResolver_new root)"
  have "id_inv root (h @ [OpResolve rd tgid now]) r'"
    using id_inv_run [of root "h @ [OpResolve rd tgid now]"] assms by simp
  moreover have "\<exists>rd' t. OpResolve rd' tgid t \<in> set (h @ [OpResolve rd tgid now]) \<and> now - t \<le> CACHE_TTL \<and>
      i = resolve_uncached rd' root tgid"
  proof (cases "\<exists>e. hm_get (ir_cache ?r) tgid = Some e \<and> now - ce_at e \<le> CACHE_TTL")
    case True
    then obtain e where e: "hm_get (ir_cache ?r) tgid = Some e" "now - ce_at e \<le> CACHE_TTL"
      by blast
    then obtain rd' where "OpResolve rd' tgid (ce_at e) \<in> set h" "ce_id e = resolve_uncached rd' root tgid"
      using id_inv_run [of root h] unfolding id_inv_def by blast
    then show ?thesis
      using e(2) resolve_hit [OF e, of rd] assms by (intro exI [of _ rd'] exI [of _ "ce_at e"]) simp
  next
    case False
    then show ?thesis
      using id_inv_root [OF id_inv_run [of root h]] resolve_miss [OF False refl, of rd] assms
      by (intro exI [of _ rd] exI [of _ now]) simp
  qed
  ultimately show ?thesis
    by (simp add: id_inv_def)
qed

theorem identity_fresh_witness:
  "\<exists>i r'. resolve (\<lambda>p. None) 7 9 (fold id_step [OpResolve (\<lambda>p. Some []) 7 5] (IdentityResolver_new ''/proc'')) = (i, r') \<and>
    length (ir_cache r') \<le> 8192"
proof -
  obtain i r' where "resolve (\<lambda>p. None) 7 9 (fold id_step [OpResolve (\<lambda>p. Some []) 7 5] (IdentityResolver_new ''/proc'')) = (i, r')"
    by (rule prod.exhaust)
  then show ?thesis
    using identity_fresh [of "\<lambda>p. None" 7 9 "[OpResolve (\<lambda>p. Some []) 7 5]" "''/proc''" i r'] by (simp add: CACHE_CAP_def)
qed

section \<open>The index of cgroup inodes\<close>

fun cg_all :: "CgDir \<Rightarrow> CgDir list" where
  "cg_all (CgDir path ino subdirs) = CgDir path ino subdirs # concat (map cg_all subdirs)"

definition cg_add :: "CgDir \<Rightarrow> CgroupPodIndex \<Rightarrow> CgroupPodIndex" where
  "cg_add d out =
    (case extract_pod_uid (cg_path d) of None \<Rightarrow> out
     | Some uid \<Rightarrow> (case cg_ino d of None \<Rightarrow> out | Some i \<Rightarrow> hm_insert i uid out))"

text \<open>The recursive walk is a left-to-right pass over the directories in preorder.\<close>

lemma cg_walk_flat: "cg_walk d out = fold cg_add (cg_all d) out"
proof (induction d arbitrary: out)
  case (CgDir path ino subdirs)
  have "fold cg_walk ds out = fold cg_add (concat (map cg_all ds)) out" if "set ds \<subseteq> set subdirs" for ds out
    using that CgDir by (induction ds arbitrary: out) auto
  then show ?case
    by (simp add: cg_add_def [of "CgDir path ino subdirs"] split: option.split)
qed

lemma cg_fold_get:
  "hm_get (fold cg_add ds out) i =
    (case rev (filter (\<lambda>d. cg_ino d = Some i \<and> extract_pod_uid (cg_path d) \<noteq> None) ds) of
       [] \<Rightarrow> hm_get out i | d # _ \<Rightarrow> extract_pod_uid (cg_path d))"
proof (induction ds arbitrary: out rule: rev_induct)
  case (snoc d ds)
  then show ?case
    by (auto simp: cg_add_def split: option.splits list.splits)
qed simp

text \<open>C27. The cgroup index is exact: an inode other than 0 is known if and only if some directory of the scanned
  tree with that inode has a pod UID in its path, and the answer is the UID of the last such directory in
  the order of the walk.\<close>

theorem cgroup_lookup_exact:
  "cgroup_lookup (scan_cgroup_fs (Some root)) i =
    (let hits = filter (\<lambda>d. cg_ino d = Some i \<and> extract_pod_uid (cg_path d) \<noteq> None) (cg_all root)
     in if i = 0 \<or> hits = [] then None else extract_pod_uid (cg_path (last hits)))"
proof -
  let ?hits = "filter (\<lambda>d. cg_ino d = Some i \<and> extract_pod_uid (cg_path d) \<noteq> None) (cg_all root)"
  have "(case rev ?hits of [] \<Rightarrow> hm_get [] i | d # _ \<Rightarrow> extract_pod_uid (cg_path d)) =
      (if ?hits = [] then None else extract_pod_uid (cg_path (last ?hits)))"
    by (cases ?hits rule: rev_cases) (simp_all del: filter_empty_conv)
  then show ?thesis
    unfolding cgroup_lookup_def scan_cgroup_fs_def Let_def option.case cg_walk_flat cg_fold_get by simp
qed

end
