(* ===== verification/Service_Map.thy ===== *)
theory Service_Map
  imports Agg Identity
begin

text \<open>
  The service map (\<open>src/agent/src/service_map.rs\<close>): directed edges from a process to a destination with a
  rolling window of samples and cumulative counters, bounded by one overflow edge, and the printing of
  peers. \<open>Ipv6Addr\<close> is printed as the standard library prints it.
\<close>

section \<open>Model\<close>

definition SM_WINDOW :: nat where "SM_WINDOW = secs 60"

definition MAX_EDGES :: nat where "MAX_EDGES = 4096"

datatype DstId = Pod (dst_namespace: string) (dst_name: string) | IpPort (dst_addr: string) | Unknown

fun DstId_label :: "DstId \<Rightarrow> string" where
  "DstId_label (Pod namespace name) = namespace @ ''/'' @ name"
| "DstId_label (IpPort addr) = addr"
| "DstId_label Unknown = ''unknown''"

record EdgeKey =
  eg_src :: string
  eg_dst :: DstId

record EdgeSample =
  sp_at :: instant
  sp_latency_ns :: u64
  sp_status :: u16

record EdgeStats =
  ed_samples :: "EdgeSample list"
  ed_cum_count :: nat
  ed_cum_errors :: nat
  ed_cum_latency_ns_sum :: nat

definition EdgeStats_default :: EdgeStats where
  "EdgeStats_default = \<lparr>ed_samples = [], ed_cum_count = 0, ed_cum_errors = 0, ed_cum_latency_ns_sum = 0\<rparr>"

record EdgeRow =
  er_count :: nat
  er_rate_per_s :: rat
  er_p50_ns :: u64
  er_p99_ns :: u64
  er_pct_5xx :: rat
  er_cum_count :: nat
  er_cum_errors :: nat

record ServiceMap =
  sm_edges :: "(EdgeKey, EdgeStats) hashmap"
  sm_overflow_count :: nat

definition ServiceMap_default :: ServiceMap where
  "ServiceMap_default = \<lparr>sm_edges = [], sm_overflow_count = 0\<rparr>"

record MapRecord =
  mr_src :: NodeId
  mr_dst :: DstId
  mr_endpoint :: HttpEndpoint
  mr_latency_ns :: u64
  mr_status :: u16

fun edge_prune :: "instant \<Rightarrow> EdgeSample list \<Rightarrow> EdgeSample list" where
  "edge_prune now [] = []"
| "edge_prune now (s # q) = (if now - sp_at s > SM_WINDOW then edge_prune now q else s # q)"

definition EdgeStats_prune :: "instant \<Rightarrow> EdgeStats \<Rightarrow> EdgeStats" where
  "EdgeStats_prune now st = st\<lparr>ed_samples := edge_prune now (ed_samples st)\<rparr>"

definition edge_update :: "MapRecord \<Rightarrow> instant \<Rightarrow> EdgeStats \<Rightarrow> EdgeStats" where
  "edge_update r now st =
    EdgeStats_prune now
      (st\<lparr>ed_samples := ed_samples st @ [\<lparr>sp_at = now, sp_latency_ns = mr_latency_ns r, sp_status = mr_status r\<rparr>],
          ed_cum_count := ed_cum_count st + 1,
          ed_cum_latency_ns_sum := ed_cum_latency_ns_sum st + unat (mr_latency_ns r),
          ed_cum_errors := (if mr_status r \<ge> 500 then ed_cum_errors st + 1 else ed_cum_errors st)\<rparr>)"

definition record_key :: "EdgeKey \<Rightarrow> MapRecord \<Rightarrow> instant \<Rightarrow> ServiceMap \<Rightarrow> ServiceMap" where
  "record_key key r now m = m\<lparr>sm_edges := hm_entry key EdgeStats_default (edge_update r now) (sm_edges m)\<rparr>"

definition edge_key :: "MapRecord \<Rightarrow> EdgeKey" where
  "edge_key r = \<lparr>eg_src = nd_label (mr_src r), eg_dst = mr_dst r\<rparr>"

definition OTHER_EDGE :: EdgeKey where
  "OTHER_EDGE = \<lparr>eg_src = ''_other'', eg_dst = Unknown\<rparr>"

definition ServiceMap_record :: "MapRecord \<Rightarrow> instant \<Rightarrow> ServiceMap \<Rightarrow> ServiceMap" where
  "ServiceMap_record r now m =
    (if \<not> hm_contains (sm_edges m) (edge_key r) \<and> length (sm_edges m) \<ge> MAX_EDGES
     then record_key OTHER_EDGE r now (m\<lparr>sm_overflow_count := sm_overflow_count m + 1\<rparr>)
     else record_key (edge_key r) r now m)"

definition EdgeStats_snapshot :: "quantile_fn \<Rightarrow> EdgeStats \<Rightarrow> instant \<Rightarrow> EdgeRow" where
  "EdgeStats_snapshot hdr st now =
    (let samples = filter (\<lambda>s. now - sp_at s \<le> SM_WINDOW) (ed_samples st);
         count = length samples;
         h = map (\<lambda>s. max (sp_latency_ns s) 1) samples;
         err = length (filter (\<lambda>s. sp_status s \<ge> 500) samples)
     in \<lparr>er_count = count, er_rate_per_s = of_nat count / 60,
         er_p50_ns = (if count = 0 then 0 else hdr h 50), er_p99_ns = (if count = 0 then 0 else hdr h 99),
         er_pct_5xx = (if count = 0 then 0 else 100 * of_nat err / of_nat count),
         er_cum_count = ed_cum_count st, er_cum_errors = ed_cum_errors st\<rparr>)"

definition ServiceMap_rows :: "quantile_fn \<Rightarrow> instant \<Rightarrow> ServiceMap \<Rightarrow> (EdgeKey \<times> EdgeRow) list" where
  "ServiceMap_rows hdr now m =
    sort_desc (\<lambda>kr. er_count (snd kr))
      (List.map_filter (\<lambda>(k, s). let row = EdgeStats_snapshot hdr s now in
         if er_count row = 0 \<and> er_cum_count row = 0 then None else Some (k, row)) (sm_edges m))"

definition edge_count :: "ServiceMap \<Rightarrow> nat" where
  "edge_count m = length (sm_edges m)"

section \<open>Printing peers\<close>

text \<open>The first longest run of zero segments: its start and its length.\<close>

fun zero_run :: "nat \<Rightarrow> nat list \<Rightarrow> nat \<times> nat \<Rightarrow> nat \<times> nat \<Rightarrow> nat \<times> nat" where
  "zero_run i [] cur longest = longest"
| "zero_run i (s # ss) cur longest =
    (if s = 0 then
       let cur = (if snd cur = 0 then (i, 1) else (fst cur, snd cur + 1))
       in zero_run (i + 1) ss cur (if snd cur > snd longest then cur else longest)
     else zero_run (i + 1) ss (0, 0) longest)"

fun be_segments :: "bytes \<Rightarrow> nat list" where
  "be_segments (a # b # r) = (unat a * 256 + unat b) # be_segments r"
| "be_segments _ = []"

definition show_ipv6 :: "bytes \<Rightarrow> string" where
  "show_ipv6 bs =
    (if take 12 bs = replicate 10 0 @ [0xFF, 0xFF] then ''::ffff:'' @ show_ipv4 (drop 12 bs)
     else
       let segs = be_segments bs; fmt = (\<lambda>ss. join '':'' (map show_hex ss))
       in case zero_run 0 segs (0, 0) (0, 0) of (start, n) \<Rightarrow>
         if n > 1 then fmt (take start segs) @ ''::'' @ fmt (drop (start + n) segs) else fmt segs)"

definition format_peer :: "PeerAddr \<Rightarrow> string" where
  "format_peer peer =
    (let port = show_nat (unat (u16_from_be (pa_dport_be peer)))
     in if PeerAddr_is_v6 peer then ''['' @ show_ipv6 (pa_daddr peer) @ '']:'' @ port
        else let raw = (case PeerAddr_v4_addr peer of None \<Rightarrow> 0 | Some a \<Rightarrow> a)
          in show_ipv4 (le_bytes 4 raw) @ '':'' @ port)"

definition format_ip_port :: "u32 \<Rightarrow> u16 \<Rightarrow> string" where
  "format_ip_port daddr_be dport_be = format_peer (PeerAddr_from_v4 daddr_be dport_be)"

section \<open>The bounded edge table\<close>

lemma edge_prune_dropWhile: "edge_prune now q = dropWhile (\<lambda>s. now - sp_at s > SM_WINDOW) q"
  by (induction q) auto

interpretation edge_window: rolling_window sp_at SM_WINDOW edge_prune
  by unfold_locales (rule edge_prune_dropWhile)

abbreviation sm_step :: "ServiceMap \<Rightarrow> MapRecord \<times> instant \<Rightarrow> ServiceMap" where
  "sm_step m rt \<equiv> ServiceMap_record (fst rt) (snd rt) m"

abbreviation recorded_key :: "ServiceMap \<Rightarrow> MapRecord \<Rightarrow> EdgeKey" where
  "recorded_key m r \<equiv> if hm_get (sm_edges m) (edge_key r) = None \<and> MAX_EDGES \<le> length (sm_edges m)
    then OTHER_EDGE else edge_key r"

lemma record_edges:
  "sm_edges (ServiceMap_record r now m) = hm_entry (recorded_key m r) EdgeStats_default (edge_update r now) (sm_edges m)"
  by (simp add: ServiceMap_record_def record_key_def hm_contains_get)

interpretation edges: capped_registry sm_edges "\<lambda>rt. edge_key (fst rt)" OTHER_EDGE MAX_EDGES sm_step
  by unfold_locales (auto simp: record_edges hm_get_entry hm_wf_entry hm_len_entry Let_def)

lemma edge_update_counters:
  "ed_cum_count (edge_update r now st) = ed_cum_count st + 1"
  "ed_cum_errors (edge_update r now st) = ed_cum_errors st + (if mr_status r \<ge> 500 then 1 else 0)"
  "ed_cum_latency_ns_sum (edge_update r now st) = ed_cum_latency_ns_sum st + unat (mr_latency_ns r)"
  by (simp_all add: edge_update_def EdgeStats_prune_def)

abbreviation edge_total :: "(EdgeStats \<Rightarrow> nat) \<Rightarrow> ServiceMap \<Rightarrow> nat" where
  "edge_total f m \<equiv> \<Sum>kv\<leftarrow>sm_edges m. f (snd kv)"

lemma edge_total_step:
  "edge_total ed_cum_count (sm_step m rt) = edge_total ed_cum_count m + 1"
  "edge_total ed_cum_errors (sm_step m rt) = edge_total ed_cum_errors m + (if mr_status (fst rt) \<ge> 500 then 1 else 0)"
  "edge_total ed_cum_latency_ns_sum (sm_step m rt) = edge_total ed_cum_latency_ns_sum m + unat (mr_latency_ns (fst rt))"
  unfolding record_edges by (rule hm_entry_sum; simp add: edge_update_counters EdgeStats_default_def)+

lemma edge_total_run:
  "edge_total ed_cum_count (foldl sm_step m h) = edge_total ed_cum_count m + length h"
  "edge_total ed_cum_errors (foldl sm_step m h) =
    edge_total ed_cum_errors m + length (filter (\<lambda>rt. mr_status (fst rt) \<ge> 500) h)"
  "edge_total ed_cum_latency_ns_sum (foldl sm_step m h) =
    edge_total ed_cum_latency_ns_sum m + (\<Sum>rt\<leftarrow>h. unat (mr_latency_ns (fst rt)))"
  by (induction h arbitrary: m) (simp_all add: edge_total_step)

text \<open>C33. The service map is bounded and loses nothing: after any history of exchanges it has at most 4097
  edges, and its cumulative counters over all edges are the number of exchanges, of server errors and the
  sum of the latencies of the history.\<close>

theorem service_map_accounting:
  "edge_count (foldl sm_step ServiceMap_default h) \<le> MAX_EDGES + 1 \<and>
    edge_total ed_cum_count (foldl sm_step ServiceMap_default h) = length h \<and>
    edge_total ed_cum_errors (foldl sm_step ServiceMap_default h) = length (filter (\<lambda>rt. mr_status (fst rt) \<ge> 500) h) \<and>
    edge_total ed_cum_latency_ns_sum (foldl sm_step ServiceMap_default h) = (\<Sum>rt\<leftarrow>h. unat (mr_latency_ns (fst rt)))"
  using edges.foldl_bound [of ServiceMap_default h] edge_total_run [of ServiceMap_default h]
  by (simp add: edge_count_def ServiceMap_default_def hm_wf_def)

lemma hm_len_card: "hm_wf m \<Longrightarrow> length m = card {k. hm_get m k \<noteq> None}"
  using distinct_card [of "map fst m"] by (simp add: hm_wf_def hm_get_def map_of_eq_None_iff)

text \<open>What one edge holds when no exchange is diverted.\<close>

definition edges_exact :: "(MapRecord \<times> instant) list \<Rightarrow> ServiceMap \<Rightarrow> bool" where
  "edges_exact h m \<longleftrightarrow> hm_wf (sm_edges m) \<and> sm_overflow_count m = 0 \<and>
    (\<forall>k. (hm_get (sm_edges m) k \<noteq> None \<longleftrightarrow> k \<in> edge_key ` fst ` set h) \<and>
      (\<forall>st. hm_get (sm_edges m) k = Some st \<longrightarrow>
        ed_cum_count st = length (filter (\<lambda>rt. edge_key (fst rt) = k) h)))"

lemma edges_exact_get:
  "edges_exact h m \<Longrightarrow> hm_get (sm_edges m) k = None \<longleftrightarrow> k \<notin> edge_key ` fst ` set h"
  "edges_exact h m \<Longrightarrow> hm_get (sm_edges m) k = Some st \<Longrightarrow>
    k \<in> edge_key ` fst ` set h \<and> ed_cum_count st = length (filter (\<lambda>rt. edge_key (fst rt) = k) h)"
  unfolding edges_exact_def by (metis option.distinct(1))+

lemma edges_exact_undiverted:
  assumes "edges_exact h m" "card (edge_key ` fst ` set (h @ [rt])) \<le> MAX_EDGES"
  shows "recorded_key m (fst rt) = edge_key (fst rt) \<and> sm_overflow_count (sm_step m rt) = 0"
proof -
  have "length (sm_edges m) = card (edge_key ` fst ` set h)"
    using assms(1) hm_len_card [of "sm_edges m"] by (simp add: edges_exact_get(1) edges_exact_def)
  moreover have "edge_key (fst rt) \<notin> edge_key ` fst ` set h \<Longrightarrow> card (edge_key ` fst ` set h) < MAX_EDGES"
    using assms(2) by (simp add: card_insert_if)
  moreover have "sm_overflow_count m = 0"
    using assms(1) by (simp add: edges_exact_def)
  ultimately show ?thesis
    using edges_exact_get(1) [OF assms(1), of "edge_key (fst rt)"]
    by (cases "edge_key (fst rt) \<in> edge_key ` fst ` set h")
      (auto simp: ServiceMap_record_def record_key_def hm_contains_get)
qed

lemma filter_none: "x \<notin> f ` set xs \<Longrightarrow> filter (\<lambda>y. f y = x) xs = []"
  by (auto simp: filter_empty_conv)

lemma edges_exact_step:
  assumes "edges_exact h m" "card (edge_key ` fst ` set (h @ [rt])) \<le> MAX_EDGES"
  shows "edges_exact (h @ [rt]) (sm_step m rt)"
proof -
  let ?k = "edge_key (fst rt)"
  have e: "sm_edges (sm_step m rt) = hm_entry ?k EdgeStats_default (edge_update (fst rt) (snd rt)) (sm_edges m)"
    using edges_exact_undiverted [OF assms] record_edges [of "fst rt" "snd rt" m] by simp
  have "filter (\<lambda>x. edge_key (fst x) = ?k) h = []" if "hm_get (sm_edges m) ?k = None"
    using that filter_none [of ?k "\<lambda>x. edge_key (fst x)" h]
    by (simp add: edges_exact_get(1) [OF assms(1)] image_image)
  then show ?thesis
    using assms(1) edges_exact_undiverted [OF assms] unfolding edges_exact_def e
    by (auto simp: hm_get_entry hm_wf_entry edge_update_counters EdgeStats_default_def split: option.splits)
qed

lemma edges_exact_run:
  "card (edge_key ` fst ` set h) \<le> MAX_EDGES \<Longrightarrow> edges_exact h (foldl sm_step ServiceMap_default h)"
proof (induction h rule: rev_induct)
  case (snoc rt h)
  have "card (edge_key ` fst ` set h) \<le> card (edge_key ` fst ` set (h @ [rt]))"
    by (intro card_mono) auto
  then show ?case
    using snoc edges_exact_step [of h _ rt] by simp
qed (simp add: edges_exact_def ServiceMap_default_def hm_wf_def hm_get_def)

text \<open>C32. An edge below the limit is exact: while at most 4096 distinct edges occur in the history, no exchange
  is diverted to the overflow edge, an edge is present if and only if it occurred, and it counts exactly its
  own exchanges.\<close>

theorem service_map_exact:
  assumes "card (edge_key ` fst ` set h) \<le> MAX_EDGES"
  shows "sm_overflow_count (foldl sm_step ServiceMap_default h) = 0 \<and>
    (case hm_get (sm_edges (foldl sm_step ServiceMap_default h)) k of
       None \<Rightarrow> k \<notin> edge_key ` fst ` set h
     | Some st \<Rightarrow> k \<in> edge_key ` fst ` set h \<and>
         ed_cum_count st = length (filter (\<lambda>rt. edge_key (fst rt) = k) h))"
proof (cases "hm_get (sm_edges (foldl sm_step ServiceMap_default h)) k")
  case None
  then show ?thesis
    using edges_exact_run [OF assms] edges_exact_get(1) [OF edges_exact_run [OF assms], of k]
    by (simp add: edges_exact_def)
next
  case (Some st)
  then show ?thesis
    using edges_exact_run [OF assms] edges_exact_get(2) [OF edges_exact_run [OF assms] Some]
    by (simp add: edges_exact_def)
qed

definition demo_record :: MapRecord where
  "demo_record = \<lparr>mr_src = proc_fallback 7 ''api'', mr_dst = Unknown, mr_endpoint = HttpEndpoint_http ''GET'' ''/'',
    mr_latency_ns = 1000, mr_status = 503\<rparr>"

theorem service_map_exact_witness:
  "\<exists>st. hm_get (sm_edges (foldl sm_step ServiceMap_default [(demo_record, 5), (demo_record, 9)])) (edge_key demo_record)
    = Some st \<and> ed_cum_count st = 2"
  using service_map_exact [of "[(demo_record, 5), (demo_record, 9)]" "edge_key demo_record"]
  by (auto simp: MAX_EDGES_def split: option.splits)

section \<open>Labels\<close>

text \<open>The TCP table and the service map print one destination in the same way.\<close>

lemma take4_nth: "4 \<le> length xs \<Longrightarrow> [xs ! 0, xs ! 1, xs ! 2, xs ! 3] = take 4 xs"
  by (intro nth_equalityI) (auto simp: less_Suc_eq numeral_eq_Suc)

lemma from_v4_addr: "PeerAddr_v4_addr (PeerAddr_from_v4 a p) = Some a" "\<not> PeerAddr_is_v6 (PeerAddr_from_v4 a p)"
proof -
  have "length (m_daddr (with_peer_v4 a p)) = 16"
    by (simp add: with_peer_v4_def)
  then have "[m_daddr (with_peer_v4 a p) ! 0, m_daddr (with_peer_v4 a p) ! 1, m_daddr (with_peer_v4 a p) ! 2,
      m_daddr (with_peer_v4 a p) ! 3] = take 4 (m_daddr (with_peer_v4 a p))"
    by (intro take4_nth) simp
  then show "PeerAddr_v4_addr (PeerAddr_from_v4 a p) = Some a"
    using v4_addr_with_peer_v4 [of a p]
    by (simp only: PeerAddr_v4_addr_def PeerAddr_from_v4_def PeerAddr_from_meta_unchecked_def v4_addr_def PeerAddr.simps)
  show "\<not> PeerAddr_is_v6 (PeerAddr_from_v4 a p)"
    by (simp add: PeerAddr_is_v6_def PeerAddr_from_v4_def PeerAddr_from_meta_unchecked_def with_peer_v4_def
        AF_INET_def AF_INET6_def)
qed

lemma labels_agree:
  "\<exists>dir. EndpointKey_label k = format_ip_port (ek_daddr_be k) (ek_dport_be k) @ '' '' @ dir"
proof -
  have "pa_dport_be (PeerAddr_from_v4 a p) = p" for a p
    by (simp add: PeerAddr_from_v4_def PeerAddr_from_meta_unchecked_def with_peer_v4_def)
  then show ?thesis
    by (simp add: EndpointKey_label_def format_ip_port_def format_peer_def Let_def from_v4_addr)
qed

end
