(* ===== verification/Json.thy ===== *)
theory Json
  imports Strings
begin

text \<open>
  The JSON texts the exporters write. The builders put together the texts of the source's format strings; the
  predicate \<open>json_text\<close> is the JSON grammar, and every builder keeps it.
\<close>

section \<open>Builders\<close>

definition quoted :: "string \<Rightarrow> string" where
  "quoted s = CHR 0x22 # s @ [CHR 0x22]"

definition jarr :: "string list \<Rightarrow> string" where
  "jarr vs = ''['' @ join '','' vs @ '']''"

definition jfield :: "string \<Rightarrow> string \<Rightarrow> string" where
  "jfield k v = quoted k @ '':'' @ v"

definition jobj :: "string list \<Rightarrow> string" where
  "jobj fields = ''{'' @ join '','' fields @ ''}''"

section \<open>The grammar\<close>

definition is_escape :: "char \<Rightarrow> bool" where
  "is_escape c \<longleftrightarrow> c \<in> set [CHR 0x22, CHR 0x5C, CHR ''/'', CHR ''b'', CHR ''f'', CHR ''n'', CHR ''r'', CHR ''t'']"

fun json_chars :: "string \<Rightarrow> bool" where
  "json_chars [] = True"
| "json_chars (c # s) =
    (if c = CHR 0x5C then
       (case s of
          e # r \<Rightarrow> if e = CHR ''u'' then 4 \<le> length r \<and> list_all is_ascii_hexdigit (take 4 r) \<and> json_chars (drop 4 r)
                  else is_escape e \<and> json_chars r
        | [] \<Rightarrow> False)
     else c \<noteq> CHR 0x22 \<and> (32 :: nat) \<le> of_char c \<and> json_chars s)"

definition json_string :: "string \<Rightarrow> bool" where
  "json_string s \<longleftrightarrow> (\<exists>b. s = quoted b \<and> json_chars b)"

definition json_digits :: "string \<Rightarrow> bool" where
  "json_digits s \<longleftrightarrow> s \<noteq> [] \<and> list_all is_ascii_digit s"

text \<open>A non-negative number without exponent: digits, and possibly a fraction.\<close>

definition json_int :: "string \<Rightarrow> bool" where
  "json_int s \<longleftrightarrow> json_digits s \<and> (hd s = CHR ''0'' \<longrightarrow> length s = 1)"

definition json_number :: "string \<Rightarrow> bool" where
  "json_number s \<longleftrightarrow> json_int s \<or> (\<exists>a b. s = a @ ''.'' @ b \<and> json_int a \<and> json_digits b)"

inductive json_text :: "string \<Rightarrow> bool" where
  json_string: "json_string s \<Longrightarrow> json_text s"
| json_number: "json_number s \<Longrightarrow> json_text s"
| json_literal: "s \<in> {''true'', ''false'', ''null''} \<Longrightarrow> json_text s"
| json_array: "list_all json_text vs \<Longrightarrow> json_text (''['' @ join '','' vs @ '']'')"
| json_object: "list_all (\<lambda>kv. json_string (fst kv) \<and> json_text (snd kv)) kvs \<Longrightarrow>
    json_text (''{'' @ join '','' (map (\<lambda>kv. fst kv @ '':'' @ snd kv) kvs) @ ''}'')"
monos list.pred_mono

definition json_field :: "string \<Rightarrow> bool" where
  "json_field f \<longleftrightarrow> (\<exists>k v. f = k @ '':'' @ v \<and> json_string k \<and> json_text v)"

named_theorems json_intros

lemma json_quoted [json_intros]: "json_chars s \<Longrightarrow> json_text (quoted s)"
  by (intro json_text.json_string) (auto simp: json_string_def)

lemma json_jarr [json_intros]: "(\<And>v. v \<in> set vs \<Longrightarrow> json_text v) \<Longrightarrow> json_text (jarr vs)"
  unfolding jarr_def by (intro json_text.json_array) (simp add: list_all_iff)

lemma json_jfield [json_intros]: "json_chars k \<Longrightarrow> json_text v \<Longrightarrow> json_field (jfield k v)"
  by (auto simp: json_field_def jfield_def json_string_def)

lemma json_jobj [json_intros]: "(\<And>f. f \<in> set fs \<Longrightarrow> json_field f) \<Longrightarrow> json_text (jobj fs)"
proof -
  assume fs: "\<And>f. f \<in> set fs \<Longrightarrow> json_field f"
  then have "\<exists>kvs. fs = map (\<lambda>kv. fst kv @ '':'' @ snd kv) kvs \<and> list_all (\<lambda>kv. json_string (fst kv) \<and> json_text (snd kv)) kvs"
  proof (induction fs)
    case (Cons f fs)
    obtain kvs where "fs = map (\<lambda>kv. fst kv @ '':'' @ snd kv) kvs"
      "list_all (\<lambda>kv. json_string (fst kv) \<and> json_text (snd kv)) kvs"
      using Cons by auto
    moreover obtain k v where "f = k @ '':'' @ v" "json_string k" "json_text v"
      using Cons.prems [of f] by (auto simp: json_field_def)
    ultimately show ?case
      by (intro exI [of _ "(k, v) # kvs"]) simp
  qed simp
  then obtain kvs where "fs = map (\<lambda>kv. fst kv @ '':'' @ snd kv) kvs"
    "list_all (\<lambda>kv. json_string (fst kv) \<and> json_text (snd kv)) kvs"
    by blast
  then show ?thesis
    unfolding jobj_def by (simp only: json_text.json_object)
qed

text \<open>Plain text needs no escapes.\<close>

definition plain :: "string \<Rightarrow> bool" where
  "plain s \<longleftrightarrow> list_all (\<lambda>c. c \<noteq> CHR 0x5C \<and> c \<noteq> CHR 0x22 \<and> (32 :: nat) \<le> of_char c) s"

lemma plain_chars [json_intros]: "plain s \<Longrightarrow> json_chars s"
  by (induction s) (auto simp: plain_def)

lemma digits_plain: "list_all is_ascii_digit s \<Longrightarrow> plain s"
  by (auto simp: list_all_iff plain_def is_ascii_digit_def)

lemma show_nat_plain [json_intros]: "plain (show_nat n)"
  using show_nat_digits [of n] by (intro digits_plain)

lemma show_nat_hd: "n > 0 \<Longrightarrow> hd (show_nat n) \<noteq> CHR ''0''"
proof (induction n rule: show_nat.induct)
  case (1 n)
  show ?case
  proof (cases "n < 10")
    case True
    then have "of_char (char_of (48 + n) :: char) \<noteq> (of_char CHR ''0'' :: nat)"
      using 1(2) by simp
    then have "(char_of (48 + n) :: char) \<noteq> CHR ''0''"
      by metis
    then show ?thesis
      using True by (subst show_nat.simps) simp
  next
    case False
    then show ?thesis
      using 1 by (subst show_nat.simps) simp
  qed
qed

lemma show_nat_zero: "show_nat 0 = ''0''"
  by code_simp

lemma show_nat_int: "json_int (show_nat n)"
  using show_nat_digits [of n] show_nat_hd [of n]
  by (cases "n = 0") (simp_all add: json_int_def json_digits_def show_nat_zero)

lemma show_nat_number [json_intros]: "json_text (show_nat n)"
  using show_nat_int [of n] by (intro json_text.json_number) (simp add: json_number_def)

lemma json_true [json_intros]: "json_text ''true''"
  by (rule json_text.json_literal) simp

end
