(* ===== verification/Metrics.thy ===== *)
theory Metrics
  imports Complex_Main Json
begin

text \<open>
  The cumulative metrics registry (\<open>src/agent/src/metrics_registry.rs\<close>): bounded HTTP series with explicit
  latency buckets, the wire series, the handshake series, and the OTLP text. The JSON string encoder
  (\<open>serde_json\<close>), the printing of a floating point number and the clock are parameters.
\<close>

section \<open>Model\<close>

definition LATENCY_BOUNDS_MS :: "rat list" where
  "LATENCY_BOUNDS_MS = [1, 2, 5, 10, 25, 50, 100, 250, 500, 1000, 2500, 5000, 10000]"

definition MAX_SERIES :: nat where "MAX_SERIES = 2048"

record SeriesKey =
  sk_src :: string
  sk_dst :: string
  sk_method :: string
  sk_route :: string
  sk_status_class :: string
  sk_protocol :: string

definition SeriesKey_other :: SeriesKey where
  "SeriesKey_other = \<lparr>sk_src = ''_other'', sk_dst = ''_other'', sk_method = ''_'', sk_route = ''_'',
    sk_status_class = ''other'', sk_protocol = ''_''\<rparr>"

record HttpObs =
  ob_src :: string
  ob_dst :: string
  ob_method :: string
  ob_route :: string
  ob_latency_ns :: u64
  ob_status :: u16
  ob_protocol :: string
  ob_wire_ns :: "u64 option"

record SeriesStats =
  ss_count :: nat
  ss_sum_ms :: rat
  ss_buckets :: "nat list"
  ss_errors :: nat

definition SeriesStats_new :: SeriesStats where
  "SeriesStats_new = \<lparr>ss_count = 0, ss_sum_ms = 0, ss_buckets = replicate (length LATENCY_BOUNDS_MS + 1) 0, ss_errors = 0\<rparr>"

text \<open>The first bound that is not exceeded, or the last slot.\<close>

fun place :: "rat \<Rightarrow> rat list \<Rightarrow> nat" where
  "place ms [] = 0"
| "place ms (bound # bounds) = (if ms \<le> bound then 0 else Suc (place ms bounds))"

definition SeriesStats_record :: "u64 \<Rightarrow> u16 \<Rightarrow> SeriesStats \<Rightarrow> SeriesStats" where
  "SeriesStats_record latency_ns status s =
    (let ms = of_nat (unat latency_ns) / 1000000;
         i = place ms LATENCY_BOUNDS_MS;
         i = (if i < length LATENCY_BOUNDS_MS then i else length (ss_buckets s) - 1)
     in s\<lparr>ss_count := ss_count s + 1, ss_sum_ms := ss_sum_ms s + ms,
          ss_errors := (if status \<ge> 500 then ss_errors s + 1 else ss_errors s),
          ss_buckets := (ss_buckets s)[i := ss_buckets s ! i + 1]\<rparr>)"

record MetricsRegistry =
  mg_series :: "(SeriesKey, SeriesStats) hashmap"
  mg_overflow_count :: nat
  mg_start_unix_nano :: nat
  mg_events_dropped :: nat
  mg_otlp_dropped :: nat
  mg_otlp_flushes_ok :: nat
  mg_edge_count :: nat
  mg_tls_unmapped :: nat
  mg_traces_sampled :: nat
  mg_traces_not_sampled :: nat
  mg_traces_dropped :: nat
  mg_traces_export_failed :: nat
  mg_sample_n :: u32
  mg_wire :: "(SeriesKey, SeriesStats) hashmap"
  mg_handshake :: SeriesStats

definition MetricsRegistry_new :: "nat \<Rightarrow> MetricsRegistry" where
  "MetricsRegistry_new now_unix_nano =
    \<lparr>mg_series = [], mg_overflow_count = 0, mg_start_unix_nano = now_unix_nano, mg_events_dropped = 0,
     mg_otlp_dropped = 0, mg_otlp_flushes_ok = 0, mg_edge_count = 0, mg_tls_unmapped = 0, mg_traces_sampled = 0,
     mg_traces_not_sampled = 0, mg_traces_dropped = 0, mg_traces_export_failed = 0, mg_sample_n = 1, mg_wire = [],
     mg_handshake = SeriesStats_new\<rparr>"

definition status_class :: "u16 \<Rightarrow> string" where
  "status_class status =
    (if 200 \<le> status \<and> status \<le> 299 then ''2xx''
     else if 300 \<le> status \<and> status \<le> 399 then ''3xx''
     else if 400 \<le> status \<and> status \<le> 499 then ''4xx''
     else if 500 \<le> status \<and> status \<le> 599 then ''5xx''
     else ''other'')"

definition series_key :: "HttpObs \<Rightarrow> SeriesKey" where
  "series_key obs = \<lparr>sk_src = ob_src obs, sk_dst = ob_dst obs, sk_method = ob_method obs, sk_route = ob_route obs,
    sk_status_class = status_class (ob_status obs), sk_protocol = ob_protocol obs\<rparr>"

definition MetricsRegistry_record :: "HttpObs \<Rightarrow> MetricsRegistry \<Rightarrow> MetricsRegistry" where
  "MetricsRegistry_record obs r =
    (let full = \<not> hm_contains (mg_series r) (series_key obs) \<and> length (mg_series r) \<ge> MAX_SERIES;
         r = (if full then r\<lparr>mg_overflow_count := mg_overflow_count r + 1\<rparr> else r);
         key = (if full then SeriesKey_other else series_key obs);
         r = r\<lparr>mg_series := hm_entry key SeriesStats_new (SeriesStats_record (ob_latency_ns obs) (ob_status obs)) (mg_series r)\<rparr>
     in case ob_wire_ns obs of
          Some w \<Rightarrow> r\<lparr>mg_wire := hm_entry key SeriesStats_new (SeriesStats_record w (ob_status obs)) (mg_wire r)\<rparr>
        | None \<Rightarrow> r)"

definition registry_record_handshake :: "u64 \<Rightarrow> MetricsRegistry \<Rightarrow> MetricsRegistry" where
  "registry_record_handshake latency_ns r = r\<lparr>mg_handshake := SeriesStats_record latency_ns 200 (mg_handshake r)\<rparr>"

definition series_len :: "MetricsRegistry \<Rightarrow> nat" where
  "series_len r = length (mg_series r)"

definition total_requests :: "MetricsRegistry \<Rightarrow> nat" where
  "total_requests r = (\<Sum>kv\<leftarrow>mg_series r. ss_count (snd kv))"

definition has_otlp_payload :: "MetricsRegistry \<Rightarrow> bool" where
  "has_otlp_payload r \<longleftrightarrow> total_requests r > 0 \<or> mg_events_dropped r > 0 \<or> mg_tls_unmapped r > 0 \<or>
    mg_traces_sampled r > 0 \<or> mg_traces_not_sampled r > 0 \<or> mg_traces_dropped r > 0 \<or>
    mg_traces_export_failed r > 0 \<or> ss_count (mg_handshake r) > 0 \<or> mg_wire r \<noteq> []"

section \<open>The OTLP text\<close>

definition kv :: "(string \<Rightarrow> string) \<Rightarrow> string \<Rightarrow> string \<Rightarrow> string" where
  "kv json_str key val =
    jobj [jfield ''key'' (json_str key), jfield ''value'' (jobj [jfield ''stringValue'' (json_str val)])]"

definition otlp_attrs :: "(string \<Rightarrow> string) \<Rightarrow> SeriesKey \<Rightarrow> string" where
  "otlp_attrs json_str k = jarr [kv json_str ''src'' (sk_src k), kv json_str ''dst'' (sk_dst k),
    kv json_str ''http.method'' (sk_method k), kv json_str ''http.route'' (sk_route k),
    kv json_str ''http.status_class'' (sk_status_class k), kv json_str ''http.protocol'' (sk_protocol k)]"

definition hist_fields :: "(rat \<Rightarrow> string) \<Rightarrow> nat \<Rightarrow> nat \<Rightarrow> SeriesStats \<Rightarrow> string list" where
  "hist_fields show_f64 start ts s =
    [jfield ''startTimeUnixNano'' (quoted (show_nat start)), jfield ''timeUnixNano'' (quoted (show_nat ts)),
     jfield ''count'' (quoted (show_nat (ss_count s))), jfield ''sum'' (show_f64 (ss_sum_ms s)),
     jfield ''bucketCounts'' (jarr (map (\<lambda>c. quoted (show_nat c)) (ss_buckets s))),
     jfield ''explicitBounds'' (jarr (map show_f64 LATENCY_BOUNDS_MS))]"

definition hist_data_point :: "(rat \<Rightarrow> string) \<Rightarrow> nat \<Rightarrow> nat \<Rightarrow> SeriesStats \<Rightarrow> string \<Rightarrow> string" where
  "hist_data_point show_f64 start ts s attrs = jobj (hist_fields show_f64 start ts s @ [jfield ''attributes'' attrs])"

definition unlabeled_hist :: "(rat \<Rightarrow> string) \<Rightarrow> string \<Rightarrow> string \<Rightarrow> nat \<Rightarrow> nat \<Rightarrow> SeriesStats \<Rightarrow> string" where
  "unlabeled_hist show_f64 name desc start ts s =
    jobj [jfield ''name'' (quoted name), jfield ''unit'' (quoted ''ms''), jfield ''description'' (quoted desc),
      jfield ''histogram'' (jobj [jfield ''aggregationTemporality'' ''2'',
        jfield ''dataPoints'' (jarr [jobj (hist_fields show_f64 start ts s)])])]"

definition int_point :: "nat \<Rightarrow> nat \<Rightarrow> nat \<Rightarrow> string list" where
  "int_point start ts n = [jfield ''startTimeUnixNano'' (quoted (show_nat start)),
    jfield ''timeUnixNano'' (quoted (show_nat ts)), jfield ''asInt'' (quoted (show_nat n))]"

definition sum_metric :: "string \<Rightarrow> string list \<Rightarrow> string" where
  "sum_metric name points =
    jobj [jfield ''name'' (quoted name), jfield ''unit'' (quoted ''1''),
      jfield ''sum'' (jobj [jfield ''aggregationTemporality'' ''2'', jfield ''isMonotonic'' ''true'',
        jfield ''dataPoints'' (jarr points)])]"

definition hist_metric :: "string \<Rightarrow> string \<Rightarrow> string list \<Rightarrow> string" where
  "hist_metric name desc points =
    jobj [jfield ''name'' (quoted name), jfield ''unit'' (quoted ''ms''), jfield ''description'' (quoted desc),
      jfield ''histogram'' (jobj [jfield ''aggregationTemporality'' ''2'', jfield ''dataPoints'' (jarr points)])]"

definition gauge_metric :: "string \<Rightarrow> nat \<Rightarrow> nat \<Rightarrow> string" where
  "gauge_metric name ts n =
    jobj [jfield ''name'' (quoted name), jfield ''unit'' (quoted ''1''),
      jfield ''gauge'' (jobj [jfield ''dataPoints''
        (jarr [jobj [jfield ''timeUnixNano'' (quoted (show_nat ts)), jfield ''asInt'' (quoted (show_nat n))]])])]"

definition otlp_metrics :: "(string \<Rightarrow> string) \<Rightarrow> (rat \<Rightarrow> string) \<Rightarrow> nat \<Rightarrow> MetricsRegistry \<Rightarrow> string list" where
  "otlp_metrics json_str show_f64 ts r =
    (let start = mg_start_unix_nano r;
         hist_points = map (\<lambda>(k, s). hist_data_point show_f64 start ts s (otlp_attrs json_str k)) (mg_series r);
         req_points = map (\<lambda>(k, s). jobj (int_point start ts (ss_count s) @
           [jfield ''attributes'' (otlp_attrs json_str k)])) (mg_series r);
         err_points = map (\<lambda>(k, s). jobj (int_point start ts (ss_errors s) @
           [jfield ''attributes'' (otlp_attrs json_str k)])) (filter (\<lambda>(k, s). ss_errors s > 0) (mg_series r));
         wire_points = map (\<lambda>(k, s). hist_data_point show_f64 start ts s (otlp_attrs json_str k)) (mg_wire r)
     in (if hist_points \<noteq> [] then [hist_metric ''http.client.duration'' ''Outbound HTTP client latency'' hist_points] else []) @
        (if req_points \<noteq> [] then [sum_metric ''http.client.requests'' req_points] else []) @
        (if err_points \<noteq> [] then [sum_metric ''http.client.errors'' err_points] else []) @
        (if mg_wire r \<noteq> [] then [hist_metric ''http.client.wire.duration'' ''TLS HTTP/1.1 wire latency (syscall pair)'' wire_points] else []) @
        (if ss_count (mg_handshake r) > 0
         then [unlabeled_hist show_f64 ''tls.handshake.duration'' ''SSL_do_handshake duration'' start ts (mg_handshake r)] else []) @
        [sum_metric ''obsagent.events_dropped'' [jobj (int_point start ts (mg_events_dropped r))],
         sum_metric ''obsagent.tls_unmapped'' [jobj (int_point start ts (mg_tls_unmapped r))],
         sum_metric ''obsagent.otlp_dropped'' [jobj (int_point start ts (mg_otlp_dropped r))],
         sum_metric ''obsagent.traces.sampled'' [jobj (int_point start ts (mg_traces_sampled r))],
         sum_metric ''obsagent.traces.not_sampled'' [jobj (int_point start ts (mg_traces_not_sampled r))],
         sum_metric ''obsagent.traces.dropped'' [jobj (int_point start ts (mg_traces_dropped r))],
         sum_metric ''obsagent.traces.export_failed'' [jobj (int_point start ts (mg_traces_export_failed r))],
         gauge_metric ''obsagent.service_map.edges'' ts (mg_edge_count r),
         gauge_metric ''obsagent.sample_n'' ts (unat (mg_sample_n r))])"

definition to_otlp_json :: "(string \<Rightarrow> string) \<Rightarrow> (rat \<Rightarrow> string) \<Rightarrow> nat \<Rightarrow> MetricsRegistry \<Rightarrow> string" where
  "to_otlp_json json_str show_f64 ts r =
    jobj [jfield ''resourceMetrics'' (jarr [jobj [
      jfield ''resource'' (jobj [jfield ''attributes'' (jarr [jobj [jfield ''key'' (quoted ''service.name''),
        jfield ''value'' (jobj [jfield ''stringValue'' (quoted ''obsagent'')])]])]),
      jfield ''scopeMetrics'' (jarr [jobj [
        jfield ''scope'' (jobj [jfield ''name'' (quoted ''obsagent''), jfield ''version'' (quoted ''0.1.0'')]),
        jfield ''metrics'' (jarr (otlp_metrics json_str show_f64 ts r))]])]])]"

section \<open>Histograms\<close>

lemma length_bounds: "length LATENCY_BOUNDS_MS = 13"
  by (simp add: LATENCY_BOUNDS_MS_def)

lemma place_le: "place ms bs \<le> length bs"
  by (induction bs) auto

abbreviation to_ms :: "u64 \<Rightarrow> rat" where
  "to_ms ns \<equiv> of_nat (unat ns) / 1000000"

abbreviation bucket_of :: "u64 \<Rightarrow> nat" where
  "bucket_of ns \<equiv> place (to_ms ns) LATENCY_BOUNDS_MS"

lemma record_bucket: "length (ss_buckets s) = 14 \<Longrightarrow>
    ss_buckets (SeriesStats_record ns st s) = (ss_buckets s)[bucket_of ns := ss_buckets s ! bucket_of ns + 1]"
  using place_le [of "to_ms ns" LATENCY_BOUNDS_MS]
  by (auto simp: SeriesStats_record_def Let_def length_bounds le_less)

text \<open>The statistics of a list of latencies and statuses.\<close>

definition stats_of :: "(u64 \<times> u16) list \<Rightarrow> SeriesStats" where
  "stats_of xs = foldl (\<lambda>s x. SeriesStats_record (fst x) (snd x) s) SeriesStats_new xs"

lemma stats_of_snoc: "stats_of (xs @ [(ns, st)]) = SeriesStats_record ns st (stats_of xs)"
  by (simp add: stats_of_def)

lemma stats_of_buckets:
  "length (ss_buckets (stats_of xs)) = 14 \<and>
    (\<forall>i < 14. ss_buckets (stats_of xs) ! i = length (filter (\<lambda>x. bucket_of (fst x) = i) xs))"
proof (induction xs rule: rev_induct)
  case (snoc x xs)
  moreover have "bucket_of (fst x) < 14"
    using place_le [of "to_ms (fst x)" LATENCY_BOUNDS_MS] by (simp add: length_bounds)
  ultimately show ?case
    using stats_of_snoc [of xs "fst x" "snd x"] record_bucket [of "stats_of xs" "fst x" "snd x"]
    by (auto simp: nth_list_update)
qed (simp add: stats_of_def SeriesStats_new_def length_bounds)

lemma stats_of_totals:
  "ss_count (stats_of xs) = length xs" "ss_sum_ms (stats_of xs) = (\<Sum>x\<leftarrow>xs. to_ms (fst x))"
  "ss_errors (stats_of xs) = length (filter (\<lambda>x. snd x \<ge> 500) xs)"
  by (induction xs rule: rev_induct)
    (simp_all add: stats_of_def SeriesStats_new_def SeriesStats_record_def Let_def)

lemma sum_list_update_Suc: "i < length xs \<Longrightarrow> sum_list (xs[i := xs ! i + 1]) = sum_list xs + (1 :: nat)"
  by (induction xs arbitrary: i) (auto split: nat.split)

lemma stats_of_sum: "sum_list (ss_buckets (stats_of xs)) = length xs"
proof (induction xs rule: rev_induct)
  case (snoc x xs)
  have "length (ss_buckets (stats_of xs)) = 14"
    using stats_of_buckets [of xs] by blast
  moreover have "bucket_of (fst x) < 14"
    using place_le [of "to_ms (fst x)" LATENCY_BOUNDS_MS] by (simp add: length_bounds)
  ultimately show ?case
    using snoc stats_of_snoc [of xs "fst x" "snd x"] record_bucket [of "stats_of xs" "fst x" "snd x"]
      sum_list_update_Suc [of "bucket_of (fst x)" "ss_buckets (stats_of xs)"]
    by simp
qed (simp add: stats_of_def SeriesStats_new_def)

lemma place_bounds:
  "sorted_wrt (<) bs \<Longrightarrow> i < length bs \<Longrightarrow>
    place ms bs = i \<longleftrightarrow> ms \<le> bs ! i \<and> (\<forall>j < i. bs ! j < ms)"
proof (induction bs arbitrary: i)
  case (Cons b bs)
  then show ?case
    by (cases i) (auto simp: less_Suc_eq_0_disj not_le nth_Cons' intro: less_le_trans)
qed simp

section \<open>The registry\<close>

abbreviation diverted :: "MetricsRegistry \<Rightarrow> HttpObs \<Rightarrow> SeriesKey" where
  "diverted r obs \<equiv> if hm_get (mg_series r) (series_key obs) = None \<and> MAX_SERIES \<le> length (mg_series r)
    then SeriesKey_other else series_key obs"

lemma registry_series:
  "mg_series (MetricsRegistry_record obs r) =
    hm_entry (diverted r obs) SeriesStats_new (SeriesStats_record (ob_latency_ns obs) (ob_status obs)) (mg_series r)"
  by (simp add: MetricsRegistry_record_def Let_def hm_contains_get split: option.split)

lemma registry_wire:
  "mg_wire (MetricsRegistry_record obs r) =
    (case ob_wire_ns obs of None \<Rightarrow> mg_wire r
     | Some w \<Rightarrow> hm_entry (diverted r obs) SeriesStats_new (SeriesStats_record w (ob_status obs)) (mg_wire r))"
  by (simp add: MetricsRegistry_record_def Let_def hm_contains_get split: option.split)

interpretation series: capped_registry mg_series series_key SeriesKey_other MAX_SERIES "\<lambda>r obs. MetricsRegistry_record obs r"
  by unfold_locales (auto simp: registry_series hm_get_entry hm_wf_entry hm_len_entry Let_def)

abbreviation registry_run :: "MetricsRegistry \<Rightarrow> HttpObs list \<Rightarrow> MetricsRegistry" where
  "registry_run \<equiv> foldl (\<lambda>r obs. MetricsRegistry_record obs r)"

lemma record_count: "ss_count (SeriesStats_record ns st s) = ss_count s + 1"
  by (simp add: SeriesStats_record_def Let_def)

text \<open>The server errors over all series.\<close>

definition total_errors :: "MetricsRegistry \<Rightarrow> nat" where
  "total_errors r = (\<Sum>kv\<leftarrow>mg_series r. ss_errors (snd kv))"

lemma errors_record: "total_errors (MetricsRegistry_record obs r) = total_errors r + (if ob_status obs \<ge> 500 then 1 else 0)"
  unfolding total_errors_def registry_series
  by (rule hm_entry_sum) (simp_all add: SeriesStats_record_def SeriesStats_new_def Let_def)

lemma total_run: "total_requests (registry_run r obs) = total_requests r + length obs"
proof (induction obs arbitrary: r)
  case (Cons ob obs)
  have "total_requests (MetricsRegistry_record ob r) = total_requests r + 1"
    unfolding total_requests_def registry_series
    by (rule hm_entry_sum) (simp_all add: record_count SeriesStats_new_def)
  then show ?case
    using Cons [of "MetricsRegistry_record ob r"] by simp
qed (simp add: total_requests_def)

lemma hm_entry_all:
  "hm_wf m \<Longrightarrow> (\<And>k v. hm_get m k = Some v \<Longrightarrow> P v) \<Longrightarrow> P (f d) \<Longrightarrow> (\<And>v. P v \<Longrightarrow> P (f v)) \<Longrightarrow>
    hm_get (hm_entry k' d f m) k = Some v \<Longrightarrow> P v"
  by (auto simp: hm_get_entry split: if_splits option.splits)

definition stats_wf :: "SeriesStats \<Rightarrow> bool" where
  "stats_wf s \<longleftrightarrow> (\<exists>xs. s = stats_of xs)"

lemma stats_wf_new: "stats_wf SeriesStats_new"
  unfolding stats_wf_def by (rule exI [of _ "[]"]) (simp add: stats_of_def)

lemma stats_wf_record: "stats_wf s \<Longrightarrow> stats_wf (SeriesStats_record ns st s)"
  unfolding stats_wf_def by (metis stats_of_snoc)

definition metrics_inv :: "MetricsRegistry \<Rightarrow> bool" where
  "metrics_inv r \<longleftrightarrow> hm_wf (mg_series r) \<and> hm_wf (mg_wire r) \<and> stats_wf (mg_handshake r) \<and>
    (\<forall>k s. hm_get (mg_series r) k = Some s \<longrightarrow> stats_wf s) \<and>
    (\<forall>k s. hm_get (mg_wire r) k = Some s \<longrightarrow> stats_wf s \<and> hm_get (mg_series r) k \<noteq> None)"

datatype metrics_op = Observe HttpObs | MHandshake u64

fun metrics_step :: "MetricsRegistry \<Rightarrow> metrics_op \<Rightarrow> MetricsRegistry" where
  "metrics_step r (Observe obs) = MetricsRegistry_record obs r"
| "metrics_step r (MHandshake ns) = registry_record_handshake ns r"

abbreviation metrics_run :: "nat \<Rightarrow> metrics_op list \<Rightarrow> MetricsRegistry" where
  "metrics_run t \<equiv> foldl metrics_step (MetricsRegistry_new t)"

lemma record_handshake_field: "mg_handshake (MetricsRegistry_record obs r) = mg_handshake r"
  by (simp add: MetricsRegistry_record_def Let_def split: option.split)

lemma metrics_inv_record:
  assumes "metrics_inv r"
  shows "metrics_inv (MetricsRegistry_record obs r)"
proof -
  have wf: "hm_wf (mg_series r)" "hm_wf (mg_wire r)"
    and ok: "hm_get (mg_series r) k = Some s \<Longrightarrow> stats_wf s"
      "hm_get (mg_wire r) k = Some s \<Longrightarrow> stats_wf s \<and> hm_get (mg_series r) k \<noteq> None" for k s
    using assms by (auto simp: metrics_inv_def)
  have entry: "stats_wf s" if "hm_get (hm_entry k' SeriesStats_new (SeriesStats_record ns st) m) k = Some s" "hm_wf m"
    "\<And>k s. hm_get m k = Some s \<Longrightarrow> stats_wf s" for k k' s ns st m
    using that stats_wf_new stats_wf_record
    by (auto simp: hm_get_entry split: if_splits option.splits)
  have series: "stats_wf s" if "hm_get (mg_series (MetricsRegistry_record obs r)) k = Some s" for k s
    using that entry [OF _ wf(1)] ok(1) unfolding registry_series by blast
  have wire: "stats_wf s \<and> hm_get (mg_series (MetricsRegistry_record obs r)) k \<noteq> None"
    if "hm_get (mg_wire (MetricsRegistry_record obs r)) k = Some s" for k s
  proof (cases "ob_wire_ns obs")
    case None
    then show ?thesis
      using that ok(2) [of k s] by (auto simp: registry_wire registry_series hm_get_entry)
  next
    case (Some w)
    then have "stats_wf s"
      using that entry [OF _ wf(2)] ok(2) unfolding registry_wire Some option.case by blast
    then show ?thesis
      using that Some ok(2) [of k s] by (auto simp: registry_wire registry_series hm_get_entry split: if_splits)
  qed
  show ?thesis
    using wf series wire assms
    by (simp add: metrics_inv_def record_handshake_field registry_series registry_wire hm_wf_entry split: option.split)
qed

lemma metrics_inv_run: "metrics_inv (metrics_run t ops)"
proof (induction ops rule: rev_induct)
  case (snoc op1 ops)
  then show ?case
    by (cases op1)
      (simp_all only: foldl_append foldl_Cons foldl_Nil metrics_step.simps metrics_inv_record,
       simp add: metrics_inv_def registry_record_handshake_def stats_wf_record)
qed (simp add: metrics_inv_def MetricsRegistry_new_def hm_wf_def hm_get_def stats_wf_new)

text \<open>The operations on the series alone.\<close>

fun observed :: "metrics_op list \<Rightarrow> HttpObs list" where
  "observed [] = []"
| "observed (Observe obs # ops) = obs # observed ops"
| "observed (MHandshake _ # ops) = observed ops"

lemma total_record: "total_requests (MetricsRegistry_record obs r) = total_requests r + 1"
  using total_run [of r "[obs]"] by simp

lemma series_run:
  "total_requests (foldl metrics_step r ops) = total_requests r + length (observed ops) \<and>
    (series.capped r \<longrightarrow> series.capped (foldl metrics_step r ops))"
proof (induction ops arbitrary: r rule: observed.induct)
  case (2 obs ops)
  show ?case
    using 2 [of "MetricsRegistry_record obs r"] series.capped_step [of r obs] by (simp add: total_record)
next
  case (3 ns ops)
  have "total_requests (registry_record_handshake ns r) = total_requests r"
    "series.capped (registry_record_handshake ns r) = series.capped r"
    by (simp_all add: total_requests_def series.capped_def registry_record_handshake_def)
  then show ?case
    using 3 [of "registry_record_handshake ns r"] by simp
qed simp

definition histogram_ok :: "SeriesStats \<Rightarrow> bool" where
  "histogram_ok s \<longleftrightarrow> length (ss_buckets s) = length LATENCY_BOUNDS_MS + 1 \<and> sum_list (ss_buckets s) = ss_count s \<and>
    ss_errors s \<le> ss_count s \<and> 0 \<le> ss_sum_ms s"

lemma histogram_ok_wf: "stats_wf s \<Longrightarrow> histogram_ok s"
proof -
  have "0 \<le> (\<Sum>x\<leftarrow>xs. to_ms (fst x))" for xs :: "(u64 \<times> u16) list"
    by (induction xs) (simp_all only: list.map sum_list.Nil sum_list.Cons order_refl add_nonneg_nonneg
        divide_nonneg_nonneg of_nat_0_le_iff zero_le_numeral)
  then show "stats_wf s \<Longrightarrow> histogram_ok s"
    using stats_of_buckets stats_of_sum
    unfolding stats_wf_def histogram_ok_def length_bounds by (auto simp only: stats_of_totals) simp_all
qed

lemma hm_all: "hm_wf m \<Longrightarrow> (\<And>k v. hm_get m k = Some v \<Longrightarrow> P v) \<Longrightarrow> list_all (\<lambda>kv. P (snd kv)) m"
  unfolding list_all_iff by (metis hm_in_set_get prod.collapse)

lemma metrics_inv_ok:
  assumes "metrics_inv r"
  shows "list_all (\<lambda>kv. histogram_ok (snd kv)) (mg_series r @ mg_wire r) \<and> fst ` set (mg_wire r) \<subseteq> fst ` set (mg_series r)"
proof -
  have wf: "hm_wf (mg_series r)" "hm_wf (mg_wire r)"
    using assms by (simp_all add: metrics_inv_def)
  have "list_all (\<lambda>kv. histogram_ok (snd kv)) (mg_series r)" "list_all (\<lambda>kv. histogram_ok (snd kv)) (mg_wire r)"
    using assms by (auto intro!: hm_all wf histogram_ok_wf simp: metrics_inv_def)
  moreover have "fst ` set (mg_wire r) \<subseteq> fst ` set (mg_series r)"
    using assms unfolding metrics_inv_def hm_get_def by (force simp: map_of_eq_None_iff dest: weak_map_of_SomeI)
  ultimately show ?thesis
    by simp
qed

text \<open>C28. The registry never loses or invents a request and never grows past its limit: after any sequence of
  observations and handshakes there are at most 2049 series, their counts add up to the observations, every
  histogram has its 14 buckets adding up to its count, and only known series have wire times.\<close>

theorem metrics_registry_exact:
  "series_len (metrics_run t ops) \<le> MAX_SERIES + 1 \<and> total_requests (metrics_run t ops) = length (observed ops) \<and>
    list_all (\<lambda>kv. histogram_ok (snd kv)) (mg_series (metrics_run t ops) @ mg_wire (metrics_run t ops)) \<and>
    histogram_ok (mg_handshake (metrics_run t ops)) \<and>
    fst ` set (mg_wire (metrics_run t ops)) \<subseteq> fst ` set (mg_series (metrics_run t ops))"
proof -
  let ?r = "metrics_run t ops"
  have "series.capped (MetricsRegistry_new t)" "total_requests (MetricsRegistry_new t) = 0"
    by (simp_all add: series.capped_def MetricsRegistry_new_def hm_wf_def total_requests_def)
  then have "series.capped ?r" "total_requests ?r = length (observed ops)"
    using series_run [of "MetricsRegistry_new t" ops] by simp_all
  then show ?thesis
    using metrics_inv_ok [OF metrics_inv_run] series.capped_bound [of ?r] metrics_inv_run [of t ops]
    by (simp add: series_len_def metrics_inv_def histogram_ok_wf)
qed

text \<open>The buckets mean what their bounds say: in the statistics of any list of requests, bucket \<open>i\<close> counts
  the latencies above the previous bound and up to bound \<open>i\<close>, and the last bucket those above all bounds.\<close>

theorem histogram_buckets:
  assumes "i < 13"
  shows "ss_buckets (stats_of xs) ! i = length (filter (\<lambda>x. to_ms (fst x) \<le> LATENCY_BOUNDS_MS ! i \<and>
      (\<forall>j < i. LATENCY_BOUNDS_MS ! j < to_ms (fst x))) xs) \<and>
    ss_buckets (stats_of xs) ! 13 = length (filter (\<lambda>x. 10000 < to_ms (fst x)) xs)"
proof -
  have "sorted_wrt (<) LATENCY_BOUNDS_MS"
    by (simp add: LATENCY_BOUNDS_MS_def)
  then have "place ms LATENCY_BOUNDS_MS = i \<longleftrightarrow> ms \<le> LATENCY_BOUNDS_MS ! i \<and> (\<forall>j < i. LATENCY_BOUNDS_MS ! j < ms)" for ms
    using assms by (intro place_bounds) (simp_all only: length_bounds)
  moreover have "place ms LATENCY_BOUNDS_MS = 13 \<longleftrightarrow> 10000 < ms" for ms
    by (simp add: LATENCY_BOUNDS_MS_def)
  ultimately show ?thesis
    using stats_of_buckets [of xs] assms by simp
qed

theorem histogram_buckets_witness:
  "ss_buckets (stats_of [(1500000, 200), (30000000000, 503)]) ! 13 = 1"
  using histogram_buckets [of 0 "[(1500000, 200), (30000000000, 503)]"] by simp

section \<open>The text is JSON\<close>

lemma json_two [json_intros]: "json_text ''2''"
  by (rule json_text.json_number) (simp add: json_number_def json_int_def json_digits_def is_ascii_digit_def)

lemma int_point_fields: "f \<in> set (int_point start ts n) \<Longrightarrow> json_field f"
  by (auto simp: int_point_def plain_def intro!: json_intros)

lemma sum_metric_json [json_intros]:
  "plain name \<Longrightarrow> (\<And>p. p \<in> set points \<Longrightarrow> json_text p) \<Longrightarrow> json_text (sum_metric name points)"
  unfolding sum_metric_def by (intro json_intros) (auto simp: plain_def intro!: json_intros)

lemma hist_metric_json [json_intros]:
  "plain name \<Longrightarrow> plain desc \<Longrightarrow> (\<And>p. p \<in> set points \<Longrightarrow> json_text p) \<Longrightarrow> json_text (hist_metric name desc points)"
  unfolding hist_metric_def by (intro json_intros) (auto simp: plain_def intro!: json_intros)

lemma gauge_metric_json [json_intros]: "plain name \<Longrightarrow> json_text (gauge_metric name ts n)"
  unfolding gauge_metric_def by (intro json_intros) (auto simp: plain_def intro!: json_intros)

text \<open>What is relied on of the string encoder and of the printing of numbers.\<close>

definition encoders_ok :: "(string \<Rightarrow> string) \<Rightarrow> (rat \<Rightarrow> string) \<Rightarrow> bool" where
  "encoders_ok json_str show_f64 \<longleftrightarrow> (\<forall>s. json_string (json_str s)) \<and> (\<forall>x \<ge> 0. json_number (show_f64 x))"

lemma encoder_texts:
  assumes "encoders_ok js sf"
  shows "json_text (js s)" "0 \<le> x \<Longrightarrow> json_text (sf x)"
  using assms by (auto simp: encoders_ok_def intro: json_text.json_string json_text.json_number)

lemma attrs_json:
  assumes "encoders_ok js sf"
  shows "json_text (otlp_attrs js k)"
  by (auto simp: otlp_attrs_def kv_def plain_def intro!: json_intros encoder_texts(1) [OF assms])

lemma hist_fields_json:
  assumes "encoders_ok js sf" "0 \<le> ss_sum_ms s" "f \<in> set (hist_fields sf start ts s)"
  shows "json_field f"
  using assms(2,3)
  by (auto simp: hist_fields_def plain_def LATENCY_BOUNDS_MS_def intro!: json_intros encoder_texts(2) [OF assms(1)])

lemma hist_point_json:
  assumes "encoders_ok js sf" "histogram_ok s"
  shows "json_text (hist_data_point sf start ts s (otlp_attrs js k))"
  unfolding hist_data_point_def
  using assms(2) attrs_json [OF assms(1)]
  by (intro json_jobj) (auto simp: histogram_ok_def plain_def dest: hist_fields_json [OF assms(1), rotated] intro!: json_intros)

lemma plain_point_json: "json_text (jobj (int_point start ts n))"
  by (rule json_jobj) (rule int_point_fields)

lemma count_point_json:
  "encoders_ok js sf \<Longrightarrow> json_text (jobj (int_point start ts n @ [jfield ''attributes'' (otlp_attrs js k)]))"
  by (rule json_jobj) (auto simp: plain_def dest: int_point_fields intro!: attrs_json json_intros)

lemma handshake_json:
  assumes "encoders_ok js sf" "histogram_ok s" "plain name" "plain desc"
  shows "json_text (unlabeled_hist sf name desc start ts s)"
proof -
  have "json_text (jobj (hist_fields sf start ts s))"
    using assms(2) by (intro json_jobj hist_fields_json [OF assms(1), of s _ start ts]) (simp_all add: histogram_ok_def)
  then show ?thesis
    unfolding unlabeled_hist_def using assms(3,4)
    by (intro json_intros) (auto simp: plain_def intro!: json_jfield json_jarr json_two json_jobj json_quoted plain_chars)
qed

lemma list_all_member: "list_all (\<lambda>kv. P (snd kv)) m \<Longrightarrow> (k, s) \<in> set m \<Longrightarrow> P s"
  by (auto simp: list_all_iff)

lemma metrics_json:
  assumes "encoders_ok js sf" "list_all (\<lambda>kv. histogram_ok (snd kv)) (mg_series r @ mg_wire r)" "histogram_ok (mg_handshake r)"
    and "m \<in> set (otlp_metrics js sf ts r)"
  shows "json_text m"
proof -
  have ok: "(k, s) \<in> set (mg_series r) \<Longrightarrow> histogram_ok s" "(k, s) \<in> set (mg_wire r) \<Longrightarrow> histogram_ok s" for k s
    using list_all_member [OF assms(2), of k s] by auto
  show ?thesis
    using assms(4)
    by (auto simp: otlp_metrics_def Let_def plain_def split: if_splits
        intro!: sum_metric_json hist_metric_json gauge_metric_json plain_point_json
          hist_point_json [OF assms(1)] count_point_json [OF assms(1)] handshake_json [OF assms(1,3)] dest: ok)
qed

text \<open>The metrics text of a registry in its invariant is JSON, given what the two encoders promise.\<close>

lemma otlp_json_text:
  assumes "encoders_ok js sf" "metrics_inv r"
  shows "json_text (to_otlp_json js sf ts r)"
proof -
  have "list_all (\<lambda>kv. histogram_ok (snd kv)) (mg_series r @ mg_wire r)" "histogram_ok (mg_handshake r)"
    using metrics_inv_ok [OF assms(2)] assms(2) by (simp_all add: metrics_inv_def histogram_ok_wf)
  then have "m \<in> set (otlp_metrics js sf ts r) \<Longrightarrow> json_text m" for m
    by (rule metrics_json [OF assms(1)])
  then have "json_text (jarr (otlp_metrics js sf ts r))"
    by (rule json_jarr)
  then show ?thesis
    unfolding to_otlp_json_def by (auto simp: plain_def intro!: json_jobj json_jfield json_jarr json_quoted plain_chars)
qed

definition demo_json_str :: "string \<Rightarrow> string" where
  "demo_json_str s = quoted (filter (\<lambda>c. c \<noteq> CHR 0x5C \<and> c \<noteq> CHR 0x22 \<and> (32 :: nat) \<le> of_char c) s)"

definition demo_show_f64 :: "rat \<Rightarrow> string" where
  "demo_show_f64 x = show_nat (nat \<lfloor>x\<rfloor>)"

lemma demo_encoders: "encoders_ok demo_json_str demo_show_f64"
  by (auto simp: encoders_ok_def demo_json_str_def demo_show_f64_def json_string_def json_number_def show_nat_int
      plain_def list_all_iff intro!: plain_chars)

end
