(* ===== verification/Trace.thy ===== *)
theory Trace
  imports Json Correlate
begin

text \<open>
  Sampled traces (\<open>src/agent/src/trace_export.rs\<close>): the sampling decision, the identifiers of spans, the
  bounded span queue, the index of handshakes, and the OTLP text. The JSON string encoder and the clock are
  parameters.
\<close>

unbundle bit_operations_syntax

section \<open>Model\<close>

definition SPAN_QUEUE_CAP :: nat where "SPAN_QUEUE_CAP = 1024"

definition DEFAULT_SAMPLE_N :: u64 where "DEFAULT_SAMPLE_N = 10"

definition KIND_SERVER :: nat where "KIND_SERVER = 2"

definition KIND_CLIENT :: nat where "KIND_CLIENT = 3"

definition STATUS_UNSET :: nat where "STATUS_UNSET = 0"

definition STATUS_ERROR :: nat where "STATUS_ERROR = 2"

record TraceMeta =
  tm_tgid :: u32
  tm_fd :: i32
  tm_stream_id :: u32
  tm_t_start_ns :: u64
  tm_is_client :: bool

record SpanRec =
  sr_trace_id :: bytes
  sr_span_id :: bytes
  sr_name :: string
  sr_start_unix_ns :: nat
  sr_end_unix_ns :: nat
  sr_status_code :: u16
  sr_kind_client :: bool
  sr_src :: string
  sr_dst :: string
  sr_method :: string
  sr_route :: string
  sr_protocol :: string
  sr_wire_ns :: "u64 option"
  sr_handshake_ns :: "u64 option"
  sr_profile_frames :: "string list option"

definition sample_n_from_env :: "(string \<Rightarrow> string option) \<Rightarrow> u64" where
  "sample_n_from_env env =
    (case Option.bind (env ''OBSAGENT_TRACE_SAMPLE'') (parse_unsigned 64) of
       Some n \<Rightarrow> if n > 0 then of_nat n else DEFAULT_SAMPLE_N
     | None \<Rightarrow> DEFAULT_SAMPLE_N)"

definition splitmix64 :: "u64 \<Rightarrow> u64" where
  "splitmix64 x =
    (let z = x + 0x9E3779B97F4A7C15;
         z = (z XOR drop_bit 30 z) * 0xBF58476D1CE4E5B9;
         z = (z XOR drop_bit 27 z) * 0x94D049BB133111EB
     in z XOR drop_bit 31 z)"

definition mix64 :: "u32 \<Rightarrow> i32 \<Rightarrow> u32 \<Rightarrow> u64 \<Rightarrow> u64" where
  "mix64 tgid fd stream_id t_start_ns =
    splitmix64 (t_start_ns XOR push_bit 32 (ucast tgid) XOR ucast fd XOR push_bit 17 (ucast stream_id))"

definition sampled_span :: "u64 \<Rightarrow> TraceMeta \<Rightarrow> bool" where
  "sampled_span n m \<longleftrightarrow>
    (if n \<le> 1 then True else mix64 (tm_tgid m) (tm_fd m) (tm_stream_id m) (tm_t_start_ns m) mod n = 0)"

definition be_bytes :: "u64 \<Rightarrow> bytes" where
  "be_bytes x = rev (le_bytes 8 x)"

definition fix_zero :: "bytes \<Rightarrow> bytes" where
  "fix_zero bs = (if list_all (\<lambda>b. b = 0) bs then bs[length bs - 1 := 1] else bs)"

definition span_ids :: "TraceMeta \<Rightarrow> bytes \<times> bytes" where
  "span_ids m =
    (let a = splitmix64 (tm_t_start_ns m XOR push_bit 32 (ucast (tm_tgid m)) XOR ucast (tm_fd m));
         b = splitmix64 (a XOR push_bit 32 (ucast (tm_stream_id m)) XOR word_rotl 17 (tm_t_start_ns m));
         c = splitmix64 (b XOR 0xA5A5A5A5A5A5A5A5)
     in (fix_zero (be_bytes a @ be_bytes b), fix_zero (be_bytes c)))"

definition protocol_attr :: "string \<Rightarrow> string" where
  "protocol_attr internal = (if internal = ''http'' then ''http/1.1'' else internal)"

definition strip_query :: "string \<Rightarrow> string" where
  "strip_query path = hd (split_on CHR ''?'' path)"

definition unix_range_from_duration :: "nat \<Rightarrow> u64 \<Rightarrow> nat \<times> nat" where
  "unix_range_from_duration now_unix latency_ns = (now_unix - unat latency_ns, now_unix)"

definition build_span ::
  "nat \<Rightarrow> TraceMeta \<Rightarrow> string \<Rightarrow> string \<Rightarrow> string \<Rightarrow> string \<Rightarrow> string \<Rightarrow> u16 \<Rightarrow> u64 \<Rightarrow> u64 option \<Rightarrow> u64 option
    \<Rightarrow> string list option \<Rightarrow> SpanRec" where
  "build_span now_unix m src dst verb route protocol status latency_ns wire_ns handshake_ns profile_frames =
    (let ids = span_ids m; route = strip_query route; range = unix_range_from_duration now_unix latency_ns
     in \<lparr>sr_trace_id = fst ids, sr_span_id = snd ids, sr_name = verb @ '' '' @ route,
         sr_start_unix_ns = fst range, sr_end_unix_ns = snd range, sr_status_code = status,
         sr_kind_client = tm_is_client m, sr_src = src, sr_dst = dst, sr_method = verb, sr_route = route,
         sr_protocol = protocol_attr protocol, sr_wire_ns = wire_ns, sr_handshake_ns = handshake_ns,
         sr_profile_frames = profile_frames\<rparr>)"

definition span_otel_status :: "string \<Rightarrow> u16 \<Rightarrow> nat" where
  "span_otel_status protocol status_code =
    (if protocol = ''grpc'' then (if status_code \<noteq> 0 then STATUS_ERROR else STATUS_UNSET)
     else if status_code \<ge> 500 then STATUS_ERROR
     else STATUS_UNSET)"

definition hex_digit :: "nat \<Rightarrow> char" where
  "hex_digit n = ''0123456789abcdef'' ! n"

definition hex_lower :: "bytes \<Rightarrow> string" where
  "hex_lower bs = concat (map (\<lambda>b. [hex_digit (unat (drop_bit 4 b)), hex_digit (unat (b AND 0xF))]) bs)"

definition kv_str :: "(string \<Rightarrow> string) \<Rightarrow> string \<Rightarrow> string \<Rightarrow> string" where
  "kv_str json_str key val =
    jobj [jfield ''key'' (json_str key), jfield ''value'' (jobj [jfield ''stringValue'' (json_str val)])]"

definition show_int :: "int \<Rightarrow> string" where
  "show_int i = (if i < 0 then ''-'' @ show_nat (nat (- i)) else show_nat (nat i))"

definition kv_int :: "(string \<Rightarrow> string) \<Rightarrow> string \<Rightarrow> int \<Rightarrow> string" where
  "kv_int json_str key val =
    jobj [jfield ''key'' (json_str key), jfield ''value'' (jobj [jfield ''intValue'' (quoted (show_int val))])]"

definition frame_attrs :: "(string \<Rightarrow> string) \<Rightarrow> string list \<Rightarrow> string list" where
  "frame_attrs json_str frames =
    map (\<lambda>(i, f). kv_str json_str (''frame.'' @ show_nat i) f) (takeWhile (\<lambda>(i, f). f \<noteq> []) (enumerate 0 frames))"

definition profile_events_json :: "(string \<Rightarrow> string) \<Rightarrow> SpanRec \<Rightarrow> string" where
  "profile_events_json json_str s =
    (case sr_profile_frames s of
       None \<Rightarrow> []
     | Some frames \<Rightarrow>
       let attrs = frame_attrs json_str frames
       in if attrs = [] then []
          else '','' @ jfield ''events'' (jarr [jobj [jfield ''timeUnixNano'' (quoted (show_nat (sr_end_unix_ns s))),
            jfield ''name'' (quoted ''profile''), jfield ''attributes'' (jarr attrs)]]))"

definition span_attrs :: "(string \<Rightarrow> string) \<Rightarrow> SpanRec \<Rightarrow> string list" where
  "span_attrs json_str s =
    [kv_str json_str ''src'' (sr_src s), kv_str json_str ''dst'' (sr_dst s), kv_str json_str ''http.method'' (sr_method s),
     kv_str json_str ''http.route'' (sr_route s), kv_str json_str ''obsagent.protocol'' (sr_protocol s),
     (if sr_protocol s = ''grpc'' then kv_int json_str ''rpc.grpc.status_code'' (uint (sr_status_code s))
      else kv_int json_str ''http.status_code'' (uint (sr_status_code s)))] @
    (case sr_wire_ns s of Some w \<Rightarrow> [kv_int json_str ''obsagent.wire_latency_ns'' (sint w)] | None \<Rightarrow> []) @
    (case sr_handshake_ns s of Some h \<Rightarrow> [kv_int json_str ''obsagent.tls.handshake_ns'' (sint h)] | None \<Rightarrow> [])"

definition span_fields :: "(string \<Rightarrow> string) \<Rightarrow> SpanRec \<Rightarrow> string list" where
  "span_fields json_str s =
    [jfield ''traceId'' (quoted (hex_lower (sr_trace_id s))), jfield ''spanId'' (quoted (hex_lower (sr_span_id s))),
     jfield ''name'' (json_str (sr_name s)), jfield ''kind'' (show_nat (if sr_kind_client s then KIND_CLIENT else KIND_SERVER)),
     jfield ''startTimeUnixNano'' (quoted (show_nat (sr_start_unix_ns s))),
     jfield ''endTimeUnixNano'' (quoted (show_nat (sr_end_unix_ns s))),
     jfield ''status'' (jobj [jfield ''code'' (show_nat (span_otel_status (sr_protocol s) (sr_status_code s)))]),
     jfield ''attributes'' (jarr (span_attrs json_str s))]"

definition span_json :: "(string \<Rightarrow> string) \<Rightarrow> SpanRec \<Rightarrow> string" where
  "span_json json_str s = ''{'' @ join '','' (span_fields json_str s) @ profile_events_json json_str s @ ''}''"

definition group_span ::
  "(string \<Rightarrow> string) \<Rightarrow> SpanRec \<Rightarrow> string list \<times> (string, string list) hashmap \<Rightarrow> string list \<times> (string, string list) hashmap" where
  "group_span json_str s og =
    (let svc = (if sr_src s = [] then ''unknown'' else sr_src s)
     in (if hm_contains (snd og) svc then fst og else fst og @ [svc],
         hm_entry svc [] (\<lambda>b. b @ [span_json json_str s]) (snd og)))"

definition resource_json :: "(string \<Rightarrow> string) \<Rightarrow> (string, string list) hashmap \<Rightarrow> string \<Rightarrow> string" where
  "resource_json json_str groups svc =
    (let body = (case hm_get groups svc of None \<Rightarrow> [] | Some v \<Rightarrow> v)
     in jobj [jfield ''resource'' (jobj [jfield ''attributes''
          (jarr [kv_str json_str ''service.name'' svc, kv_str json_str ''telemetry.sdk.name'' ''obsagent''])]),
        jfield ''scopeSpans'' (jarr [jobj [
          jfield ''scope'' (jobj [jfield ''name'' (quoted ''obsagent''), jfield ''version'' (quoted ''0.1.0'')]),
          jfield ''spans'' (jarr body)]])])"

definition to_otlp_traces_json :: "(string \<Rightarrow> string) \<Rightarrow> SpanRec list \<Rightarrow> string" where
  "to_otlp_traces_json json_str spans =
    (case fold (group_span json_str) spans ([], []) of (order, groups) \<Rightarrow>
       jobj [jfield ''resourceSpans'' (jarr (map (resource_json json_str groups) order))])"

section \<open>The span queue\<close>

record SpanQueue =
  sq_q :: "SpanRec list"
  sq_cap :: nat
  sq_dropped :: nat

definition SpanQueue_new :: "nat \<Rightarrow> SpanQueue" where
  "SpanQueue_new cap = \<lparr>sq_q = [], sq_cap = cap, sq_dropped = 0\<rparr>"

definition SpanQueue_default :: SpanQueue where
  "SpanQueue_default = SpanQueue_new SPAN_QUEUE_CAP"

definition queue_push :: "SpanRec \<Rightarrow> SpanQueue \<Rightarrow> bool \<times> SpanQueue" where
  "queue_push span q =
    (if length (sq_q q) \<ge> sq_cap q then (False, q\<lparr>sq_dropped := sq_dropped q + 1\<rparr>)
     else (True, q\<lparr>sq_q := sq_q q @ [span]\<rparr>))"

definition queue_take_all :: "SpanQueue \<Rightarrow> SpanRec list \<times> SpanQueue" where
  "queue_take_all q = (sq_q q, q\<lparr>sq_q := []\<rparr>)"

section \<open>The handshake index\<close>

record Hs =
  hk_latency_ns :: u64
  hk_ts_ns :: u64
  hk_at :: instant

record HandshakeIndex =
  hi_by_fd :: "(u32 \<times> i32, Hs) hashmap"

definition HandshakeIndex_default :: HandshakeIndex where
  "HandshakeIndex_default = \<lparr>hi_by_fd = []\<rparr>"

definition hs_evict_stale :: "instant \<Rightarrow> HandshakeIndex \<Rightarrow> HandshakeIndex" where
  "hs_evict_stale now i = i\<lparr>hi_by_fd := hm_retain (\<lambda>_ h. now - hk_at h \<le> TIMEOUT) (hi_by_fd i)\<rparr>"

definition hs_note :: "u32 \<Rightarrow> i32 \<Rightarrow> u64 \<Rightarrow> u64 \<Rightarrow> instant \<Rightarrow> HandshakeIndex \<Rightarrow> HandshakeIndex" where
  "hs_note tgid fd latency_ns ts_ns now i =
    (if latency_ns = 0 \<or> is_neg fd then i
     else let i = hs_evict_stale now i
       in i\<lparr>hi_by_fd := hm_insert (tgid, fd) \<lparr>hk_latency_ns = latency_ns, hk_ts_ns = ts_ns, hk_at = now\<rparr> (hi_by_fd i)\<rparr>)"

definition hs_peek_preceding :: "u32 \<Rightarrow> i32 \<Rightarrow> u64 \<Rightarrow> instant \<Rightarrow> HandshakeIndex \<Rightarrow> u64 option \<times> HandshakeIndex" where
  "hs_peek_preceding tgid fd t_start_ns now i =
    (let i = hs_evict_stale now i
     in case hm_get (hi_by_fd i) (tgid, fd) of
          None \<Rightarrow> (None, i)
        | Some hs \<Rightarrow> if hk_ts_ns hs > t_start_ns then (None, i) else (Some (hk_latency_ns hs), i))"

definition hs_consume :: "u32 \<Rightarrow> i32 \<Rightarrow> HandshakeIndex \<Rightarrow> HandshakeIndex" where
  "hs_consume tgid fd i = i\<lparr>hi_by_fd := hm_remove (tgid, fd) (hi_by_fd i)\<rparr>"

definition hs_evict_closed :: "(u32 \<Rightarrow> i32 \<Rightarrow> bool) \<Rightarrow> HandshakeIndex \<Rightarrow> HandshakeIndex" where
  "hs_evict_closed still_open i = i\<lparr>hi_by_fd := hm_retain (\<lambda>k _. still_open (fst k) (snd k)) (hi_by_fd i)\<rparr>"

section \<open>Span identifiers\<close>

lemma drop_bit_fixed: "0 < n \<Longrightarrow> drop_bit n d = d \<Longrightarrow> d = 0" for d :: u64
proof -
  assume n: "0 < n" and d: "drop_bit n d = d"
  have "unat d div 2 ^ n = unat d"
    using d by (metis drop_bit_eq_div unat_drop_bit_eq)
  moreover have "(1 :: nat) < 2 ^ n"
    using n by (intro one_less_power) simp_all
  ultimately have "unat d = 0"
    using div_less_dividend [of "2 ^ n" "unat d"] by linarith
  then show "d = 0"
    by (simp only: unat_eq_0)
qed

lemma xorshift_inj: "0 < n \<Longrightarrow> x XOR drop_bit n x = y XOR drop_bit n y \<Longrightarrow> x = y" for x y :: u64
proof -
  assume n: "0 < n" and eq: "x XOR drop_bit n x = y XOR drop_bit n y"
  have "drop_bit n (x XOR y) = x XOR y"
  proof (rule bit_word_eqI)
    fix i
    have "bit (x XOR drop_bit n x) i = bit (y XOR drop_bit n y) i"
      using eq by (rule arg_cong)
    then show "bit (drop_bit n (x XOR y)) i = bit (x XOR y) i"
      by (simp add: bit_xor_iff bit_drop_bit_eq) blast
  qed
  then have "x XOR y = 0"
    by (rule drop_bit_fixed [OF n])
  then have "bit (x XOR y) i = bit (0 :: u64) i" for i
    by (rule arg_cong)
  then show "x = y"
    by (intro bit_word_eqI) (simp add: bit_xor_iff)
qed

lemma odd_mult_inj:
  fixes x y c d :: u64
  assumes "x * c = y * c" "c * d = 1"
  shows "x = y"
proof -
  have "x * (c * d) = y * (c * d)"
    unfolding mult.assoc [symmetric] assms(1) ..
  then show ?thesis
    by (simp only: assms(2) mult_1_right)
qed

lemma mult_inverses: "(0xBF58476D1CE4E5B9 :: u64) * 0x96DE1B173F119089 = 1"
  "(0x94D049BB133111EB :: u64) * 0x319642B2D24D8EC3 = 1"
  by simp_all

lemma mix_step_inj:
  fixes x y c d :: u64
  assumes "(x XOR drop_bit n x) * c = (y XOR drop_bit n y) * c" "c * d = 1" "0 < n"
  shows "x = y"
  by (rule xorshift_inj [OF assms(3) odd_mult_inj [OF assms(1,2)]])

lemma splitmix64_inj:
  assumes "splitmix64 x = splitmix64 y"
  shows "x = y"
proof -
  have n: "(0 :: nat) < 31" "(0 :: nat) < 27" "(0 :: nat) < 30"
    by simp_all
  note eq = assms [unfolded splitmix64_def Let_def]
  have "x + 0x9E3779B97F4A7C15 = y + 0x9E3779B97F4A7C15"
    by (rule mix_step_inj [OF mix_step_inj [OF xorshift_inj [OF n(1) eq] mult_inverses(2) n(2)] mult_inverses(1) n(3)])
  then show ?thesis
    by (simp only: add_right_cancel)
qed

definition raw_a :: "TraceMeta \<Rightarrow> u64" where
  "raw_a m = splitmix64 (tm_t_start_ns m XOR push_bit 32 (ucast (tm_tgid m)) XOR ucast (tm_fd m))"

definition raw_b :: "TraceMeta \<Rightarrow> u64" where
  "raw_b m = splitmix64 (raw_a m XOR push_bit 32 (ucast (tm_stream_id m)) XOR word_rotl 17 (tm_t_start_ns m))"

lemma span_ids_raw:
  "span_ids m = (fix_zero (be_bytes (raw_a m) @ be_bytes (raw_b m)),
    fix_zero (be_bytes (splitmix64 (raw_b m XOR 0xA5A5A5A5A5A5A5A5))))"
  by (simp add: span_ids_def raw_a_def raw_b_def Let_def)

lemma be_bytes_inj: "be_bytes x = be_bytes y \<longleftrightarrow> x = y"
proof
  assume "be_bytes x = be_bytes y"
  then have "from_le (le_bytes 8 x) = (from_le (le_bytes 8 y) :: u64)"
    by (simp only: be_bytes_def rev_is_rev_conv)
  then show "x = y"
    by simp
qed simp

lemma length_be_bytes [simp]: "length (be_bytes x) = 8"
  by (simp add: be_bytes_def)

lemma be_bytes_nonempty: "be_bytes x \<noteq> []"
  using length_be_bytes [of x] by (metis list.size(3) zero_neq_numeral)

lemma fix_zero_facts:
  "length (fix_zero bs) = length bs"
  "bs \<noteq> [] \<Longrightarrow> \<not> list_all (\<lambda>b. b = 0) (fix_zero bs)"
  "fix_zero bs = bs \<or> fix_zero bs = replicate (length bs - 1) 0 @ [1]"
proof -
  show "length (fix_zero bs) = length bs"
    by (simp add: fix_zero_def)
  show "fix_zero bs = bs \<or> fix_zero bs = replicate (length bs - 1) 0 @ [1]"
  proof (cases "bs = [] \<or> \<not> list_all (\<lambda>b. b = 0) bs")
    case False
    then obtain n where n: "length bs = Suc n"
      by (cases bs) auto
    have "replicate (length bs) 0 = bs"
      using False by (intro replicate_length_same) (simp add: list_all_iff)
    then have bs: "bs = replicate n 0 @ [0]"
      by (simp add: n replicate_append_same)
    have "bs[n := 1] = replicate n 0 @ [1]"
      unfolding bs using list_update_length [of "replicate n 0" 0 "[]" 1] by simp
    then show ?thesis
      using False by (simp add: fix_zero_def n)
  qed (auto simp: fix_zero_def)
  show "\<not> list_all (\<lambda>b. b = 0) (fix_zero bs)" if "bs \<noteq> []"
  proof (cases "list_all (\<lambda>b. b = 0) bs")
    case True
    then have "fix_zero bs ! (length bs - 1) = 1"
      using that by (simp add: fix_zero_def)
    then show ?thesis
      using that by (auto simp: list_all_length fix_zero_def intro!: exI [of _ "length bs - 1"])
  qed (simp add: fix_zero_def)
qed

lemma xor_cancel: "a XOR x = a XOR y \<Longrightarrow> x = y" for a x y :: u64
proof -
  assume eq: "a XOR x = a XOR y"
  show "x = y"
  proof (rule bit_word_eqI)
    fix i
    have "bit (a XOR x) i = bit (a XOR y) i"
      using eq by (rule arg_cong)
    then show "bit x i = bit y i"
      by (simp add: bit_xor_iff) blast
  qed
qed

lemma xor_cancel_right: "x XOR a = y XOR a \<Longrightarrow> x = y" for a x y :: u64
  by (rule xor_cancel [of a]) (simp only: xor.commute [of a])

lemma stream_inj: "push_bit 32 (ucast s :: u64) = push_bit 32 (ucast s' :: u64) \<Longrightarrow> s = s'" for s s' :: u32
proof -
  assume eq: "push_bit 32 (ucast s :: u64) = push_bit 32 (ucast s' :: u64)"
  show "s = s'"
  proof (rule bit_word_eqI)
    fix i assume i: "i < LENGTH(32)"
    have "bit (push_bit 32 (ucast s :: u64)) (i + 32) = bit (push_bit 32 (ucast s' :: u64)) (i + 32)"
      using eq by (rule arg_cong)
    then show "bit s i = bit s' i"
      using i by (simp add: bit_simps)
  qed
qed

text \<open>C35. Identifiers of spans are well formed and distinct: a trace id has 16 bytes and a span id 8, neither is
  all zero, and two spans of one connection with the same trace id have the same stream and start time, unless
  the id is the one put in place of zero.\<close>

theorem trace_ids_distinct:
  assumes "tm_tgid m = tm_tgid m'" "tm_fd m = tm_fd m'" "fst (span_ids m) = fst (span_ids m')"
  shows "length (fst (span_ids m)) = 16 \<and> length (snd (span_ids m)) = 8 \<and>
    (\<exists>b \<in> set (fst (span_ids m)). b \<noteq> 0) \<and> (\<exists>b \<in> set (snd (span_ids m)). b \<noteq> 0) \<and>
    (fst (span_ids m) = replicate 15 0 @ [1] \<or>
     (tm_t_start_ns m = tm_t_start_ns m' \<and> tm_stream_id m = tm_stream_id m'))"
proof -
  let ?r = "\<lambda>m. be_bytes (raw_a m) @ be_bytes (raw_b m)"
  have same: "tm_t_start_ns m = tm_t_start_ns m' \<and> tm_stream_id m = tm_stream_id m'" if "?r m = ?r m'"
  proof -
    have ab: "raw_a m = raw_a m'" "raw_b m = raw_b m'"
      using that by (simp_all add: be_bytes_inj)
    note a = splitmix64_inj [OF ab(1) [unfolded raw_a_def assms(1,2)]]
    have t: "tm_t_start_ns m = tm_t_start_ns m'"
      by (rule xor_cancel_right [OF a])
    note b = splitmix64_inj [OF ab(2) [unfolded raw_b_def ab(1) t]]
    show ?thesis
      using t stream_inj [OF xor_cancel_right [OF xor_cancel [OF b]]] by blast
  qed
  have raw: "fst (span_ids m) = fix_zero (?r m)" "fst (span_ids m') = fix_zero (?r m')"
    "snd (span_ids m) = fix_zero (be_bytes (splitmix64 (raw_b m XOR 0xA5A5A5A5A5A5A5A5)))"
    by (simp_all add: span_ids_raw)
  have len: "length (?r n) = 16" "?r n \<noteq> []" for n
    by (simp_all add: be_bytes_nonempty)
  have "fst (span_ids m) = replicate 15 0 @ [1] \<or> ?r m = ?r m'"
    using fix_zero_facts(3) [of "?r m"] fix_zero_facts(3) [of "?r m'"] assms(3) unfolding raw len(1) by fastforce
  moreover have "(\<exists>b \<in> set (fst (span_ids m)). b \<noteq> 0)" "(\<exists>b \<in> set (snd (span_ids m)). b \<noteq> 0)"
    using fix_zero_facts(2) [OF len(2) [of m]] fix_zero_facts(2) [OF be_bytes_nonempty] unfolding raw list_all_iff by blast+
  moreover have "length (fst (span_ids m)) = 16" "length (snd (span_ids m)) = 8"
    unfolding raw fix_zero_facts(1) by (simp_all add: length_be_bytes)
  ultimately show ?thesis
    using same by blast
qed

definition demo_meta :: TraceMeta where
  "demo_meta = \<lparr>tm_tgid = 42, tm_fd = 7, tm_stream_id = 3, tm_t_start_ns = 1000, tm_is_client = True\<rparr>"

theorem trace_ids_distinct_witness:
  "length (fst (span_ids demo_meta)) = 16 \<and> (\<exists>b \<in> set (snd (span_ids demo_meta)). b \<noteq> 0)"
  using trace_ids_distinct [of demo_meta demo_meta] by blast

section \<open>Handshakes\<close>

interpretation hs_ttl: ttl_store hk_at TIMEOUT "\<lambda>now. hm_retain (\<lambda>_ h. now - hk_at h \<le> TIMEOUT)"
  by unfold_locales simp

datatype hs_op =
    HsNote u32 i32 u64 u64
  | HsPeek u32 i32 u64
  | HsConsume u32 i32
  | HsStale
  | HsClosed "u32 \<Rightarrow> i32 \<Rightarrow> bool"

fun hs_step :: "HandshakeIndex \<Rightarrow> hs_op \<times> instant \<Rightarrow> HandshakeIndex" where
  "hs_step i (HsNote tgid fd lat ts, now) = hs_note tgid fd lat ts now i"
| "hs_step i (HsPeek tgid fd ts, now) = snd (hs_peek_preceding tgid fd ts now i)"
| "hs_step i (HsConsume tgid fd, now) = hs_consume tgid fd i"
| "hs_step i (HsStale, now) = hs_evict_stale now i"
| "hs_step i (HsClosed still_open, now) = hs_evict_closed still_open i"

text \<open>What one descriptor has to show: its last handshake, unless it was consumed or the descriptor closed.\<close>

fun hs_last :: "u32 \<times> i32 \<Rightarrow> Hs option \<Rightarrow> hs_op \<times> instant \<Rightarrow> Hs option" where
  "hs_last k c (HsNote tgid fd lat ts, now) =
    (if (tgid, fd) = k \<and> lat \<noteq> 0 \<and> \<not> is_neg fd then Some \<lparr>hk_latency_ns = lat, hk_ts_ns = ts, hk_at = now\<rparr> else c)"
| "hs_last k c (HsPeek tgid fd ts, now) = c"
| "hs_last k c (HsConsume tgid fd, now) = (if (tgid, fd) = k then None else c)"
| "hs_last k c (HsStale, now) = c"
| "hs_last k c (HsClosed still_open, now) = (if still_open (fst k) (snd k) then c else None)"

definition fresh_hs :: "instant \<Rightarrow> Hs option \<Rightarrow> Hs option" where
  "fresh_hs now c = (case c of None \<Rightarrow> None | Some h \<Rightarrow> if now - hk_at h \<le> TIMEOUT then Some h else None)"

lemma fresh_sweep:
  "t \<le> now \<Longrightarrow> hm_wf m \<Longrightarrow> fresh_hs now (hm_get (hm_retain (\<lambda>_ h. t - hk_at h \<le> TIMEOUT) m) k) = fresh_hs now (hm_get m k)"
  by (auto simp: fresh_hs_def hs_ttl.get_sweep split: option.splits)

lemma hs_peek_state: "snd (hs_peek_preceding tgid fd ts now i) = hs_evict_stale now i"
  by (simp add: hs_peek_preceding_def Let_def split: option.split)

lemma hs_step_wf: "hm_wf (hi_by_fd i) \<Longrightarrow> hm_wf (hi_by_fd (hs_step i (op1, t)))"
  by (cases op1) (simp_all add: hs_note_def hs_peek_state hs_consume_def hs_evict_stale_def hs_evict_closed_def Let_def)

lemma hs_step_fresh:
  assumes "t \<le> now" "hm_wf (hi_by_fd i)" "fresh_hs now (hm_get (hi_by_fd i) k) = fresh_hs now c"
  shows "fresh_hs now (hm_get (hi_by_fd (hs_step i (op1, t))) k) = fresh_hs now (hs_last k c (op1, t))"
proof (cases op1)
  case (HsClosed still_open)
  then show ?thesis
    using assms by (cases "hm_get (hi_by_fd i) k") (auto simp: hs_evict_closed_def hm.get_ret fresh_hs_def)
qed (use assms fresh_sweep [OF assms(1,2), of k] in
    \<open>auto simp: hs_note_def hs_peek_state hs_consume_def hs_evict_stale_def Let_def fresh_hs_def\<close>)

lemma hs_run_fresh:
  "\<forall>t \<in> set (map snd h). t \<le> now \<Longrightarrow> hm_wf (hi_by_fd i) \<Longrightarrow> fresh_hs now (hm_get (hi_by_fd i) k) = fresh_hs now c \<Longrightarrow>
    hm_wf (hi_by_fd (foldl hs_step i h)) \<and>
    fresh_hs now (hm_get (hi_by_fd (foldl hs_step i h)) k) = fresh_hs now (foldl (hs_last k) c h)"
proof (induction h arbitrary: i c)
  case (Cons ot h)
  obtain op1 t where ot: "ot = (op1, t)"
    by force
  have "t \<le> now"
    using Cons.prems(1) by (simp add: ot)
  from hs_step_fresh [OF this Cons.prems(2,3), of op1] show ?case
    using Cons.IH [of "hs_step i (op1, t)" "hs_last k c (op1, t)"] hs_step_wf [OF Cons.prems(2), of op1 t] Cons.prems(1)
    by (simp add: ot)
qed simp

text \<open>C36. A handshake is told once: after any history with times up to now, the lookup for a span gives the latency
  of the last handshake of this very descriptor if it was not consumed, the descriptor was not closed since,
  it is at most 60 s old and ended before the span, and nothing otherwise.\<close>

theorem handshake_index_exact:
  assumes "\<forall>t \<in> set (map snd h). t \<le> now"
  shows "fst (hs_peek_preceding tgid fd ts now (foldl hs_step HandshakeIndex_default h)) =
    (case foldl (hs_last (tgid, fd)) None h of
       None \<Rightarrow> None
     | Some e \<Rightarrow> if now - hk_at e \<le> TIMEOUT \<and> hk_ts_ns e \<le> ts then Some (hk_latency_ns e) else None)"
proof -
  let ?i = "foldl hs_step HandshakeIndex_default h"
  have inv: "hm_wf (hi_by_fd ?i)"
    "fresh_hs now (hm_get (hi_by_fd ?i) (tgid, fd)) = fresh_hs now (foldl (hs_last (tgid, fd)) None h)"
    using hs_run_fresh [OF assms, of HandshakeIndex_default "(tgid, fd)" None]
    by (simp_all add: HandshakeIndex_default_def hm_wf_def hm_get_def)
  have "fst (hs_peek_preceding tgid fd ts now i) =
      (case fresh_hs now (hm_get (hi_by_fd i) (tgid, fd)) of None \<Rightarrow> None
       | Some e \<Rightarrow> if hk_ts_ns e > ts then None else Some (hk_latency_ns e))" if "hm_wf (hi_by_fd i)" for i
    using that by (auto simp: hs_peek_preceding_def hs_evict_stale_def Let_def hs_ttl.get_sweep fresh_hs_def split: option.split)
  then show ?thesis
    using inv by (auto simp: fresh_hs_def not_less split: option.split)
qed

theorem handshake_index_exact_witness:
  "fst (hs_peek_preceding 42 7 900 20 (foldl hs_step HandshakeIndex_default [(HsNote 42 7 55 800, 10)])) = Some 55 \<and>
   fst (hs_peek_preceding 42 7 900 20 (foldl hs_step HandshakeIndex_default [(HsNote 42 7 55 800, 10), (HsConsume 42 7, 12)])) = None"
  using handshake_index_exact [of "[(HsNote 42 7 55 800, 10)]" 20 42 7 900]
    handshake_index_exact [of "[(HsNote 42 7 55 800, 10), (HsConsume 42 7, 12)]" 20 42 7 900]
  by (simp add: TIMEOUT_def secs_def)

section \<open>The text is JSON\<close>

lemma hex_digit_plain: "n < 16 \<Longrightarrow> plain [hex_digit n]"
proof -
  assume "n < 16"
  then have "hex_digit n \<in> set ''0123456789abcdef''"
    unfolding hex_digit_def by (intro nth_mem) simp
  then show ?thesis
    by (auto simp: plain_def)
qed

lemma plain_append: "plain (s @ t) \<longleftrightarrow> plain s \<and> plain t"
  by (simp add: plain_def)

lemma plain_pair: "plain [c] \<Longrightarrow> plain [d] \<Longrightarrow> plain s \<Longrightarrow> plain (c # d # s)"
  by (simp add: plain_def)

lemma nibbles: "unat (drop_bit 4 b) < 16" "unat (b AND 0xF) < 16" for b :: u8
proof -
  have "unat b < 256"
    by (rule u8_less)
  then have "unat b div 16 < 16"
    by simp
  then show "unat (drop_bit 4 b) < 16"
    by (simp only: unat_drop_bit_eq drop_bit_eq_div) (simp add: unat_div)
  have "b AND 0xF = take_bit 4 b"
    by (rule bit_word_eqI) (auto simp: bit_simps take_bit_eq_mask mask_numeral)
  then show "unat (b AND 0xF) < 16"
    by (simp add: unsigned_take_bit_eq take_bit_eq_mod unat_mod)
qed

lemma hex_lower_plain: "plain (hex_lower bs)" "length (hex_lower bs) = 2 * length bs"
proof -
  show "plain (hex_lower bs)"
    unfolding hex_lower_def
    by (induction bs) (simp add: plain_def, simp add: plain_pair hex_digit_plain nibbles)
  show "length (hex_lower bs) = 2 * length bs"
    unfolding hex_lower_def by (induction bs) simp_all
qed

lemma show_int_plain [json_intros]: "plain (show_int i)"
  using show_nat_plain [of "nat i"] show_nat_plain [of "nat (- i)"]
  by (simp add: show_int_def plain_append) (simp add: plain_def)

lemma kv_json:
  assumes "\<And>s. json_string (js s)"
  shows "json_text (kv_str js k v)" "json_text (kv_int js k i)"
  using json_text.json_string [OF assms]
  by (auto simp: kv_str_def kv_int_def plain_def [of "_ # _"] intro!: json_intros show_int_plain)

lemma span_attrs_json:
  assumes "\<And>s. json_string (js s)" "a \<in> set (span_attrs js s)"
  shows "json_text a"
  using assms(2) kv_json [OF assms(1)] by (auto simp: span_attrs_def split: option.splits if_splits)

lemma frame_attrs_json:
  assumes "\<And>s. json_string (js s)" "a \<in> set (frame_attrs js fs)"
  shows "json_text a"
  using assms(2) kv_json(1) [OF assms(1)] by (auto simp: frame_attrs_def)

lemma span_fields_json:
  assumes "\<And>s. json_string (js s)" "f \<in> set (span_fields js s)"
  shows "json_field f"
proof -
  have "json_text (js n)" for n
    by (rule json_text.json_string [OF assms(1)])
  moreover have "json_text (jarr (span_attrs js s))"
    by (rule json_jarr) (rule span_attrs_json [OF assms(1)])
  ultimately show ?thesis
    using assms(2) hex_lower_plain(1)
    by (auto simp: span_fields_def plain_def [of "_ # _"] intro!: json_jfield json_quoted plain_chars json_jobj
        show_nat_number show_nat_plain)
qed

lemma join_snoc: "fs \<noteq> [] \<Longrightarrow> join sep fs @ sep @ f = join sep (fs @ [f])"
  by (induction sep fs rule: join.induct) (auto simp: join_Cons)

lemma span_json_text:
  assumes "\<And>s. json_string (js s)"
  shows "json_text (span_json js s)"
proof -
  have fields: "json_text (jobj (span_fields js s))"
    by (rule json_jobj) (rule span_fields_json [OF assms])
  show ?thesis
  proof (cases "profile_events_json js s = []")
    case True
    then show ?thesis
      using fields by (simp add: span_json_def jobj_def)
  next
    case False
    then obtain frames where fr: "sr_profile_frames s = Some frames"
      by (auto simp: profile_events_json_def split: option.splits)
    let ?e = "jfield ''events'' (jarr [jobj [jfield ''timeUnixNano'' (quoted (show_nat (sr_end_unix_ns s))),
      jfield ''name'' (quoted ''profile''), jfield ''attributes'' (jarr (frame_attrs js frames))]])"
    have ev: "profile_events_json js s = '','' @ ?e"
      using False fr by (auto simp: profile_events_json_def Let_def split: if_splits)
    have "json_text (jarr (frame_attrs js frames))"
      by (rule json_jarr) (rule frame_attrs_json [OF assms])
    then have "json_field ?e"
      by (auto simp: plain_def [of "_ # _"] intro!: json_jfield json_jarr json_jobj json_quoted plain_chars show_nat_plain)
    then have "json_text (jobj (span_fields js s @ [?e]))"
      using span_fields_json [OF assms] by (intro json_jobj) auto
    moreover have "span_fields js s \<noteq> []"
      by (simp add: span_fields_def)
    ultimately show ?thesis
      using join_snoc [of "span_fields js s" "'',''" ?e]
      by (simp only: span_json_def jobj_def ev append_assoc [symmetric] simp_thms)
  qed
qed

lemma groups_json:
  assumes "\<And>s. json_string (js s)"
  shows "(\<And>k v. hm_get (snd og) k = Some v \<Longrightarrow> \<forall>t \<in> set v. json_text t) \<Longrightarrow>
    hm_get (snd (fold (group_span js) spans og)) k = Some v \<Longrightarrow> \<forall>t \<in> set v. json_text t"
proof (induction spans arbitrary: og)
  case (Cons s spans)
  have "\<forall>t \<in> set v. json_text t" if "hm_get (snd (group_span js s og)) k = Some v" for k v
    using that Cons.prems(1) span_json_text [OF assms]
    by (auto simp: group_span_def Let_def hm_get_entry split: if_splits option.splits)
  then show ?case
    using Cons.IH [of "group_span js s og"] Cons.prems(2) by simp
qed simp

lemma otlp_traces_json:
  assumes "\<And>s. json_string (js s)"
  shows "json_text (to_otlp_traces_json js spans)"
proof -
  obtain order groups where og: "fold (group_span js) spans ([], []) = (order, groups)"
    by force
  have "\<forall>t \<in> set v. json_text t" if "hm_get groups k = Some v" for k v
    using groups_json [where js = js, OF assms, of "([], [])" spans k v] that og by simp
  then have "json_text (resource_json js groups svc)" for svc
    using kv_json(1) [OF assms]
    by (auto simp: resource_json_def Let_def plain_def [of "_ # _"] split: option.splits
        intro!: json_jobj json_jfield json_jarr json_quoted plain_chars)
  then show ?thesis
    by (auto simp: to_otlp_traces_json_def og plain_def [of "_ # _"] intro!: json_jobj json_jfield json_jarr plain_chars)
qed

section \<open>What the text holds\<close>

text \<open>A span belongs to the service it came from. The services stand in the order of their first spans, and each has the
  texts of its own spans in the order of the queue.\<close>

definition span_service :: "SpanRec \<Rightarrow> string" where
  "span_service s = (if sr_src s = [] then ''unknown'' else sr_src s)"

definition services_in_order :: "SpanRec list \<Rightarrow> string list" where
  "services_in_order spans = rev (remdups (rev (map span_service spans)))"

definition service_text :: "(string \<Rightarrow> string) \<Rightarrow> string \<Rightarrow> SpanRec list \<Rightarrow> string" where
  "service_text js svc spans =
    jobj [jfield ''resource'' (jobj [jfield ''attributes''
        (jarr [kv_str js ''service.name'' svc, kv_str js ''telemetry.sdk.name'' ''obsagent''])]),
      jfield ''scopeSpans'' (jarr [jobj [
        jfield ''scope'' (jobj [jfield ''name'' (quoted ''obsagent''), jfield ''version'' (quoted ''0.1.0'')]),
        jfield ''spans'' (jarr (map (span_json js) spans))]])]"

lemma group_spans:
  "fst (fold (group_span js) spans ([], [])) = services_in_order spans \<and>
    hm_get (snd (fold (group_span js) spans ([], []))) svc =
      (if svc \<in> span_service ` set spans then Some (map (span_json js) (filter (\<lambda>s. span_service s = svc) spans)) else None)"
proof (induction spans arbitrary: svc rule: rev_induct)
  case (snoc s spans)
  let ?og = "fold (group_span js) spans ([], [])"
  have og: "fst ?og = services_in_order spans" "hm_get (snd ?og) k =
      (if k \<in> span_service ` set spans then Some (map (span_json js) (filter (\<lambda>s. span_service s = k) spans)) else None)" for k
    using snoc.IH by simp_all
  have step: "fold (group_span js) (spans @ [s]) ([], []) = group_span js s ?og"
    by simp
  have "fst (group_span js s ?og) = services_in_order (spans @ [s])"
    by (auto simp: group_span_def Let_def hm_contains_get og services_in_order_def span_service_def [of s, symmetric])
  moreover have "hm_get (snd (group_span js s ?og)) svc = (if svc \<in> span_service ` set (spans @ [s])
      then Some (map (span_json js) (filter (\<lambda>s. span_service s = svc) (spans @ [s]))) else None)"
    by (auto simp: group_span_def Let_def og span_service_def [of s, symmetric] filter_empty_conv) (metis imageI)
  ultimately show ?case
    unfolding step by simp
qed (simp add: services_in_order_def)

lemma traces_json_groups:
  "to_otlp_traces_json js spans = jobj [jfield ''resourceSpans'' (jarr (map (\<lambda>svc.
    service_text js svc (filter (\<lambda>s. span_service s = svc) spans)) (services_in_order spans)))]"
proof -
  obtain order groups where og: "fold (group_span js) spans ([], []) = (order, groups)"
    by force
  then have o: "order = services_in_order spans" "hm_get groups svc = (if svc \<in> span_service ` set spans
      then Some (map (span_json js) (filter (\<lambda>s. span_service s = svc) spans)) else None)" for svc
    using group_spans [of js spans] by simp_all
  have "resource_json js groups svc = service_text js svc (filter (\<lambda>s. span_service s = svc) spans)"
    if "svc \<in> set (services_in_order spans)" for svc
    using that by (simp add: resource_json_def service_text_def Let_def o(2) services_in_order_def)
  then show ?thesis
    by (simp add: to_otlp_traces_json_def og o(1) cong: map_cong)
qed

lemma span_json_ids:
  "\<exists>rest. span_json js s = ''{'' @ jfield ''traceId'' (quoted (hex_lower (sr_trace_id s))) @ '','' @
    jfield ''spanId'' (quoted (hex_lower (sr_span_id s))) @ '','' @ jfield ''name'' (js (sr_name s)) @ '','' @ rest"
  by (simp add: span_json_def span_fields_def)

end
