(* ===== verification/Profile.thy ===== *)
theory Profile
  imports Strings Abi "HOL-Library.List_Lexorder" "HOL-Library.Char_ord"
begin

text \<open>
  CPU profiles (\<open>src/agent/src/profile.rs\<close>, \<open>src/agent/src/symbolize.rs\<close>): the bounded store of
  symbolised stacks, the join of the most frequent frames to a span, and the cached symboliser. The
  resolution of one address (\<open>blazesym\<close>) is a parameter; slicing a string inside a character is a panic,
  the value \<open>None\<close>.
\<close>

section \<open>Model\<close>

definition DEFAULT_PROFILE_FREQ :: nat where "DEFAULT_PROFILE_FREQ = 99"

record ProfileConfig =
  pf_enabled :: bool
  pf_min_latency_ns :: u64
  pf_store_cap :: nat
  pf_store_ttl :: nat
  pf_freq_hz :: nat

definition ProfileConfig_from_env :: "(string \<Rightarrow> string option) \<Rightarrow> ProfileConfig" where
  "ProfileConfig_from_env env =
    (let enabled = env ''OBSAGENT_PROFILE'' \<noteq> None;
         min_latency_ns = (case Option.bind (env ''OBSAGENT_PROFILE_MIN_NS'') (parse_unsigned 64) of
           Some n \<Rightarrow> of_nat n | None \<Rightarrow> PROFILE_MIN_LATENCY_NS_DEFAULT);
         freq_hz = (case Option.bind (env ''OBSAGENT_PROFILE_FREQ'') (parse_unsigned 64) of
           Some n \<Rightarrow> if n > 0 then n else DEFAULT_PROFILE_FREQ | None \<Rightarrow> DEFAULT_PROFILE_FREQ)
     in \<lparr>pf_enabled = enabled, pf_min_latency_ns = min_latency_ns, pf_store_cap = PROFILE_STORE_CAP,
         pf_store_ttl = secs PROFILE_STORE_TTL_SECS, pf_freq_hz = freq_hz\<rparr>)"

record StoredSample =
  spl_tgid :: u32
  spl_ts_ns :: u64
  spl_frames :: "string list"

record ProfileStore =
  pr_config :: ProfileConfig
  pr_samples :: "StoredSample list"
  pr_samples_ingested :: nat
  pr_samples_dropped :: nat
  pr_join_attempts :: nat
  pr_join_hits :: nat

definition ProfileStore_new :: "ProfileConfig \<Rightarrow> ProfileStore" where
  "ProfileStore_new config = \<lparr>pr_config = config, pr_samples = [], pr_samples_ingested = 0, pr_samples_dropped = 0,
    pr_join_attempts = 0, pr_join_hits = 0\<rparr>"

fun drop_expired :: "u64 \<Rightarrow> u64 \<Rightarrow> StoredSample list \<Rightarrow> StoredSample list" where
  "drop_expired now ttl [] = []"
| "drop_expired now ttl (front # q) =
    (if sat_sub now (spl_ts_ns front) > ttl then drop_expired now ttl q else front # q)"

definition evict_before :: "u64 \<Rightarrow> ProfileStore \<Rightarrow> ProfileStore" where
  "evict_before now_ts_ns p =
    p\<lparr>pr_samples := drop_expired now_ts_ns (of_nat (pf_store_ttl (pr_config p))) (pr_samples p)\<rparr>"

definition push_symbolized :: "u32 \<Rightarrow> u64 \<Rightarrow> string list \<Rightarrow> ProfileStore \<Rightarrow> ProfileStore" where
  "push_symbolized tgid ts_ns frames p =
    (if frames = [] then p
     else let p = evict_before ts_ns p;
         p = (if length (pr_samples p) \<ge> pf_store_cap (pr_config p)
              then p\<lparr>pr_samples := tl (pr_samples p), pr_samples_dropped := pr_samples_dropped p + 1\<rparr> else p)
       in p\<lparr>pr_samples := pr_samples p @ [\<lparr>spl_tgid = tgid, spl_ts_ns = ts_ns, spl_frames = frames\<rparr>],
            pr_samples_ingested := pr_samples_ingested p + 1\<rparr>)"

definition count_sample :: "u32 \<Rightarrow> u64 \<Rightarrow> u64 \<Rightarrow> StoredSample \<Rightarrow> (string, nat) hashmap \<Rightarrow> (string, nat) hashmap" where
  "count_sample tgid t_start_ns t_end_ns s counts =
    (if spl_tgid s \<noteq> tgid then counts
     else if spl_ts_ns s < t_start_ns \<or> spl_ts_ns s > t_end_ns then counts
     else fold (\<lambda>frame. hm_entry frame 0 (\<lambda>n. n + 1)) (spl_frames s) counts)"

text \<open>Most frequent first, then by name: two stable sorts.\<close>

definition rank :: "(string \<times> nat) list \<Rightarrow> (string \<times> nat) list" where
  "rank es = sort_key (\<lambda>e. - int (snd e)) (sort_key fst es)"

definition profile_join :: "u32 \<Rightarrow> u64 \<Rightarrow> u64 \<Rightarrow> ProfileStore \<Rightarrow> string list option \<times> ProfileStore" where
  "profile_join tgid t_start_ns t_end_ns p =
    (if t_end_ns \<le> t_start_ns then (None, p)
     else if sat_sub t_end_ns t_start_ns < pf_min_latency_ns (pr_config p) then (None, p)
     else let p = evict_before t_end_ns (p\<lparr>pr_join_attempts := pr_join_attempts p + 1\<rparr>);
         counts = fold (count_sample tgid t_start_ns t_end_ns) (pr_samples p) []
       in if counts = [] then (None, p)
          else let names = map fst (take PROFILE_TOP_FRAMES (rank counts));
                   out = names @ replicate (PROFILE_TOP_FRAMES - length names) []
            in if out ! 0 = [] then (None, p)
               else (Some out, p\<lparr>pr_join_hits := pr_join_hits p + 1\<rparr>))"

definition frames_contain :: "string list \<Rightarrow> string \<Rightarrow> bool" where
  "frames_contain frames needle \<longleftrightarrow> list_ex (\<lambda>f. contains_sub f needle) frames"

section \<open>Symbols\<close>

definition MAX_SYM_LEN :: nat where "MAX_SYM_LEN = 120"

definition truncate_sym :: "string \<Rightarrow> string option" where
  "truncate_sym s =
    (if length s \<le> MAX_SYM_LEN then Some s
     else if is_char_boundary s MAX_SYM_LEN then Some (take MAX_SYM_LEN s @ [CHR 0xE2, CHR 0x80, CHR 0xA6])
     else None)"

record StackSymbolizer =
  sz_cache :: "(u32 \<times> u64, string) hashmap"

definition StackSymbolizer_new :: StackSymbolizer where
  "StackSymbolizer_new = \<lparr>sz_cache = []\<rparr>"

definition resolve_one :: "(u32 \<Rightarrow> u64 \<Rightarrow> string option) \<Rightarrow> u32 \<Rightarrow> u64 \<Rightarrow> string option" where
  "resolve_one symbolize tgid ip = (if tgid = 0 then None else symbolize tgid ip)"

definition symbolize_ip ::
  "(u32 \<Rightarrow> u64 \<Rightarrow> string option) \<Rightarrow> u32 \<Rightarrow> u64 \<Rightarrow> StackSymbolizer \<Rightarrow> (string \<times> StackSymbolizer) option" where
  "symbolize_ip symbolize tgid ip z =
    (if ip = 0 then Some ([], z)
     else case hm_get (sz_cache z) (tgid, ip) of
       Some s \<Rightarrow> Some (s, z)
     | None \<Rightarrow>
       let name = (case resolve_one symbolize tgid ip of Some n \<Rightarrow> n | None \<Rightarrow> ''0x'' @ show_hex (unat ip))
       in case truncate_sym name of
            None \<Rightarrow> None
          | Some name \<Rightarrow> Some (name, z\<lparr>sz_cache := hm_insert (tgid, ip) name (sz_cache z)\<rparr>))"

fun symbolize_ips ::
  "(u32 \<Rightarrow> u64 \<Rightarrow> string option) \<Rightarrow> u32 \<Rightarrow> u64 list \<Rightarrow> StackSymbolizer \<Rightarrow> (string list \<times> StackSymbolizer) option" where
  "symbolize_ips symbolize tgid [] z = Some ([], z)"
| "symbolize_ips symbolize tgid (ip # ips) z =
    (case symbolize_ip symbolize tgid ip z of
       None \<Rightarrow> None
     | Some (s, z) \<Rightarrow>
       (case symbolize_ips symbolize tgid ips z of
          None \<Rightarrow> None
        | Some (ss, z) \<Rightarrow> Some (if s \<noteq> [] then s # ss else ss, z)))"

definition evict_tgid :: "u32 \<Rightarrow> StackSymbolizer \<Rightarrow> StackSymbolizer" where
  "evict_tgid tgid z = z\<lparr>sz_cache := hm_retain (\<lambda>k _. fst k \<noteq> tgid) (sz_cache z)\<rparr>"

section \<open>The store\<close>

lemma drop_expired_suffix: "\<exists>p. q = p @ drop_expired now ttl q"
  by (induction q) (auto intro: exI [of _ "[]"], metis append_Cons)

lemma drop_expired_length: "length (drop_expired now ttl q) \<le> length q"
  by (induction q) auto

text \<open>A panic of the symboliser: a name whose byte 120 is inside a character.\<close>

theorem truncate_sym_panics: "truncate_sym (replicate 119 CHR ''a'' @ [CHR 0xC3, CHR 0xA9]) = None"
  by (simp add: truncate_sym_def MAX_SYM_LEN_def is_char_boundary_def nth_append)

lemma truncate_sym_ascii:
  assumes "list_all (\<lambda>c. (of_char c :: nat) < 128) s"
  shows "\<exists>t. truncate_sym s = Some t \<and> length t \<le> MAX_SYM_LEN + 3"
proof (cases "length s \<le> 120")
  case False
  then have "(of_char (s ! 120) :: nat) < 128"
    using assms by (simp add: list_all_length)
  then show ?thesis
    using False by (simp add: truncate_sym_def is_char_boundary_def MAX_SYM_LEN_def)
qed (simp add: truncate_sym_def MAX_SYM_LEN_def)

definition store_ok :: "ProfileStore \<Rightarrow> bool" where
  "store_ok p \<longleftrightarrow> length (pr_samples p) \<le> pf_store_cap (pr_config p)"

lemma evict_before_ok: "store_ok p \<Longrightarrow> store_ok (evict_before now p)" "pr_config (evict_before now p) = pr_config p"
  using drop_expired_length [of now "of_nat (pf_store_ttl (pr_config p))" "pr_samples p"]
  by (simp_all add: store_ok_def evict_before_def)

lemma push_symbolized_ok:
  "0 < pf_store_cap (pr_config p) \<Longrightarrow> store_ok p \<Longrightarrow> store_ok (push_symbolized tgid ts frames p)"
  using evict_before_ok(1) [of p ts] evict_before_ok(2) [of ts p] by (auto simp: push_symbolized_def store_ok_def Let_def)

lemma profile_join_ok: "store_ok p \<Longrightarrow> store_ok (snd (profile_join tgid a b p))"
  using evict_before_ok(1) [of "p\<lparr>pr_join_attempts := pr_join_attempts p + 1\<rparr>" b]
  by (simp add: profile_join_def Let_def store_ok_def)

section \<open>The most frequent frames\<close>

definition in_span :: "u32 \<Rightarrow> u64 \<Rightarrow> u64 \<Rightarrow> StoredSample \<Rightarrow> bool" where
  "in_span tgid a b s \<longleftrightarrow> spl_tgid s = tgid \<and> a \<le> spl_ts_ns s \<and> spl_ts_ns s \<le> b"

definition frame_count :: "u32 \<Rightarrow> u64 \<Rightarrow> u64 \<Rightarrow> StoredSample list \<Rightarrow> string \<Rightarrow> nat" where
  "frame_count tgid a b samples f = length (filter (\<lambda>g. g = f) (concat (map spl_frames (filter (in_span tgid a b) samples))))"

definition counted :: "(string, nat) hashmap \<Rightarrow> string \<Rightarrow> nat" where
  "counted m f = (case hm_get m f of None \<Rightarrow> 0 | Some n \<Rightarrow> n)"

definition counts_ok :: "(string, nat) hashmap \<Rightarrow> bool" where
  "counts_ok m \<longleftrightarrow> hm_wf m \<and> (\<forall>f. hm_get m f \<noteq> Some 0)"

lemma count_frames:
  "counts_ok m \<Longrightarrow> counts_ok (fold (\<lambda>frame. hm_entry frame 0 (\<lambda>n. n + 1)) fs m) \<and>
    counted (fold (\<lambda>frame. hm_entry frame 0 (\<lambda>n. n + 1)) fs m) f = counted m f + length (filter (\<lambda>g. g = f) fs)"
proof (induction fs arbitrary: m)
  case (Cons g fs)
  have "counts_ok (hm_entry g 0 (\<lambda>n. n + 1) m)"
    "counted (hm_entry g 0 (\<lambda>n. n + 1) m) f = counted m f + (if g = f then 1 else 0)"
    using Cons.prems by (auto simp: counts_ok_def counted_def hm_get_entry hm_wf_entry split: option.split)
  then show ?case
    using Cons.IH [of "hm_entry g 0 (\<lambda>n. n + 1) m"] by simp
qed simp

lemma count_samples:
  "counts_ok m \<Longrightarrow> counts_ok (fold (count_sample tgid a b) ss m) \<and>
    counted (fold (count_sample tgid a b) ss m) f = counted m f + frame_count tgid a b ss f"
proof (induction ss arbitrary: m)
  case (Cons s ss)
  have "count_sample tgid a b s m =
      (if in_span tgid a b s then fold (\<lambda>frame. hm_entry frame 0 (\<lambda>n. n + 1)) (spl_frames s) m else m)"
    by (auto simp: count_sample_def in_span_def not_less)
  then have "counts_ok (count_sample tgid a b s m)" "counted (count_sample tgid a b s m) f =
      counted m f + (if in_span tgid a b s then length (filter (\<lambda>g. g = f) (spl_frames s)) else 0)"
    using count_frames [OF Cons.prems, of "spl_frames s" f] Cons.prems by simp_all
  then show ?case
    using Cons.IH [of "count_sample tgid a b s m"] by (simp add: frame_count_def)
qed (simp add: frame_count_def)

lemma counts_entries:
  assumes "counts_ok m"
  shows "(f, n) \<in> set m \<longleftrightarrow> n = counted m f \<and> 0 < counted m f"
proof -
  have "hm_get m f \<noteq> Some 0" "(f, n) \<in> set m \<longleftrightarrow> hm_get m f = Some n"
    using assms hm_in_set_get [of m f n] by (auto simp: counts_ok_def)
  then show ?thesis
    by (cases "hm_get m f") (auto simp: counted_def)
qed

lemma rank_facts: "set (rank es) = set es" "sorted_wrt (\<lambda>x y. snd y \<le> snd x) (rank es)"
proof -
  show "set (rank es) = set es"
    by (simp add: rank_def)
  have "sorted (map (\<lambda>e. - int (snd e)) (rank es))"
    by (simp add: rank_def)
  then show "sorted_wrt (\<lambda>x y. snd y \<le> snd x) (rank es)"
    by (simp add: sorted_map)
qed

lemma sorted_take_drop: "sorted_wrt R xs \<Longrightarrow> x \<in> set (take n xs) \<Longrightarrow> y \<in> set (drop n xs) \<Longrightarrow> R x y"
  by (metis append_take_drop_id sorted_wrt_append)

lemma top_frames:
  assumes "counts_ok m" "f \<in> fst ` set (take n (rank m))"
  shows "0 < counted m f" "g \<notin> fst ` set (take n (rank m)) \<Longrightarrow> counted m g \<le> counted m f"
proof -
  obtain i where i: "(f, i) \<in> set (take n (rank m))"
    using assms(2) by auto
  then have "(f, i) \<in> set m"
    using rank_facts(1) [of m] in_set_takeD by metis
  then have f: "i = counted m f" "0 < counted m f"
    using counts_entries [OF assms(1)] by auto
  then show "0 < counted m f"
    by simp
  show "counted m g \<le> counted m f" if out: "g \<notin> fst ` set (take n (rank m))"
  proof (cases "counted m g = 0")
    case False
    then have "(g, counted m g) \<in> set (rank m)"
      using counts_entries [OF assms(1), of g "counted m g"] rank_facts(1) [of m] by simp
    moreover have "(g, counted m g) \<notin> set (take n (rank m))"
      using out by force
    ultimately have "(g, counted m g) \<in> set (drop n (rank m))"
      by (metis Un_iff append_take_drop_id set_append)
    then show ?thesis
      using sorted_take_drop [OF rank_facts(2) i] f by fastforce
  qed (use f in simp)
qed

text \<open>C40. A profile shows the most frequent frames: when a join gives frames, there are five slots of which the first
  is filled, every filled slot is a frame of a stored sample of this process within the span, and no frame left
  out occurs more often than one shown.\<close>

theorem profile_join_top:
  assumes "profile_join tgid a b p = (Some out, p')"
  shows "length out = 5 \<and> out ! 0 \<noteq> [] \<and>
    (\<forall>f \<in> set out. f \<noteq> [] \<longrightarrow> 0 < frame_count tgid a b (pr_samples p') f \<and>
      (\<forall>g. g \<notin> set out \<longrightarrow> frame_count tgid a b (pr_samples p') g \<le> frame_count tgid a b (pr_samples p') f))"
proof -
  let ?q = "evict_before b (p\<lparr>pr_join_attempts := pr_join_attempts p + 1\<rparr>)"
  let ?m = "fold (count_sample tgid a b) (pr_samples ?q) []"
  let ?names = "map fst (take PROFILE_TOP_FRAMES (rank ?m))"
  have out: "out = ?names @ replicate (PROFILE_TOP_FRAMES - length ?names) []" "out ! 0 \<noteq> []" "pr_samples p' = pr_samples ?q"
    using assms by (auto simp: profile_join_def Let_def split: if_splits)
  have m: "counts_ok ?m" "counted ?m f = frame_count tgid a b (pr_samples ?q) f" for f
    using count_samples [of "[]" tgid a b "pr_samples ?q" f] by (simp_all add: counts_ok_def counted_def)
  have "length out = 5"
    unfolding out(1) by (simp add: PROFILE_TOP_FRAMES_def)
  moreover have "0 < frame_count tgid a b (pr_samples ?q) f \<and>
      (\<forall>g. g \<notin> set out \<longrightarrow> frame_count tgid a b (pr_samples ?q) g \<le> frame_count tgid a b (pr_samples ?q) f)"
    if "f \<in> set out" "f \<noteq> []" for f
  proof -
    have f: "f \<in> fst ` set (take PROFILE_TOP_FRAMES (rank ?m))"
      using that unfolding out(1) by auto
    have "g \<notin> fst ` set (take PROFILE_TOP_FRAMES (rank ?m))" if "g \<notin> set out" for g
      using that unfolding out(1) by auto
    then show ?thesis
      using top_frames [OF m(1) f] unfolding m(2) by blast
  qed
  ultimately show ?thesis
    using out(2,3) by simp
qed

definition demo_store :: ProfileStore where
  "demo_store = \<lparr>pr_config = \<lparr>pf_enabled = True, pf_min_latency_ns = 10, pf_store_cap = 4, pf_store_ttl = 1000, pf_freq_hz = 99\<rparr>,
    pr_samples = [\<lparr>spl_tgid = 7, spl_ts_ns = 120, spl_frames = [''main'', ''work'']\<rparr>, \<lparr>spl_tgid = 7, spl_ts_ns = 130, spl_frames = [''work'']\<rparr>],
    pr_samples_ingested = 2, pr_samples_dropped = 0, pr_join_attempts = 0, pr_join_hits = 0\<rparr>"

theorem profile_join_top_witness:
  "\<exists>out p'. profile_join 7 100 200 demo_store = (Some out, p') \<and> length out = 5 \<and> out ! 0 \<noteq> []"
proof -
  have "fst (profile_join 7 100 200 demo_store) = Some [''work'', ''main'', [], [], []]"
    by (simp add: profile_join_def demo_store_def evict_before_def count_sample_def hm_entry_def hm_get_def hm_insert_def
        rank_def sat_sub_def PROFILE_TOP_FRAMES_def Let_def numeral_3_eq_3)
  then obtain out p' where "profile_join 7 100 200 demo_store = (Some out, p')"
    by (cases "profile_join 7 100 200 demo_store") simp
  then show ?thesis
    using profile_join_top [of 7 100 200 demo_store out p'] by blast
qed

end
