(* ===== verification/Export.thy ===== *)
theory Export
  imports Service_Map Metrics Trace Profile
begin

text \<open>
  The export hub (\<open>src/agent/src/export.rs\<close>): what one finished exchange does to the metrics, the span
  queue, the handshake index and the profile store, the periodic flush, and the URLs. The locks are never poisoned
  in the model, so every guarded update happens; the answer of the collector is a parameter of the flush.
\<close>

section \<open>Model\<close>

record ExportHub =
  eh_registry :: MetricsRegistry
  eh_spans :: SpanQueue
  eh_handshake :: HandshakeIndex
  eh_sample_n :: u64
  eh_dropped :: nat
  eh_exported :: nat
  eh_http_total :: nat
  eh_http_errors :: nat
  eh_traces_sampled :: nat
  eh_traces_not_sampled :: nat
  eh_traces_dropped :: nat
  eh_traces_export_failed :: nat
  eh_bpf_sample_n :: u32
  eh_enabled :: bool
  eh_profile :: "ProfileStore option"
  eh_profile_join_hits :: nat
  eh_profile_join_miss :: nat

definition with_suffix :: "string \<Rightarrow> string \<Rightarrow> string" where
  "with_suffix suffix base =
    (let base = trim_end_char CHR ''/'' base in if ends_with base suffix then base else base @ suffix)"

definition normalize_metrics_url :: "string \<Rightarrow> string" where
  "normalize_metrics_url base = with_suffix ''/v1/metrics'' base"

definition normalize_traces_url :: "string \<Rightarrow> string" where
  "normalize_traces_url base = with_suffix ''/v1/traces'' base"

definition otlp_metrics_url :: "(string \<Rightarrow> string option) \<Rightarrow> string option" where
  "otlp_metrics_url env =
    (let local_url = (if env ''OBSAGENT_OTLP'' \<noteq> None then Some (normalize_metrics_url ''http://127.0.0.1:4318'') else None)
     in case env ''OTEL_EXPORTER_OTLP_ENDPOINT'' of
          Some ep \<Rightarrow> if ep \<noteq> [] then Some (normalize_metrics_url ep) else local_url
        | None \<Rightarrow> local_url)"

text \<open>\<open>str::replacen\<close> with count 1.\<close>

definition replace_first :: "string \<Rightarrow> string \<Rightarrow> string \<Rightarrow> string" where
  "replace_first pat new s =
    (case find_sub pat s of None \<Rightarrow> s | Some i \<Rightarrow> take i s @ new @ drop (i + length pat) s)"

definition otlp_traces_url :: "(string \<Rightarrow> string option) \<Rightarrow> string option" where
  "otlp_traces_url env =
    (let from_metrics = map_option (replace_first ''/v1/metrics'' ''/v1/traces'') (otlp_metrics_url env)
     in case env ''OTEL_EXPORTER_OTLP_TRACES_ENDPOINT'' of
          Some ep \<Rightarrow> if ep \<noteq> [] then Some (normalize_traces_url ep) else from_metrics
        | None \<Rightarrow> from_metrics)"

definition ExportHub_spawn :: "(string \<Rightarrow> string option) \<Rightarrow> bool \<Rightarrow> nat \<Rightarrow> ProfileStore option \<Rightarrow> ExportHub" where
  "ExportHub_spawn env client_built now_unix profile =
    (let want_otlp = otlp_metrics_url env \<noteq> None \<or> otlp_traces_url env \<noteq> None
     in \<lparr>eh_registry = MetricsRegistry_new now_unix, eh_spans = SpanQueue_new SPAN_QUEUE_CAP,
         eh_handshake = HandshakeIndex_default, eh_sample_n = sample_n_from_env env, eh_dropped = 0, eh_exported = 0,
         eh_http_total = 0, eh_http_errors = 0, eh_traces_sampled = 0, eh_traces_not_sampled = 0, eh_traces_dropped = 0,
         eh_traces_export_failed = 0, eh_bpf_sample_n = 1, eh_enabled = (want_otlp \<and> client_built), eh_profile = profile,
         eh_profile_join_hits = 0, eh_profile_join_miss = 0\<rparr>)"

definition set_events_dropped :: "nat \<Rightarrow> ExportHub \<Rightarrow> ExportHub" where
  "set_events_dropped n h = h\<lparr>eh_registry := (eh_registry h)\<lparr>mg_events_dropped := n\<rparr>\<rparr>"

definition set_edge_count :: "nat \<Rightarrow> ExportHub \<Rightarrow> ExportHub" where
  "set_edge_count n h = h\<lparr>eh_registry := (eh_registry h)\<lparr>mg_edge_count := n\<rparr>\<rparr>"

definition set_tls_unmapped :: "nat \<Rightarrow> ExportHub \<Rightarrow> ExportHub" where
  "set_tls_unmapped n h = h\<lparr>eh_registry := (eh_registry h)\<lparr>mg_tls_unmapped := n\<rparr>\<rparr>"

definition set_bpf_sample_n :: "u32 \<Rightarrow> ExportHub \<Rightarrow> ExportHub" where
  "set_bpf_sample_n n h = h\<lparr>eh_bpf_sample_n := n, eh_registry := (eh_registry h)\<lparr>mg_sample_n := n\<rparr>\<rparr>"

definition hub_record_handshake :: "u64 \<Rightarrow> ExportHub \<Rightarrow> ExportHub" where
  "hub_record_handshake latency_ns h = h\<lparr>eh_registry := registry_record_handshake latency_ns (eh_registry h)\<rparr>"

definition note_handshake :: "u32 \<Rightarrow> i32 \<Rightarrow> u64 \<Rightarrow> u64 \<Rightarrow> instant \<Rightarrow> ExportHub \<Rightarrow> ExportHub" where
  "note_handshake tgid fd latency_ns ts_ns now h =
    (let h = hub_record_handshake latency_ns h
     in h\<lparr>eh_handshake := hs_note tgid fd latency_ns ts_ns now (eh_handshake h)\<rparr>)"

definition evict_handshake :: "instant \<Rightarrow> (u32 \<Rightarrow> i32 \<Rightarrow> bool) \<Rightarrow> ExportHub \<Rightarrow> ExportHub" where
  "evict_handshake now still_open h =
    h\<lparr>eh_handshake := hs_evict_closed still_open (hs_evict_stale now (eh_handshake h))\<rparr>"

definition try_profile_join :: "u32 \<Rightarrow> u64 \<Rightarrow> u64 \<Rightarrow> u64 \<Rightarrow> ExportHub \<Rightarrow> string list option \<times> ExportHub" where
  "try_profile_join tgid t_start_ns t_end_ns latency_ns h =
    (case eh_profile h of
       None \<Rightarrow> (None, h)
     | Some store \<Rightarrow>
       (case profile_join tgid t_start_ns t_end_ns store of
          (Some frames, store') \<Rightarrow>
            (Some frames, h\<lparr>eh_profile := Some store', eh_profile_join_hits := eh_profile_join_hits h + 1\<rparr>)
        | (None, store') \<Rightarrow>
            (None, h\<lparr>eh_profile := Some store', eh_profile_join_miss :=
              (if latency_ns \<ge> pf_min_latency_ns (pr_config store) then eh_profile_join_miss h + 1 else eh_profile_join_miss h)\<rparr>)))"

definition count_exchange :: "HttpObs \<Rightarrow> ExportHub \<Rightarrow> ExportHub" where
  "count_exchange obs h =
    h\<lparr>eh_http_total := eh_http_total h + 1,
      eh_http_errors := (if ob_status obs \<ge> 500 then eh_http_errors h + 1 else eh_http_errors h),
      eh_registry := MetricsRegistry_record obs (eh_registry h)\<rparr>"

definition queue_span :: "TraceMeta \<Rightarrow> u64 option \<Rightarrow> SpanRec \<Rightarrow> ExportHub \<Rightarrow> ExportHub" where
  "queue_span m handshake_ns sp h =
    (case queue_push sp (eh_spans h) of
       (True, q) \<Rightarrow>
         let h = h\<lparr>eh_spans := q\<rparr>;
             h = (if handshake_ns \<noteq> None then h\<lparr>eh_handshake := hs_consume (tm_tgid m) (tm_fd m) (eh_handshake h)\<rparr> else h)
         in h\<lparr>eh_traces_sampled := eh_traces_sampled h + 1,
              eh_registry := (eh_registry h)\<lparr>mg_traces_sampled := mg_traces_sampled (eh_registry h) + 1\<rparr>\<rparr>
     | (False, q) \<Rightarrow>
         h\<lparr>eh_spans := q, eh_traces_dropped := eh_traces_dropped h + 1,
           eh_registry := (eh_registry h)\<lparr>mg_traces_dropped := mg_traces_dropped (eh_registry h) + 1\<rparr>\<rparr>)"

definition record_exchange ::
  "nat \<Rightarrow> string \<Rightarrow> DstId \<Rightarrow> string \<Rightarrow> string \<Rightarrow> u64 \<Rightarrow> u16 \<Rightarrow> string \<Rightarrow> u64 option \<Rightarrow> TraceMeta \<Rightarrow> instant
    \<Rightarrow> ExportHub \<Rightarrow> ExportHub" where
  "record_exchange now_unix src dst verb route latency_ns status protocol wire_ns m now h =
    (let obs = \<lparr>ob_src = src, ob_dst = DstId_label dst, ob_method = verb, ob_route = route, ob_latency_ns = latency_ns,
           ob_status = status, ob_protocol = protocol, ob_wire_ns = wire_ns\<rparr>;
         h = count_exchange obs h;
         t_end_ns = sat_add (tm_t_start_ns m) latency_ns
     in case try_profile_join (tm_tgid m) (tm_t_start_ns m) t_end_ns latency_ns h of
          (profile_frames, h) \<Rightarrow>
            if \<not> eh_enabled h then h
            else if \<not> sampled_span (eh_sample_n h) m
            then h\<lparr>eh_traces_not_sampled := eh_traces_not_sampled h + 1,
                   eh_registry := (eh_registry h)\<lparr>mg_traces_not_sampled := mg_traces_not_sampled (eh_registry h) + 1\<rparr>\<rparr>
            else case hs_peek_preceding (tm_tgid m) (tm_fd m) (tm_t_start_ns m) now (eh_handshake h) of
              (handshake_ns, hs) \<Rightarrow>
                queue_span m handshake_ns
                  (build_span now_unix m src (DstId_label dst) verb route protocol status latency_ns wire_ns handshake_ns
                    profile_frames) (h\<lparr>eh_handshake := hs\<rparr>))"

text \<open>\<open>success\<close> is whether the collector answered with a success status.\<close>

definition post_otlp :: "bool \<Rightarrow> nat option \<Rightarrow> ExportHub \<Rightarrow> ExportHub" where
  "post_otlp success traces_fail h =
    (if success
     then h\<lparr>eh_exported := eh_exported h + 1,
            eh_registry := (eh_registry h)\<lparr>mg_otlp_flushes_ok := mg_otlp_flushes_ok (eh_registry h) + 1\<rparr>\<rparr>
     else let n = (case traces_fail of Some n \<Rightarrow> n | None \<Rightarrow> 0);
              r = eh_registry h
       in h\<lparr>eh_dropped := eh_dropped h + 1,
            eh_registry := r\<lparr>mg_otlp_dropped := mg_otlp_dropped r + 1, mg_traces_export_failed := mg_traces_export_failed r + n\<rparr>,
            eh_traces_export_failed := eh_traces_export_failed h + n\<rparr>)"

text \<open>One tick of the flush task: the bodies posted with their URLs, and the new state.\<close>

definition flush_tick ::
  "(string \<Rightarrow> string) \<Rightarrow> (rat \<Rightarrow> string) \<Rightarrow> nat \<Rightarrow> string option \<Rightarrow> string option \<Rightarrow> bool \<Rightarrow> bool \<Rightarrow> ExportHub
    \<Rightarrow> (string \<times> string) list \<times> ExportHub" where
  "flush_tick json_str show_f64 now_unix metrics_url traces_url metrics_ok traces_ok h =
    (let metrics_body = (if metrics_url \<noteq> None \<and> has_otlp_payload (eh_registry h)
           then Some (to_otlp_json json_str show_f64 now_unix (eh_registry h)) else None)
     in case queue_take_all (eh_spans h) of
          (batch, q) \<Rightarrow>
            let h = h\<lparr>eh_spans := q\<rparr>;
                posted = (case (metrics_url, metrics_body) of
                  (Some url, Some body) \<Rightarrow> ([(url, body)], post_otlp metrics_ok None h) | _ \<Rightarrow> ([], h))
            in case traces_url of
                 Some url \<Rightarrow>
                   if batch \<noteq> [] then
                     (fst posted @ [(url, to_otlp_traces_json json_str batch)],
                      post_otlp traces_ok (Some (length batch)) (snd posted))
                   else posted
               | None \<Rightarrow> posted)"

section \<open>Accounting\<close>

text \<open>
  The runs of a hub. The drain path records exchanges and handshakes and sets gauges; the flush task takes the queued
  spans, and later learns how the collector answered. Between the two any number of other steps may come. A run carries
  the sizes of the batches in flight and the number of spans delivered so far.
\<close>

inductive hub_run :: "ExportHub \<Rightarrow> ExportHub \<Rightarrow> nat list \<Rightarrow> nat \<Rightarrow> bool" for h0 where
  start: "hub_run h0 h0 [] 0"
| exchange: "hub_run h0 h p d \<Longrightarrow>
    hub_run h0 (record_exchange now_unix src dst verb route latency status protocol wire m now h) p d"
| handshake: "hub_run h0 h p d \<Longrightarrow> hub_run h0 (note_handshake tgid fd latency ts now h) p d"
| latency_only: "hub_run h0 h p d \<Longrightarrow> hub_run h0 (hub_record_handshake latency h) p d"
| evict: "hub_run h0 h p d \<Longrightarrow> hub_run h0 (evict_handshake now still_open h) p d"
| events_dropped: "hub_run h0 h p d \<Longrightarrow> hub_run h0 (set_events_dropped n h) p d"
| edges: "hub_run h0 h p d \<Longrightarrow> hub_run h0 (set_edge_count n h) p d"
| unmapped: "hub_run h0 h p d \<Longrightarrow> hub_run h0 (set_tls_unmapped n h) p d"
| bpf_sample: "hub_run h0 h p d \<Longrightarrow> hub_run h0 (set_bpf_sample_n sn h) p d"
| stacks: "hub_run h0 h p d \<Longrightarrow> eh_profile h = Some st \<Longrightarrow> hub_run h0 (h\<lparr>eh_profile := Some st'\<rparr>) p d"
| take_spans: "hub_run h0 h p d \<Longrightarrow> queue_take_all (eh_spans h) = (batch, q) \<Longrightarrow>
    hub_run h0 (h\<lparr>eh_spans := q\<rparr>) (length batch # p) d"
| metrics_answer: "hub_run h0 h p d \<Longrightarrow> hub_run h0 (post_otlp ok None h) p d"
| no_spans: "hub_run h0 h (0 # p) d \<Longrightarrow> hub_run h0 h p d"
| spans_delivered: "hub_run h0 h (n # p) d \<Longrightarrow> hub_run h0 (post_otlp True (Some n) h) p (d + n)"
| spans_failed: "hub_run h0 h (n # p) d \<Longrightarrow> hub_run h0 (post_otlp False (Some n) h) p d"

text \<open>A tick of the flush task that nothing interrupts is such a run.\<close>

lemma flush_tick_run:
  assumes "hub_run h0 h [] d" "traces_url \<noteq> None"
  shows "hub_run h0 (snd (flush_tick js sf now_unix metrics_url traces_url mok tok h)) []
    (d + (if tok then length (sq_q (eh_spans h)) else 0))"
proof -
  let ?n = "length (sq_q (eh_spans h))"
  let ?h = "h\<lparr>eh_spans := (eh_spans h)\<lparr>sq_q := []\<rparr>\<rparr>"
  have taken: "hub_run h0 ?h [?n] d"
    using take_spans [OF assms(1)] by (simp add: queue_take_all_def)
  then have metrics: "hub_run h0 (post_otlp mok None ?h) [?n] d"
    by (rule metrics_answer)
  have spans: "hub_run h0 (if ?n = 0 then g else post_otlp tok (Some ?n) g) [] (d + (if tok then ?n else 0))"
    if "hub_run h0 g [?n] d" for g
    using that no_spans [of h0 g "[]" d] spans_delivered [OF that] spans_failed [OF that] by (cases tok; cases "?n = 0") simp_all
  show ?thesis
    using assms(2) spans [OF taken] spans [OF metrics]
    by (auto simp: flush_tick_def queue_take_all_def Let_def split: option.splits if_splits)
qed

text \<open>The invariant, with \<open>k\<close> exchanges counted whose span has not met its fate yet.\<close>

definition hub_but :: "nat \<Rightarrow> ExportHub \<Rightarrow> nat list \<Rightarrow> nat \<Rightarrow> bool" where
  "hub_but k h p d \<longleftrightarrow> metrics_inv (eh_registry h) \<and> series.capped (eh_registry h) \<and>
    eh_http_total h = total_requests (eh_registry h) \<and> eh_http_errors h \<le> eh_http_total h \<and>
    eh_http_errors h = total_errors (eh_registry h) \<and>
    mg_traces_sampled (eh_registry h) = eh_traces_sampled h \<and>
    mg_traces_not_sampled (eh_registry h) = eh_traces_not_sampled h \<and>
    mg_traces_dropped (eh_registry h) = eh_traces_dropped h \<and>
    mg_traces_export_failed (eh_registry h) = eh_traces_export_failed h \<and>
    mg_otlp_flushes_ok (eh_registry h) = eh_exported h \<and> mg_otlp_dropped (eh_registry h) = eh_dropped h \<and>
    sq_cap (eh_spans h) = SPAN_QUEUE_CAP \<and> length (sq_q (eh_spans h)) \<le> SPAN_QUEUE_CAP \<and>
    sq_dropped (eh_spans h) = eh_traces_dropped h \<and>
    (if eh_enabled h then eh_traces_sampled h + eh_traces_not_sampled h + eh_traces_dropped h + k = eh_http_total h
     else eh_traces_sampled h + eh_traces_not_sampled h + eh_traces_dropped h = 0) \<and>
    eh_traces_sampled h = length (sq_q (eh_spans h)) + sum_list p + d + eh_traces_export_failed h"

abbreviation hub_inv :: "ExportHub \<Rightarrow> nat list \<Rightarrow> nat \<Rightarrow> bool" where
  "hub_inv \<equiv> hub_but 0"

lemma registry_updates [simp]:
  "metrics_inv (r\<lparr>mg_events_dropped := n\<rparr>) = metrics_inv r" "metrics_inv (r\<lparr>mg_edge_count := n\<rparr>) = metrics_inv r"
  "metrics_inv (r\<lparr>mg_tls_unmapped := n\<rparr>) = metrics_inv r" "metrics_inv (r\<lparr>mg_sample_n := sn\<rparr>) = metrics_inv r"
  "metrics_inv (r\<lparr>mg_traces_sampled := n\<rparr>) = metrics_inv r" "metrics_inv (r\<lparr>mg_traces_not_sampled := n\<rparr>) = metrics_inv r"
  "metrics_inv (r\<lparr>mg_traces_dropped := n\<rparr>) = metrics_inv r" "metrics_inv (r\<lparr>mg_otlp_flushes_ok := n\<rparr>) = metrics_inv r"
  "metrics_inv (r\<lparr>mg_traces_export_failed := n\<rparr>) = metrics_inv r" "metrics_inv (r\<lparr>mg_otlp_dropped := n\<rparr>) = metrics_inv r"
  by (simp_all add: metrics_inv_def)

lemma registry_totals [simp]:
  "total_requests (r\<lparr>mg_events_dropped := n\<rparr>) = total_requests r" "total_requests (r\<lparr>mg_edge_count := n\<rparr>) = total_requests r"
  "total_requests (r\<lparr>mg_tls_unmapped := n\<rparr>) = total_requests r" "total_requests (r\<lparr>mg_sample_n := sn\<rparr>) = total_requests r"
  "total_requests (r\<lparr>mg_traces_sampled := n\<rparr>) = total_requests r"
  "total_requests (r\<lparr>mg_traces_not_sampled := n\<rparr>) = total_requests r"
  "total_requests (r\<lparr>mg_traces_dropped := n\<rparr>) = total_requests r"
  "total_requests (r\<lparr>mg_otlp_flushes_ok := n\<rparr>) = total_requests r"
  "total_requests (r\<lparr>mg_traces_export_failed := n\<rparr>) = total_requests r"
  "total_requests (r\<lparr>mg_otlp_dropped := n\<rparr>) = total_requests r"
  "total_requests (registry_record_handshake ns r) = total_requests r"
  by (simp_all add: total_requests_def registry_record_handshake_def)

lemma registry_errors [simp]:
  "total_errors (r\<lparr>mg_events_dropped := n\<rparr>) = total_errors r" "total_errors (r\<lparr>mg_edge_count := n\<rparr>) = total_errors r"
  "total_errors (r\<lparr>mg_tls_unmapped := n\<rparr>) = total_errors r" "total_errors (r\<lparr>mg_sample_n := sn\<rparr>) = total_errors r"
  "total_errors (r\<lparr>mg_traces_sampled := n\<rparr>) = total_errors r"
  "total_errors (r\<lparr>mg_traces_not_sampled := n\<rparr>) = total_errors r"
  "total_errors (r\<lparr>mg_traces_dropped := n\<rparr>) = total_errors r"
  "total_errors (r\<lparr>mg_otlp_flushes_ok := n\<rparr>) = total_errors r"
  "total_errors (r\<lparr>mg_traces_export_failed := n\<rparr>) = total_errors r"
  "total_errors (r\<lparr>mg_otlp_dropped := n\<rparr>) = total_errors r"
  "total_errors (registry_record_handshake ns r) = total_errors r"
  by (simp_all add: total_errors_def registry_record_handshake_def)

lemma registry_capped [simp]:
  "series.capped (r\<lparr>mg_events_dropped := n\<rparr>) = series.capped r" "series.capped (r\<lparr>mg_edge_count := n\<rparr>) = series.capped r"
  "series.capped (r\<lparr>mg_tls_unmapped := n\<rparr>) = series.capped r" "series.capped (r\<lparr>mg_sample_n := sn\<rparr>) = series.capped r"
  "series.capped (r\<lparr>mg_traces_sampled := n\<rparr>) = series.capped r"
  "series.capped (r\<lparr>mg_traces_not_sampled := n\<rparr>) = series.capped r"
  "series.capped (r\<lparr>mg_traces_dropped := n\<rparr>) = series.capped r"
  "series.capped (r\<lparr>mg_otlp_flushes_ok := n\<rparr>) = series.capped r"
  "series.capped (r\<lparr>mg_traces_export_failed := n\<rparr>) = series.capped r"
  "series.capped (r\<lparr>mg_otlp_dropped := n\<rparr>) = series.capped r"
  "series.capped (registry_record_handshake ns r) = series.capped r"
  by (simp_all add: series.capped_def registry_record_handshake_def)

lemma record_counters [simp]:
  "mg_traces_sampled (MetricsRegistry_record obs r) = mg_traces_sampled r"
  "mg_traces_not_sampled (MetricsRegistry_record obs r) = mg_traces_not_sampled r"
  "mg_traces_dropped (MetricsRegistry_record obs r) = mg_traces_dropped r"
  "mg_traces_export_failed (MetricsRegistry_record obs r) = mg_traces_export_failed r"
  "mg_otlp_flushes_ok (MetricsRegistry_record obs r) = mg_otlp_flushes_ok r"
  "mg_otlp_dropped (MetricsRegistry_record obs r) = mg_otlp_dropped r"
  by (simp_all add: MetricsRegistry_record_def Let_def split: option.split)

lemma handshake_counters [simp]:
  "mg_traces_sampled (registry_record_handshake ns r) = mg_traces_sampled r"
  "mg_traces_not_sampled (registry_record_handshake ns r) = mg_traces_not_sampled r"
  "mg_traces_dropped (registry_record_handshake ns r) = mg_traces_dropped r"
  "mg_traces_export_failed (registry_record_handshake ns r) = mg_traces_export_failed r"
  "mg_otlp_flushes_ok (registry_record_handshake ns r) = mg_otlp_flushes_ok r"
  "mg_otlp_dropped (registry_record_handshake ns r) = mg_otlp_dropped r"
  by (simp_all add: registry_record_handshake_def)

lemma metrics_inv_handshake: "metrics_inv r \<Longrightarrow> metrics_inv (registry_record_handshake ns r)"
  by (simp add: metrics_inv_def registry_record_handshake_def stats_wf_record)

lemma count_exchange_counted:
  assumes "hub_inv h p d"
  shows "hub_but 1 (count_exchange obs h) p d"
  using assms metrics_inv_record [of "eh_registry h" obs] series.capped_step [of "eh_registry h" obs]
  by (cases "eh_enabled h") (auto simp: hub_but_def count_exchange_def total_record errors_record)

lemma profile_join_counted:
  assumes "hub_but 1 h p d" "try_profile_join tgid a b l h = (frames, h')"
  shows "hub_but 1 h' p d"
  using assms by (auto simp: try_profile_join_def hub_but_def split: option.splits prod.splits if_splits)

lemma queue_span_inv:
  assumes "hub_but 1 h p d" "eh_enabled h"
  shows "hub_inv (queue_span m hs sp h) p d"
proof (cases "SPAN_QUEUE_CAP \<le> length (sq_q (eh_spans h))")
  case True
  then show ?thesis
    using assms by (simp add: queue_span_def queue_push_def hub_but_def)
next
  case False
  then show ?thesis
    using assms by (simp add: queue_span_def queue_push_def hub_but_def Let_def)
qed

lemma no_span_inv:
  "hub_but 1 h p d \<Longrightarrow> \<not> eh_enabled h \<Longrightarrow> hub_inv h p d"
  "hub_but 1 h p d \<Longrightarrow> eh_enabled h \<Longrightarrow> hub_inv (h\<lparr>eh_traces_not_sampled := eh_traces_not_sampled h + 1,
    eh_registry := (eh_registry h)\<lparr>mg_traces_not_sampled := mg_traces_not_sampled (eh_registry h) + 1\<rparr>\<rparr>) p d"
  by (auto simp: hub_but_def)

lemma record_exchange_inv:
  assumes "hub_inv h p d"
  shows "hub_inv (record_exchange now_unix src dst verb route latency status protocol wire m now h) p d"
proof -
  define obs where "obs = \<lparr>ob_src = src, ob_dst = DstId_label dst, ob_method = verb, ob_route = route, ob_latency_ns = latency,
    ob_status = status, ob_protocol = protocol, ob_wire_ns = wire\<rparr>"
  obtain frames g where g: "try_profile_join (tm_tgid m) (tm_t_start_ns m) (sat_add (tm_t_start_ns m) latency) latency
      (count_exchange obs h) = (frames, g)"
    by force
  have c: "hub_but 1 g p d"
    by (rule profile_join_counted [OF count_exchange_counted [OF assms] g])
  obtain hn hs where pk: "hs_peek_preceding (tm_tgid m) (tm_fd m) (tm_t_start_ns m) now (eh_handshake g) = (hn, hs)"
    by force
  have hs: "hub_but 1 (g\<lparr>eh_handshake := hs\<rparr>) p d"
    using c by (cases "eh_enabled g") (auto simp: hub_but_def)
  show ?thesis
    unfolding record_exchange_def Let_def obs_def [symmetric] g prod.case pk
    using no_span_inv [OF c] queue_span_inv [OF hs] by simp
qed

lemma post_otlp_inv:
  "hub_inv h p d \<Longrightarrow> hub_inv (post_otlp ok None h) p d"
  "hub_inv h (n # p) d \<Longrightarrow> hub_inv (post_otlp True (Some n) h) p (d + n)"
  "hub_inv h (n # p) d \<Longrightarrow> hub_inv (post_otlp False (Some n) h) p d"
  by (auto simp: post_otlp_def hub_but_def Let_def split: if_splits)

lemma spawn_inv: "hub_inv (ExportHub_spawn env built t prof) [] 0"
proof -
  have "metrics_inv (MetricsRegistry_new t)" "series.capped (MetricsRegistry_new t)" "total_requests (MetricsRegistry_new t) = 0"
    "total_errors (MetricsRegistry_new t) = 0"
    using metrics_inv_run [of t "[]"]
    by (simp_all add: series.capped_def total_requests_def total_errors_def MetricsRegistry_new_def)
  then show ?thesis
    by (simp add: hub_but_def ExportHub_spawn_def Let_def MetricsRegistry_new_def SpanQueue_new_def)
qed

lemma hub_run_inv: "hub_run (ExportHub_spawn env built t prof) h p d \<Longrightarrow> hub_inv h p d"
proof (induction rule: hub_run.induct)
  case start
  show ?case
    by (rule spawn_inv)
next
  case (exchange h p d)
  then show ?case
    by (intro record_exchange_inv)
next
  case (handshake h p d)
  then show ?case
    by (auto simp: note_handshake_def hub_record_handshake_def Let_def hub_but_def metrics_inv_handshake split: if_splits)
next
  case (latency_only h p d)
  then show ?case
    by (auto simp: hub_record_handshake_def hub_but_def metrics_inv_handshake split: if_splits)
next
  case (take_spans h p d batch q)
  then show ?case
    by (auto simp: hub_but_def queue_take_all_def split: if_splits)
next
  case (metrics_answer h p d)
  then show ?case
    by (intro post_otlp_inv(1))
next
  case (spans_delivered h n p d)
  then show ?case
    by (intro post_otlp_inv(2))
next
  case (spans_failed h n p d)
  then show ?case
    by (intro post_otlp_inv(3))
qed (auto simp: hub_but_def evict_handshake_def set_events_dropped_def set_edge_count_def set_tls_unmapped_def
    set_bpf_sample_n_def split: if_splits)

text \<open>C18. No exchange and no span is lost silently, however the drain path, the flush task and the answers of the
  collector interleave. In every run of a fresh hub: the exchange counter is the number of requests in the metrics; with
  export enabled every exchange is sampled, left out by sampling or counted as dropped by the full queue, and every
  sampled span is queued, in flight, delivered or counted as failed; with export disabled none is queued or counted;
  the counters in the exported metrics are the hub's own; the queue and the series stay within their caps.\<close>

theorem export_accounting:
  assumes "hub_run (ExportHub_spawn env built t prof) h p d"
  shows "eh_http_total h = total_requests (eh_registry h) \<and>
    eh_traces_sampled h + eh_traces_not_sampled h + eh_traces_dropped h = (if eh_enabled h then eh_http_total h else 0) \<and>
    eh_traces_sampled h = length (sq_q (eh_spans h)) + sum_list p + d + eh_traces_export_failed h \<and>
    mg_traces_sampled (eh_registry h) = eh_traces_sampled h \<and>
    mg_traces_not_sampled (eh_registry h) = eh_traces_not_sampled h \<and>
    mg_traces_dropped (eh_registry h) = eh_traces_dropped h \<and>
    mg_traces_export_failed (eh_registry h) = eh_traces_export_failed h \<and>
    length (sq_q (eh_spans h)) \<le> SPAN_QUEUE_CAP \<and> series_len (eh_registry h) \<le> MAX_SERIES + 1"
  using hub_run_inv [OF assms] series.capped_bound [of "eh_registry h"]
  by (auto simp: hub_but_def series_len_def split: if_splits)

definition demo_env :: "string \<Rightarrow> string option" where
  "demo_env v = (if v = ''OBSAGENT_OTLP'' then Some ''1'' else if v = ''OBSAGENT_TRACE_SAMPLE'' then Some ''1'' else None)"

definition demo_hub :: ExportHub where
  "demo_hub = record_exchange 9 ''web'' (Pod ''demo'' ''api'') ''GET'' ''/'' 500 200 ''http1'' None demo_meta 5
    (ExportHub_spawn demo_env True 1 None)"

lemma demo_hub_run: "hub_run (ExportHub_spawn demo_env True 1 None) demo_hub [] 0"
  unfolding demo_hub_def by (intro hub_run.exchange hub_run.start)

lemma queue_span_keeps [simp]:
  "eh_http_total (queue_span m hn sp h) = eh_http_total h" "eh_enabled (queue_span m hn sp h) = eh_enabled h"
  "eh_http_errors (queue_span m hn sp h) = eh_http_errors h"
  by (simp_all add: queue_span_def Let_def split: prod.split bool.split)

lemma try_profile_join_keeps:
  "eh_http_total (snd (try_profile_join tgid a b l h)) = eh_http_total h"
  "eh_enabled (snd (try_profile_join tgid a b l h)) = eh_enabled h"
  "eh_http_errors (snd (try_profile_join tgid a b l h)) = eh_http_errors h"
  by (simp_all add: try_profile_join_def split: prod.split option.split)

lemma record_exchange_keeps:
  "eh_http_total (record_exchange now_unix src dst verb route latency status protocol wire m now h) = eh_http_total h + 1"
  "eh_enabled (record_exchange now_unix src dst verb route latency status protocol wire m now h) = eh_enabled h"
  "eh_http_errors (record_exchange now_unix src dst verb route latency status protocol wire m now h) =
    eh_http_errors h + (if status \<ge> 500 then 1 else 0)"
  by (simp_all add: record_exchange_def Let_def case_prod_beta try_profile_join_keeps count_exchange_def)

lemma hub_counters_kept [simp]:
  "eh_http_total (note_handshake tgid fd l ts now h) = eh_http_total h" "eh_http_errors (note_handshake tgid fd l ts now h) = eh_http_errors h"
  "eh_http_total (evict_handshake now op1 h) = eh_http_total h" "eh_http_errors (evict_handshake now op1 h) = eh_http_errors h"
  "eh_http_total (set_events_dropped n h) = eh_http_total h" "eh_http_errors (set_events_dropped n h) = eh_http_errors h"
  "eh_http_total (set_edge_count n h) = eh_http_total h" "eh_http_errors (set_edge_count n h) = eh_http_errors h"
  "eh_http_total (set_tls_unmapped n h) = eh_http_total h" "eh_http_errors (set_tls_unmapped n h) = eh_http_errors h"
  "eh_http_total (set_bpf_sample_n sn h) = eh_http_total h" "eh_http_errors (set_bpf_sample_n sn h) = eh_http_errors h"
  "eh_http_total (post_otlp ok nf h) = eh_http_total h" "eh_http_errors (post_otlp ok nf h) = eh_http_errors h"
  by (simp_all add: note_handshake_def hub_record_handshake_def evict_handshake_def set_events_dropped_def set_edge_count_def
      set_tls_unmapped_def set_bpf_sample_n_def post_otlp_def Let_def)

lemma flush_tick_kept [simp]:
  "eh_http_total (snd (flush_tick js sf t mu tu mok tok h)) = eh_http_total h"
  "eh_http_errors (snd (flush_tick js sf t mu tu mok tok h)) = eh_http_errors h"
  by (simp_all add: flush_tick_def queue_take_all_def Let_def split: option.split)

lemma demo_hub_facts: "eh_enabled (ExportHub_spawn demo_env True 1 None)" "eh_enabled demo_hub" "eh_http_total demo_hub = 1"
proof -
  show "eh_enabled (ExportHub_spawn demo_env True 1 None)"
    by (simp add: ExportHub_spawn_def otlp_metrics_url_def demo_env_def Let_def)
  then show "eh_enabled demo_hub" "eh_http_total demo_hub = 1"
    by (simp_all add: demo_hub_def record_exchange_keeps) (simp add: ExportHub_spawn_def Let_def)
qed

theorem export_accounting_witness:
  "total_requests (eh_registry demo_hub) = 1 \<and>
    eh_traces_sampled demo_hub + eh_traces_not_sampled demo_hub + eh_traces_dropped demo_hub = 1"
  using export_accounting [OF demo_hub_run] demo_hub_facts(2,3) by simp

section \<open>The flush\<close>

lemma spawn_traces_url: "eh_enabled (ExportHub_spawn env built t prof) \<Longrightarrow> otlp_traces_url env \<noteq> None"
  by (auto simp: ExportHub_spawn_def otlp_traces_url_def Let_def split: option.splits if_splits)

lemma post_otlp_spans [simp]: "eh_spans (post_otlp ok n h) = eh_spans h"
  by (simp add: post_otlp_def Let_def)

lemma flush_tick_posts:
  assumes "flush_tick js sf now_unix mu (Some url) mok tok h = (posts, h')"
  shows "posts = (case mu of None \<Rightarrow> [] | Some u \<Rightarrow>
      if has_otlp_payload (eh_registry h) then [(u, to_otlp_json js sf now_unix (eh_registry h))] else []) @
    (if sq_q (eh_spans h) = [] then [] else [(url, to_otlp_traces_json js (sq_q (eh_spans h)))]) \<and>
    sq_q (eh_spans h') = []"
  using assms by (cases mu; cases "has_otlp_payload (eh_registry h)"; cases "sq_q (eh_spans h) = []")
    (auto simp: flush_tick_def queue_take_all_def Let_def)

text \<open>C19. What the flush task posts is well formed and complete. In every run of a hub with export enabled, each body of a
  tick is JSON by the grammar and the tick empties the span queue. If there were spans, the traces URL exists and one
  body is posted to it: it has one resource per service, in the order of their first spans, and the resource of a service
  holds the texts of exactly its queued spans, in the order of the queue, each of which starts with the span's
  identifiers and name. This is given that the string encoder yields JSON strings and the printing of a non-negative number
  a JSON number.\<close>

theorem flush_bodies_json:
  assumes "hub_run (ExportHub_spawn env built t prof) h p d" "encoders_ok js sf"
    and "eh_enabled (ExportHub_spawn env built t prof)"
    and "flush_tick js sf now_unix (otlp_metrics_url env) (otlp_traces_url env) mok tok h = (posts, h')"
    and "sq_q (eh_spans h) = spans"
  shows "(\<forall>post \<in> set posts. json_text (snd post)) \<and> sq_q (eh_spans h') = [] \<and>
    (spans \<noteq> [] \<longrightarrow> (\<exists>url body. otlp_traces_url env = Some url \<and> (url, body) \<in> set posts \<and>
      body = jobj [jfield ''resourceSpans'' (jarr (map (\<lambda>svc. service_text js svc (filter (\<lambda>s. span_service s = svc) spans))
        (rev (remdups (rev (map span_service spans))))))])) \<and>
    (\<forall>s \<in> set spans. \<exists>rest. span_json js s = ''{'' @ jfield ''traceId'' (quoted (hex_lower (sr_trace_id s))) @ '','' @
      jfield ''spanId'' (quoted (hex_lower (sr_span_id s))) @ '','' @ jfield ''name'' (js (sr_name s)) @ '','' @ rest)"
proof -
  have js: "json_string (js s)" for s
    using assms(2) by (simp add: encoders_ok_def)
  have "metrics_inv (eh_registry h)"
    using hub_run_inv [OF assms(1)] by (simp add: hub_but_def)
  then have "json_text (to_otlp_json js sf now_unix (eh_registry h))"
    by (rule otlp_json_text [OF assms(2)])
  moreover have "json_text (to_otlp_traces_json js (sq_q (eh_spans h)))"
    by (rule otlp_traces_json) (rule js)
  moreover obtain url where url: "otlp_traces_url env = Some url"
    using spawn_traces_url [OF assms(3)] by blast
  ultimately have posts: "(\<forall>post \<in> set posts. json_text (snd post)) \<and> sq_q (eh_spans h') = [] \<and>
      (spans \<noteq> [] \<longrightarrow> (url, to_otlp_traces_json js spans) \<in> set posts)"
    using flush_tick_posts [OF assms(4) [unfolded url]] assms(5) by (simp add: Ball_def split: option.split)
  then show ?thesis
    using url span_json_ids [of js] unfolding traces_json_groups services_in_order_def by blast
qed

lemma demo_hub_span: "length (sq_q (eh_spans demo_hub)) = 1"
proof -
  let ?h = "ExportHub_spawn demo_env True 1 None"
  have sample: "sample_n_from_env demo_env \<le> 1"
    by (simp add: sample_n_from_env_def demo_env_def parse_unsigned_def is_ascii_digit_def read_nat_def digit_of_def)
  have "eh_enabled ?h" "eh_sample_n ?h \<le> 1" "eh_profile ?h = None" "eh_spans ?h = SpanQueue_new SPAN_QUEUE_CAP"
    using demo_hub_facts(1) sample by (simp_all add: ExportHub_spawn_def Let_def)
  then show ?thesis
    unfolding demo_hub_def record_exchange_def Let_def
    by (simp add: count_exchange_def try_profile_join_def sampled_span_def queue_span_def queue_push_def SpanQueue_new_def
        SPAN_QUEUE_CAP_def case_prod_beta Let_def)
qed

theorem flush_bodies_json_witness:
  "\<exists>url body. (url, body) \<in> set (fst (flush_tick demo_json_str demo_show_f64 9 (otlp_metrics_url demo_env)
      (otlp_traces_url demo_env) True False demo_hub)) \<and> json_text body \<and>
    body = jobj [jfield ''resourceSpans'' (jarr (map (\<lambda>svc. service_text demo_json_str svc
      (filter (\<lambda>s. span_service s = svc) (sq_q (eh_spans demo_hub)))) (rev (remdups (rev (map span_service (sq_q (eh_spans demo_hub))))))))]"
proof -
  have ne: "sq_q (eh_spans demo_hub) \<noteq> []"
    using demo_hub_span by auto
  note flushed = flush_bodies_json [OF demo_hub_run demo_encoders demo_hub_facts(1) prod.collapse [symmetric] refl, of 9 True False]
  obtain url body where "(url, body) \<in> set (fst (flush_tick demo_json_str demo_show_f64 9 (otlp_metrics_url demo_env)
      (otlp_traces_url demo_env) True False demo_hub))"
    "body = jobj [jfield ''resourceSpans'' (jarr (map (\<lambda>svc. service_text demo_json_str svc
      (filter (\<lambda>s. span_service s = svc) (sq_q (eh_spans demo_hub)))) (rev (remdups (rev (map span_service (sq_q (eh_spans demo_hub))))))))]"
    using flushed [THEN conjunct2, THEN conjunct2, THEN conjunct1, rule_format, OF ne] by blast
  moreover from this(1) have "json_text body"
    using flushed [THEN conjunct1] by (metis snd_conv)
  ultimately show ?thesis
    by blast
qed

section \<open>URLs\<close>

lemma with_suffix_ends: "ends_with (with_suffix suffix base) suffix"
  by (simp add: with_suffix_def Let_def ends_with_def)

text \<open>Only the first \<open>/v1/metrics\<close> of a URL is rewritten: an endpoint that has one in its path keeps the metrics
  suffix at its end, and spans are posted to the metrics path.\<close>

theorem traces_url_keeps_metrics_suffix:
  "otlp_traces_url (\<lambda>v. if v = ''OTEL_EXPORTER_OTLP_ENDPOINT'' then Some ''http://gw/v1/metrics/eu'' else None) =
    Some ''http://gw/v1/traces/eu/v1/metrics''"
  by code_simp

end
