(* ===== verification/Probes.thy ===== *)
theory Probes
  imports Decode
begin

text \<open>
  The kernel programs (\<open>src/ebpf/src/main.rs\<close>). The maps and ring buffers are one state record; what a program
  reads from the kernel (the current task, the clock, the random number, user memory, its arguments) is a context
  record, a parameter of the run. A hash map holds at most \<open>PENDING_MAP_ENTRIES\<close> keys and refuses a new
  key when full; an array map of one entry is a field. Each program runs to its end before the next one starts. A program
  returns whether it ended with \<open>Ok\<close> (the error numbers never leave the program) and the new state.
\<close>

section \<open>State and context\<close>

record Bpf =
  b_pending :: "(u32, PendingEnter) hashmap"
  b_pending_io :: "(u32, PendingIo) hashmap"
  b_pending_tls :: "(u32, PendingTls) hashmap"
  b_pending_tls_ex :: "(u32, PendingTls) hashmap"
  b_sock_meta :: "(u64, SockMeta) hashmap"
  b_ssl_fd :: "(u64, i32) hashmap"
  b_fd_ssl :: "(u64, u64) hashmap"
  b_tls_fds :: "(u64, u8) hashmap"
  b_inflight :: "(u64, u8) hashmap"
  b_events :: "DecodedEvent list"
  b_stacks :: "StackSampleEvent list"
  b_drops :: u64
  b_stack_drops :: u64
  b_sample_n :: u32
  b_denied_tgid :: "(u32, u8) hashmap"
  b_allowed_tgid :: "(u32, u8) hashmap"
  b_allow_only :: u32
  b_tls_unmapped :: u64
  b_unmapped_seen :: "(u64, u8) hashmap"
  b_handshake_start :: "(u64, u64) hashmap"
  b_pending_hs :: "(u32, u64) hashmap"

text \<open>The maps as loaded.\<close>

definition Bpf_init :: Bpf where
  "Bpf_init = \<lparr>b_pending = [], b_pending_io = [], b_pending_tls = [], b_pending_tls_ex = [], b_sock_meta = [], b_ssl_fd = [],
    b_fd_ssl = [], b_tls_fds = [], b_inflight = [], b_events = [], b_stacks = [], b_drops = 0, b_stack_drops = 0,
    b_sample_n = 0, b_denied_tgid = [], b_allowed_tgid = [], b_allow_only = 0, b_tls_unmapped = 0, b_unmapped_seen = [],
    b_handshake_start = [], b_pending_hs = []\<rparr>"

text \<open>
  \<open>cx_mem\<close> is the task's memory, byte by byte, \<open>None\<close> where a read faults; \<open>cx_room\<close> says whether the ring
  buffer has room; \<open>cx_at\<close> is a tracepoint field by its offset, \<open>cx_arg\<close> a probed function's argument,
  \<open>cx_ret\<close> its result; \<open>cx_stack\<close> is the answer of \<open>bpf_get_stack\<close> and the buffer it filled.
\<close>

record Ctx =
  cx_pid_tgid :: u64
  cx_ktime :: u64
  cx_prandom :: u32
  cx_cgroup :: u64
  cx_mem :: "u64 \<Rightarrow> u8 option"
  cx_room :: bool
  cx_at :: "nat \<Rightarrow> u64 option"
  cx_arg :: "nat \<Rightarrow> u64 option"
  cx_ret :: i64
  cx_stack :: "i64 \<times> bytes"

definition ENTER_FD_OFF :: nat where "ENTER_FD_OFF = 16"

definition ENTER_SOCKADDR_OFF :: nat where "ENTER_SOCKADDR_OFF = 24"

definition ENTER_BUF_OFF :: nat where "ENTER_BUF_OFF = 24"

definition EXIT_RET_OFF :: nat where "EXIT_RET_OFF = 16"

text \<open>\<open>bpf_map_update_elem\<close>: with flags 0 it inserts or replaces, with \<open>BPF_EXIST\<close> it only replaces.\<close>

definition map_insert :: "'k \<Rightarrow> 'v \<Rightarrow> ('k, 'v) hashmap \<Rightarrow> ('k, 'v) hashmap option" where
  "map_insert k v m =
    (if hm_get m k = None \<and> length m \<ge> PENDING_MAP_ENTRIES then None else Some (hm_insert k v m))"

definition map_put :: "'k \<Rightarrow> 'v \<Rightarrow> ('k, 'v) hashmap \<Rightarrow> ('k, 'v) hashmap" where
  "map_put k v m = (case map_insert k v m of None \<Rightarrow> m | Some m' \<Rightarrow> m')"

definition map_replace :: "'k \<Rightarrow> 'v \<Rightarrow> ('k, 'v) hashmap \<Rightarrow> ('k, 'v) hashmap" where
  "map_replace k v m = (if hm_get m k = None then m else hm_insert k v m)"

definition read_user :: "Ctx \<Rightarrow> u64 \<Rightarrow> nat \<Rightarrow> bytes option" where
  "read_user cx p n =
    (let bs = map (\<lambda>i. cx_mem cx (p + of_nat i)) [0..<n] in if None \<in> set bs then None else Some (map the bs))"

section \<open>Helpers\<close>

definition tid :: "Ctx \<Rightarrow> u32" where
  "tid cx = ucast (cx_pid_tgid cx)"

definition pid_tgid :: "Ctx \<Rightarrow> u32 \<times> u32" where
  "pid_tgid cx = (ucast (drop_bit 32 (cx_pid_tgid cx)), ucast (cx_pid_tgid cx))"

abbreviation cur_tgid :: "Ctx \<Rightarrow> u32" where
  "cur_tgid cx \<equiv> fst (pid_tgid cx)"

definition sock_fd_key :: "u32 \<Rightarrow> u32 \<Rightarrow> u64" where
  "sock_fd_key tgid fd = push_bit 32 (ucast tgid) OR ucast fd"

definition is_denied :: "Bpf \<Rightarrow> u32 \<Rightarrow> bool" where
  "is_denied b tgid \<longleftrightarrow> hm_get (b_denied_tgid b) tgid \<noteq> None"

definition allow_only_mode :: "Bpf \<Rightarrow> bool" where
  "allow_only_mode b \<longleftrightarrow> b_allow_only b \<noteq> 0"

definition tgid_captured :: "Bpf \<Rightarrow> u32 \<Rightarrow> bool" where
  "tgid_captured b tgid \<longleftrightarrow>
    (if allow_only_mode b then hm_get (b_allowed_tgid b) tgid \<noteq> None else \<not> is_denied b tgid)"

definition draw_keep_io :: "Ctx \<Rightarrow> Bpf \<Rightarrow> bool" where
  "draw_keep_io cx b = (let n = b_sample_n b in if n \<le> 1 then True else cx_prandom cx mod n = 0)"

definition apply_keep_io_flags :: "Ctx \<Rightarrow> Bpf \<Rightarrow> SockMeta \<Rightarrow> SockMeta" where
  "apply_keep_io_flags cx b meta = set_io_keep meta (draw_keep_io cx b)"

definition mark_sock_meta :: "Ctx \<Rightarrow> i64 \<Rightarrow> SockMeta \<Rightarrow> Bpf \<Rightarrow> Bpf" where
  "mark_sock_meta cx fd meta b =
    (if sint fd < 0 \<or> sint fd > 0xFFFFFFFF then b
     else if \<not> tgid_captured b (cur_tgid cx) then b
     else
       let key = sock_fd_key (cur_tgid cx) (ucast fd);
           old = hm_get (b_sock_meta b) key;
           meta = merge_peer_preserve_sample meta old;
           meta = (if Option.bind old io_sampled_keep = None then apply_keep_io_flags cx b meta else meta)
       in b\<lparr>b_sock_meta := map_put key meta (b_sock_meta b)\<rparr>)"

definition clear_ssl_for_fd_key :: "u64 \<Rightarrow> i32 \<Rightarrow> Bpf \<Rightarrow> Bpf" where
  "clear_ssl_for_fd_key key fd b =
    (case hm_get (b_fd_ssl b) key of
       None \<Rightarrow> b
     | Some ssl \<Rightarrow>
       let b = b\<lparr>b_fd_ssl := hm_remove key (b_fd_ssl b), b_handshake_start := hm_remove ssl (b_handshake_start b),
             b_unmapped_seen := hm_remove ssl (b_unmapped_seen b)\<rparr>
       in if hm_get (b_ssl_fd b) ssl = Some fd then b\<lparr>b_ssl_fd := hm_remove ssl (b_ssl_fd b)\<rparr> else b)"

definition unmark_sock_fd :: "Ctx \<Rightarrow> u32 \<Rightarrow> Bpf \<Rightarrow> Bpf" where
  "unmark_sock_fd cx fd b =
    (let key = sock_fd_key (cur_tgid cx) fd
     in clear_ssl_for_fd_key key fd
          (b\<lparr>b_sock_meta := hm_remove key (b_sock_meta b), b_tls_fds := hm_remove key (b_tls_fds b),
             b_inflight := hm_remove key (b_inflight b)\<rparr>))"

definition unlink_fd_ssl :: "u64 \<Rightarrow> u64 \<Rightarrow> Bpf \<Rightarrow> Bpf" where
  "unlink_fd_ssl key ssl b =
    (if hm_get (b_fd_ssl b) key = Some ssl
     then b\<lparr>b_fd_ssl := hm_remove key (b_fd_ssl b), b_tls_fds := hm_remove key (b_tls_fds b)\<rparr> else b)"

definition clear_ssl_ptr :: "Ctx \<Rightarrow> u64 \<Rightarrow> Bpf \<Rightarrow> Bpf" where
  "clear_ssl_ptr cx ssl b =
    (if ssl = 0 then b
     else
       let b = b\<lparr>b_handshake_start := hm_remove ssl (b_handshake_start b), b_unmapped_seen := hm_remove ssl (b_unmapped_seen b)\<rparr>
       in case hm_get (b_ssl_fd b) ssl of
            None \<Rightarrow> b
          | Some fd \<Rightarrow>
            let b = b\<lparr>b_ssl_fd := hm_remove ssl (b_ssl_fd b)\<rparr>
            in if sint fd < 0 then b else unlink_fd_ssl (sock_fd_key (cur_tgid cx) fd) ssl b)"

definition is_marked_sock_fd :: "Ctx \<Rightarrow> Bpf \<Rightarrow> u32 \<Rightarrow> bool" where
  "is_marked_sock_fd cx b fd \<longleftrightarrow> hm_get (b_sock_meta b) (sock_fd_key (cur_tgid cx) fd) \<noteq> None"

definition is_tls_fd :: "Ctx \<Rightarrow> Bpf \<Rightarrow> u32 \<Rightarrow> bool" where
  "is_tls_fd cx b fd \<longleftrightarrow> hm_get (b_tls_fds b) (sock_fd_key (cur_tgid cx) fd) \<noteq> None"

definition is_inflight :: "Ctx \<Rightarrow> Bpf \<Rightarrow> u32 \<Rightarrow> bool" where
  "is_inflight cx b fd \<longleftrightarrow> hm_get (b_inflight b) (sock_fd_key (cur_tgid cx) fd) \<noteq> None"

definition mark_inflight :: "Ctx \<Rightarrow> i32 \<Rightarrow> Bpf \<Rightarrow> Bpf" where
  "mark_inflight cx fd b =
    (if sint fd < 0 then b else b\<lparr>b_inflight := map_put (sock_fd_key (cur_tgid cx) fd) 1 (b_inflight b)\<rparr>)"

definition mark_tls_fd :: "Ctx \<Rightarrow> i32 \<Rightarrow> Bpf \<Rightarrow> Bpf" where
  "mark_tls_fd cx fd b =
    (if sint fd < 0 then b else b\<lparr>b_tls_fds := map_put (sock_fd_key (cur_tgid cx) fd) 1 (b_tls_fds b)\<rparr>)"

definition bump_drop :: "Bpf \<Rightarrow> Bpf" where
  "bump_drop b = b\<lparr>b_drops := b_drops b + 1\<rparr>"

definition bump_stack_drop :: "Bpf \<Rightarrow> Bpf" where
  "bump_stack_drop b = b\<lparr>b_stack_drops := b_stack_drops b + 1\<rparr>"

text \<open>The sticky sampling decision of a marked descriptor; it never marks one.\<close>

definition existing_fd_keep_io :: "Ctx \<Rightarrow> u32 \<Rightarrow> Bpf \<Rightarrow> bool \<times> Bpf" where
  "existing_fd_keep_io cx fd b =
    (if \<not> tgid_captured b (cur_tgid cx) then (False, b)
     else
       let key = sock_fd_key (cur_tgid cx) fd; meta = hm_get (b_sock_meta b) key
       in case keep_from_lookup meta of
            Unmarked \<Rightarrow> (False, b)
          | Decided keep \<Rightarrow> (keep, b)
          | Undecided \<Rightarrow>
            (case meta of
               None \<Rightarrow> (False, b)
             | Some m \<Rightarrow>
               let m = apply_keep_io_flags cx b m
               in (m_flags m AND FLAG_KEEP_IO \<noteq> 0, b\<lparr>b_sock_meta := map_replace key m (b_sock_meta b)\<rparr>)))"

definition bump_unmapped :: "Bpf \<Rightarrow> Bpf" where
  "bump_unmapped b = b\<lparr>b_tls_unmapped := b_tls_unmapped b + 1\<rparr>"

definition bump_unmapped_ssl :: "u64 \<Rightarrow> Bpf \<Rightarrow> Bpf" where
  "bump_unmapped_ssl ssl b =
    (if ssl = 0 \<or> hm_get (b_unmapped_seen b) ssl \<noteq> None then b
     else case map_insert ssl 1 (b_unmapped_seen b) of
            None \<Rightarrow> b
          | Some seen \<Rightarrow> bump_unmapped (b\<lparr>b_unmapped_seen := seen\<rparr>))"

text \<open>\<open>sockaddr_in\<close>: the family, the port and the address at 0, 2 and 4; \<open>sockaddr_in6\<close>: the address at 8.\<close>

definition read_sockaddr :: "Ctx \<Rightarrow> u64 \<Rightarrow> SockMeta option" where
  "read_sockaddr cx p =
    (case read_user cx p 2 of
       None \<Rightarrow> None
     | Some fb \<Rightarrow>
       let fam = (from_le fb :: u16)
       in if fam = AF_INET then map_option (\<lambda>sa. with_peer_v4 (rd 4 4 sa) (rd 2 2 sa)) (read_user cx p 8)
          else if fam = AF_INET6 then map_option (\<lambda>sa. with_peer_v6 (field 8 16 sa) (rd 2 2 sa)) (read_user cx p 28)
          else None)"

text \<open>Reserve, write and submit, or count the drop.\<close>

definition submit :: "Ctx \<Rightarrow> DecodedEvent \<Rightarrow> Bpf \<Rightarrow> Bpf" where
  "submit cx e b = (if cx_room cx then b\<lparr>b_events := b_events b @ [e]\<rparr> else bump_drop b)"

definition emit :: "Ctx \<Rightarrow> EventKind \<Rightarrow> i64 \<Rightarrow> u64 \<Rightarrow> u64 \<Rightarrow> u32 \<Rightarrow> u16 \<Rightarrow> Bpf \<Rightarrow> Bpf" where
  "emit cx kind ret latency_ns ts_ns daddr_be dport_be b =
    (case pid_tgid cx of
       (tgid, pid) \<Rightarrow>
         if \<not> tgid_captured b tgid then b
         else submit cx (DLatency \<lparr>sl_kind = EventKind_u8 kind, sl_pad0 = replicate 7 0, sl_pid = pid, sl_tgid = tgid,
           sl_ret = ret, sl_latency_ns = latency_ns, sl_ts_ns = ts_ns, sl_daddr_be = daddr_be, sl_dport_be = dport_be,
           sl_pad1 = 0\<rparr>) b)"

definition looks_like_http_fixed :: "bytes \<Rightarrow> u16 \<Rightarrow> bool" where
  "looks_like_http_fixed prefix len = http_magic prefix len"

definition emit_io_kind :: "Ctx \<Rightarrow> EventKind \<Rightarrow> PendingIo \<Rightarrow> i64 \<Rightarrow> Bpf \<Rightarrow> Bpf" where
  "emit_io_kind cx kind p ret b =
    (if sint (pi_fd p) < 0 then b
     else case existing_fd_keep_io cx (pi_fd p) b of
       (keep, b) \<Rightarrow>
         if \<not> keep then b
         else
           let prefix_len = io_copy_len ret (pi_buf_len p)
           in if prefix_len = 0 then b
              else case read_user cx (pi_buf_ptr p) SOCK_IO_PREFIX_LEN of
                None \<Rightarrow> b
              | Some raw \<Rightarrow>
                let prefix = take (unat prefix_len) raw @ replicate (SOCK_IO_PREFIX_LEN - unat prefix_len) 0;
                    ev = \<lparr>io_kind = EventKind_u8 kind, io_dir = pi_dir p, io_prefix_len = prefix_len, io_fd = pi_fd p,
                      io_pid = snd (pid_tgid cx), io_tgid = fst (pid_tgid cx), io_ret = ret, io_ts_ns = cx_ktime cx,
                      io_cgroup_id = cx_cgroup cx, io_prefix = prefix\<rparr>;
                    magic = looks_like_http_fixed prefix prefix_len
                in if \<not> magic \<and> \<not> is_inflight cx b (pi_fd p) then b
                   else if \<not> cx_room cx then bump_drop b
                   else
                     let b = submit cx (if kind = TlsIo then DTlsIo ev else DIo ev) b
                     in if magic then mark_inflight cx (pi_fd p) b else b)"

definition emit_io :: "Ctx \<Rightarrow> PendingIo \<Rightarrow> i64 \<Rightarrow> Bpf \<Rightarrow> Bpf" where
  "emit_io cx p ret b = emit_io_kind cx SockIo p ret b"

definition emit_times :: "Ctx \<Rightarrow> PendingIo \<Rightarrow> i64 \<Rightarrow> Bpf \<Rightarrow> Bpf" where
  "emit_times cx p ret b =
    (if sint ret \<le> 0 \<or> sint (pi_fd p) < 0 then b
     else case existing_fd_keep_io cx (pi_fd p) b of
       (keep, b) \<Rightarrow>
         if \<not> keep then b
         else submit cx (DSockIoTimes \<lparr>st_kind = EventKind_u8 SockIoTimes, st_dir = pi_dir p, st_pad = 0, st_fd = pi_fd p,
           st_pid = snd (pid_tgid cx), st_tgid = fst (pid_tgid cx), st_ret = ret, st_ts_ns = cx_ktime cx\<rparr>) b)"

section \<open>Programs\<close>

definition store_io :: "Ctx \<Rightarrow> PendingIo \<Rightarrow> Bpf \<Rightarrow> bool \<times> Bpf" where
  "store_io cx pending b =
    (case map_insert (tid cx) pending (b_pending_io b) of
       None \<Rightarrow> (False, b) | Some m \<Rightarrow> (True, b\<lparr>b_pending_io := m\<rparr>))"

definition stash_pending_io :: "Ctx \<Rightarrow> u32 \<Rightarrow> u64 \<Rightarrow> u32 \<Rightarrow> IoDir \<Rightarrow> Bpf \<Rightarrow> bool \<times> Bpf" where
  "stash_pending_io cx fd buf_ptr buf_len dir b =
    (if \<not> tgid_captured b (cur_tgid cx) then (True, b)
     else if is_tls_fd cx b fd then
       (case existing_fd_keep_io cx fd b of
          (keep, b) \<Rightarrow>
            if \<not> keep then (True, b)
            else store_io cx \<lparr>pi_buf_ptr = 0, pi_buf_len = 0, pi_fd = fd, pi_dir = IoDir_u8 dir, pi_timing_only = 1\<rparr> b)
     else if \<not> is_marked_sock_fd cx b fd \<or> buf_ptr = 0 then (True, b)
     else
       case existing_fd_keep_io cx fd b of
         (keep, b) \<Rightarrow>
           if \<not> keep then (True, b)
           else store_io cx \<lparr>pi_buf_ptr = buf_ptr, pi_buf_len = buf_len, pi_fd = fd, pi_dir = IoDir_u8 dir,
             pi_timing_only = 0\<rparr> b)"

definition try_enter_io :: "IoDir \<Rightarrow> Ctx \<Rightarrow> Bpf \<Rightarrow> bool \<times> Bpf" where
  "try_enter_io dir cx b =
    (case (cx_at cx ENTER_FD_OFF, cx_at cx ENTER_BUF_OFF) of
       (Some fd, Some buf_ptr) \<Rightarrow> stash_pending_io cx (ucast fd) buf_ptr IO_BUF_LEN_UNBOUNDED dir b
     | _ \<Rightarrow> (False, b))"

definition iov_len_u32 :: "u64 \<Rightarrow> u32" where
  "iov_len_u32 len = (if len > 0xFFFFFFFF then 0xFFFFFFFF else ucast len)"

text \<open>\<open>struct iovec\<close>: the base and the length at 0 and 8.\<close>

definition stash_iov :: "Ctx \<Rightarrow> u64 \<Rightarrow> u64 \<Rightarrow> IoDir \<Rightarrow> Bpf \<Rightarrow> bool \<times> Bpf" where
  "stash_iov cx fd iov_ptr dir b =
    (case read_user cx iov_ptr 16 of
       None \<Rightarrow> (False, b)
     | Some iov \<Rightarrow> stash_pending_io cx (ucast fd) (rd 0 8 iov) (iov_len_u32 (rd 8 8 iov)) dir b)"

definition try_enter_iov :: "IoDir \<Rightarrow> Ctx \<Rightarrow> Bpf \<Rightarrow> bool \<times> Bpf" where
  "try_enter_iov dir cx b =
    (case (cx_at cx ENTER_FD_OFF, cx_at cx ENTER_BUF_OFF) of
       (Some fd, Some iov_ptr) \<Rightarrow> if iov_ptr = 0 then (True, b) else stash_iov cx fd iov_ptr dir b
     | _ \<Rightarrow> (False, b))"

text \<open>\<open>struct user_msghdr\<close>: \<open>msg_iov\<close> at 16.\<close>

definition try_enter_msghdr :: "IoDir \<Rightarrow> Ctx \<Rightarrow> Bpf \<Rightarrow> bool \<times> Bpf" where
  "try_enter_msghdr dir cx b =
    (case (cx_at cx ENTER_FD_OFF, cx_at cx ENTER_BUF_OFF) of
       (Some fd, Some msg) \<Rightarrow>
         if msg = 0 then (True, b)
         else (case read_user cx msg 24 of
                 None \<Rightarrow> (False, b)
               | Some hdr \<Rightarrow>
                 let msg_iov = rd 16 8 hdr in if msg_iov = 0 then (True, b) else stash_iov cx fd msg_iov dir b)
     | _ \<Rightarrow> (False, b))"

definition store_pending :: "Ctx \<Rightarrow> PendingEnter \<Rightarrow> Bpf \<Rightarrow> bool \<times> Bpf" where
  "store_pending cx pending b =
    (case map_insert (tid cx) pending (b_pending b) of
       None \<Rightarrow> (False, b) | Some m \<Rightarrow> (True, b\<lparr>b_pending := m\<rparr>))"

definition try_enter_connect :: "Ctx \<Rightarrow> Bpf \<Rightarrow> bool \<times> Bpf" where
  "try_enter_connect cx b =
    (if \<not> tgid_captured b (cur_tgid cx) then (True, b)
     else case (cx_at cx ENTER_FD_OFF, cx_at cx ENTER_SOCKADDR_OFF) of
       (Some fd, Some sockaddr) \<Rightarrow>
         (case read_sockaddr cx sockaddr of
            None \<Rightarrow> (True, b)
          | Some meta \<Rightarrow>
            store_pending cx
              \<lparr>pe_ts_ns = cx_ktime cx, pe_daddr_be = (case v4_addr meta of Some a \<Rightarrow> a | None \<Rightarrow> 0), pe_dport_be = m_dport_be meta,
               pe_has_addr = 1, pe_sockaddr_ptr = 0\<rparr> (mark_sock_meta cx fd meta b))
     | _ \<Rightarrow> (False, b))"

definition try_enter_accept4 :: "Ctx \<Rightarrow> Bpf \<Rightarrow> bool \<times> Bpf" where
  "try_enter_accept4 cx b =
    (if \<not> tgid_captured b (cur_tgid cx) then (True, b)
     else case cx_at cx ENTER_SOCKADDR_OFF of
       None \<Rightarrow> (False, b)
     | Some sockaddr \<Rightarrow>
         store_pending cx \<lparr>pe_ts_ns = cx_ktime cx, pe_daddr_be = 0, pe_dport_be = 0, pe_has_addr = 0,
           pe_sockaddr_ptr = sockaddr\<rparr> b)"

definition peer_addr :: "Ctx \<Rightarrow> PendingEnter \<Rightarrow> i64 \<Rightarrow> u32 \<times> u16 \<times> SockMeta" where
  "peer_addr cx pending ret =
    (if pe_has_addr pending = 1
     then (pe_daddr_be pending, pe_dport_be pending, with_peer_v4 (pe_daddr_be pending) (pe_dport_be pending))
     else if pe_sockaddr_ptr pending \<noteq> 0 \<and> sint ret \<ge> 0 then
       (case read_sockaddr cx (pe_sockaddr_ptr pending) of
          Some meta \<Rightarrow> (case v4_addr meta of Some a \<Rightarrow> a | None \<Rightarrow> 0, m_dport_be meta, meta)
        | None \<Rightarrow> (0, 0, with_peer_v4 0 0))
     else (0, 0, with_peer_v4 0 0))"

definition try_exit_accept4 :: "Ctx \<Rightarrow> Bpf \<Rightarrow> bool \<times> Bpf" where
  "try_exit_accept4 cx b =
    (case hm_get (b_pending b) (tid cx) of
       None \<Rightarrow> (True, b)
     | Some pending \<Rightarrow>
       let b = b\<lparr>b_pending := hm_remove (tid cx) (b_pending b)\<rparr>
       in case cx_at cx EXIT_RET_OFF of
            None \<Rightarrow> (False, b)
          | Some ret \<Rightarrow>
            (case peer_addr cx pending ret of
               (daddr_be, dport_be, meta) \<Rightarrow>
                 (True, emit cx Accept ret (sat_sub (cx_ktime cx) (pe_ts_ns pending)) (cx_ktime cx) daddr_be dport_be
                    (mark_sock_meta cx ret meta b))))"

definition try_exit_kind :: "EventKind \<Rightarrow> Ctx \<Rightarrow> Bpf \<Rightarrow> bool \<times> Bpf" where
  "try_exit_kind kind cx b =
    (case hm_get (b_pending b) (tid cx) of
       None \<Rightarrow> (True, b)
     | Some pending \<Rightarrow>
       let b = b\<lparr>b_pending := hm_remove (tid cx) (b_pending b)\<rparr>
       in case cx_at cx EXIT_RET_OFF of
            None \<Rightarrow> (False, b)
          | Some ret \<Rightarrow>
            (case peer_addr cx pending ret of
               (daddr_be, dport_be, _) \<Rightarrow>
                 (True, emit cx kind ret (sat_sub (cx_ktime cx) (pe_ts_ns pending)) (cx_ktime cx) daddr_be dport_be b)))"

definition try_enter_close :: "Ctx \<Rightarrow> Bpf \<Rightarrow> bool \<times> Bpf" where
  "try_enter_close cx b =
    (case cx_at cx ENTER_FD_OFF of None \<Rightarrow> (False, b) | Some fd \<Rightarrow> (True, unmark_sock_fd cx (ucast fd) b))"

definition try_exit_io :: "Ctx \<Rightarrow> Bpf \<Rightarrow> bool \<times> Bpf" where
  "try_exit_io cx b =
    (case hm_get (b_pending_io b) (tid cx) of
       None \<Rightarrow> (True, b)
     | Some pending \<Rightarrow>
       let b = b\<lparr>b_pending_io := hm_remove (tid cx) (b_pending_io b)\<rparr>
       in case cx_at cx EXIT_RET_OFF of
            None \<Rightarrow> (False, b)
          | Some ret \<Rightarrow>
            (True, if pi_timing_only pending \<noteq> 0 then emit_times cx pending ret b else emit_io cx pending ret b))"

section \<open>OpenSSL\<close>

definition try_enter_ssl_set_fd :: "Ctx \<Rightarrow> Bpf \<Rightarrow> bool \<times> Bpf" where
  "try_enter_ssl_set_fd cx b =
    (case (cx_arg cx 0, cx_arg cx 1) of
       (Some ssl, Some fd_arg) \<Rightarrow>
         let fd = (ucast fd_arg :: i32)
         in if ssl = 0 \<or> sint fd < 0 then (True, b)
            else
              let b = (case hm_get (b_ssl_fd b) ssl of
                    Some old_fd \<Rightarrow>
                      if sint old_fd \<ge> 0 \<and> old_fd \<noteq> fd then unlink_fd_ssl (sock_fd_key (cur_tgid cx) old_fd) ssl b else b
                  | None \<Rightarrow> b);
                  b = b\<lparr>b_ssl_fd := map_put ssl fd (b_ssl_fd b)\<rparr>;
                  b = b\<lparr>b_fd_ssl := map_put (sock_fd_key (cur_tgid cx) fd) ssl (b_fd_ssl b)\<rparr>
              in (True, mark_tls_fd cx fd b)
     | _ \<Rightarrow> (False, b))"

definition try_enter_ssl_free :: "Ctx \<Rightarrow> Bpf \<Rightarrow> bool \<times> Bpf" where
  "try_enter_ssl_free cx b =
    (case cx_arg cx 0 of None \<Rightarrow> (False, b) | Some ssl \<Rightarrow> (True, clear_ssl_ptr cx ssl b))"

text \<open>The descriptor of an SSL object, if one that is not negative was set.\<close>

definition ssl_fd :: "Bpf \<Rightarrow> u64 \<Rightarrow> i32 option" where
  "ssl_fd b ssl = (case hm_get (b_ssl_fd b) ssl of Some fd \<Rightarrow> if sint fd \<ge> 0 then Some fd else None | None \<Rightarrow> None)"

definition try_enter_ssl_io :: "IoDir \<Rightarrow> Ctx \<Rightarrow> Bpf \<Rightarrow> bool \<times> Bpf" where
  "try_enter_ssl_io dir cx b =
    (case (cx_arg cx 0, cx_arg cx 1) of
       (Some ssl, Some buf) \<Rightarrow>
         if ssl = 0 \<or> buf = 0 then (True, b)
         else (case ssl_fd b ssl of
                 None \<Rightarrow> (True, bump_unmapped_ssl ssl b)
               | Some fd \<Rightarrow>
                 (case existing_fd_keep_io cx fd b of
                    (keep, b) \<Rightarrow>
                      if \<not> keep then (True, b)
                      else case map_insert (tid cx)
                          \<lparr>pt_buf_ptr = buf, pt_ssl_ptr = ssl, pt_outlen_ptr = 0, pt_dir = IoDir_u8 dir\<rparr> (b_pending_tls b) of
                        None \<Rightarrow> (False, b) | Some m \<Rightarrow> (True, b\<lparr>b_pending_tls := m\<rparr>)))
     | _ \<Rightarrow> (False, b))"

definition try_enter_ssl_io_ex :: "IoDir \<Rightarrow> Ctx \<Rightarrow> Bpf \<Rightarrow> bool \<times> Bpf" where
  "try_enter_ssl_io_ex dir cx b =
    (case (cx_arg cx 0, cx_arg cx 1, cx_arg cx 3) of
       (Some ssl, Some buf, Some outlen) \<Rightarrow>
         if ssl = 0 \<or> buf = 0 \<or> outlen = 0 then (True, b)
         else (case ssl_fd b ssl of
                 None \<Rightarrow> (True, bump_unmapped_ssl ssl b)
               | Some fd \<Rightarrow>
                 (case existing_fd_keep_io cx fd b of
                    (keep, b) \<Rightarrow>
                      if \<not> keep then (True, b)
                      else case map_insert (tid cx)
                          \<lparr>pt_buf_ptr = buf, pt_ssl_ptr = ssl, pt_outlen_ptr = outlen, pt_dir = IoDir_u8 dir\<rparr>
                          (b_pending_tls_ex b) of
                        None \<Rightarrow> (False, b) | Some m \<Rightarrow> (True, b\<lparr>b_pending_tls_ex := m\<rparr>)))
     | _ \<Rightarrow> (False, b))"

definition ssl_io_ret :: "Ctx \<Rightarrow> PendingTls \<Rightarrow> i64" where
  "ssl_io_ret cx pending =
    (if pt_outlen_ptr pending = 0 then cx_ret cx
     else if (ucast (cx_ret cx) :: i32) \<noteq> 1 then 0
     else case read_user cx (pt_outlen_ptr pending) 8 of Some n \<Rightarrow> from_le n | None \<Rightarrow> 0)"

definition try_exit_ssl_pending :: "bool \<Rightarrow> Ctx \<Rightarrow> Bpf \<Rightarrow> bool \<times> Bpf" where
  "try_exit_ssl_pending is_ex cx b =
    (case hm_get (if is_ex then b_pending_tls_ex b else b_pending_tls b) (tid cx) of
       None \<Rightarrow> (True, b)
     | Some pending \<Rightarrow>
       let b = (if is_ex then b\<lparr>b_pending_tls_ex := hm_remove (tid cx) (b_pending_tls_ex b)\<rparr>
             else b\<lparr>b_pending_tls := hm_remove (tid cx) (b_pending_tls b)\<rparr>)
       in case hm_get (b_ssl_fd b) (pt_ssl_ptr pending) of
            None \<Rightarrow> (True, b)
          | Some fd \<Rightarrow>
            (True, emit_io_kind cx TlsIo \<lparr>pi_buf_ptr = pt_buf_ptr pending, pi_buf_len = IO_BUF_LEN_UNBOUNDED, pi_fd = fd,
               pi_dir = pt_dir pending, pi_timing_only = 0\<rparr> (ssl_io_ret cx pending) b))"

definition try_enter_ssl_do_handshake :: "Ctx \<Rightarrow> Bpf \<Rightarrow> bool \<times> Bpf" where
  "try_enter_ssl_do_handshake cx b =
    (if \<not> tgid_captured b (cur_tgid cx) then (True, b)
     else case cx_arg cx 0 of
       None \<Rightarrow> (False, b)
     | Some ssl \<Rightarrow>
       if ssl = 0 then (True, b)
       else
         let b = b\<lparr>b_pending_hs := map_put (tid cx) ssl (b_pending_hs b)\<rparr>
         in (True, if hm_get (b_handshake_start b) ssl = None
                   then b\<lparr>b_handshake_start := map_put ssl (cx_ktime cx) (b_handshake_start b)\<rparr> else b))"

definition try_exit_ssl_do_handshake :: "Ctx \<Rightarrow> Bpf \<Rightarrow> bool \<times> Bpf" where
  "try_exit_ssl_do_handshake cx b =
    (case hm_get (b_pending_hs b) (tid cx) of
       None \<Rightarrow> (True, b)
     | Some ssl \<Rightarrow>
       let b = b\<lparr>b_pending_hs := hm_remove (tid cx) (b_pending_hs b)\<rparr>; ret = (ucast (cx_ret cx) :: i32)
       in if ret \<noteq> 1 then (True, b)
          else case hm_get (b_handshake_start b) ssl of
            None \<Rightarrow> (True, b)
          | Some start \<Rightarrow>
            let b = b\<lparr>b_handshake_start := hm_remove ssl (b_handshake_start b)\<rparr>
            in case hm_get (b_ssl_fd b) ssl of
                 None \<Rightarrow> (True, bump_unmapped_ssl ssl b)
               | Some fd \<Rightarrow>
                 if \<not> tgid_captured b (cur_tgid cx) then (True, b)
                 else (True, submit cx (DTlsHandshake \<lparr>hs_kind = EventKind_u8 TlsHandshake, hs_pad0 = replicate 7 0,
                   hs_pid = snd (pid_tgid cx), hs_tgid = fst (pid_tgid cx), hs_fd = fd, hs_pad1 = 0, hs_ret = scast ret,
                   hs_latency_ns = sat_sub (cx_ktime cx) start, hs_ts_ns = cx_ktime cx\<rparr>) b))"

section \<open>Stack samples\<close>

definition STACK_BUF_BYTES :: nat where "STACK_BUF_BYTES = STACK_SAMPLE_MAX_FRAMES * 8"

definition try_profile_sample :: "Ctx \<Rightarrow> Bpf \<Rightarrow> bool \<times> Bpf" where
  "try_profile_sample cx b =
    (if \<not> cx_room cx then (True, bump_stack_drop b)
     else
       let len = fst (cx_stack cx); stack = zero_padded STACK_BUF_BYTES (take STACK_BUF_BYTES (snd (cx_stack cx)))
       in if sint len \<le> 0 then (True, b)
          else
            let n = min (unat len div 8) STACK_SAMPLE_MAX_FRAMES;
                ips = map (\<lambda>i. if i < n then rd (i * 8) 8 stack else 0) [0..<STACK_SAMPLE_MAX_FRAMES]
            in (True, b\<lparr>b_stacks := b_stacks b @ [\<lparr>ss_kind = EventKind_u8 StackSample, ss_pad0 = replicate 7 0,
                 ss_tgid = fst (pid_tgid cx), ss_pid = snd (pid_tgid cx), ss_ts_ns = cx_ktime cx, ss_frame_count = of_nat n,
                 ss_pad1 = replicate 3 0, ss_ips = ips\<rparr>]\<rparr>))"

section \<open>Attached programs\<close>

text \<open>One constructor for each kind of attached program; the read and write programs of one kind differ in the
  direction. The wrapper turns \<open>Ok\<close> into 0 and an error into 1.\<close>

datatype Probe = EnterConnect | ExitConnect | EnterAccept4 | ExitAccept4 | EnterClose | EnterIo IoDir | EnterIov IoDir
  | EnterMsghdr IoDir | ExitIo | EnterSslSetFd | EnterSslFree | EnterSslIo IoDir | ExitSslIo | EnterSslIoEx IoDir
  | ExitSslIoEx | EnterSslDoHandshake | ExitSslDoHandshake | ProfileSample

fun try_probe :: "Probe \<Rightarrow> Ctx \<Rightarrow> Bpf \<Rightarrow> bool \<times> Bpf" where
  "try_probe EnterConnect cx b = try_enter_connect cx b"
| "try_probe ExitConnect cx b = try_exit_kind Connect cx b"
| "try_probe EnterAccept4 cx b = try_enter_accept4 cx b"
| "try_probe ExitAccept4 cx b = try_exit_accept4 cx b"
| "try_probe EnterClose cx b = try_enter_close cx b"
| "try_probe (EnterIo dir) cx b = try_enter_io dir cx b"
| "try_probe (EnterIov dir) cx b = try_enter_iov dir cx b"
| "try_probe (EnterMsghdr dir) cx b = try_enter_msghdr dir cx b"
| "try_probe ExitIo cx b = try_exit_io cx b"
| "try_probe EnterSslSetFd cx b = try_enter_ssl_set_fd cx b"
| "try_probe EnterSslFree cx b = try_enter_ssl_free cx b"
| "try_probe (EnterSslIo dir) cx b = try_enter_ssl_io dir cx b"
| "try_probe ExitSslIo cx b = try_exit_ssl_pending False cx b"
| "try_probe (EnterSslIoEx dir) cx b = try_enter_ssl_io_ex dir cx b"
| "try_probe ExitSslIoEx cx b = try_exit_ssl_pending True cx b"
| "try_probe EnterSslDoHandshake cx b = try_enter_ssl_do_handshake cx b"
| "try_probe ExitSslDoHandshake cx b = try_exit_ssl_do_handshake cx b"
| "try_probe ProfileSample cx b = try_profile_sample cx b"

definition run_probe :: "Probe \<Rightarrow> Ctx \<Rightarrow> Bpf \<Rightarrow> u32 \<times> Bpf" where
  "run_probe p cx b = (case try_probe p cx b of (ok, b') \<Rightarrow> (if ok then 0 else 1, b'))"

section \<open>Keys and reads\<close>

lemma sock_fd_key_parts:
  "(ucast (drop_bit 32 (sock_fd_key tgid fd)) :: u32) = tgid" "(ucast (sock_fd_key tgid fd) :: u32) = fd"
  by (rule bit_word_eqI; auto simp: sock_fd_key_def bit_simps dest: bit_imp_le_length)+

lemma sock_fd_key_inj [simp]: "sock_fd_key t f = sock_fd_key t' f' \<longleftrightarrow> t = t' \<and> f = f'"
  using sock_fd_key_parts by metis

lemma read_user_Some:
  assumes "read_user cx p n = Some bs"
  shows "length bs = n" "i < n \<Longrightarrow> cx_mem cx (p + of_nat i) = Some (bs ! i)"
proof -
  have bs: "None \<notin> set (map (\<lambda>i. cx_mem cx (p + of_nat i)) [0..<n])" "bs = map (\<lambda>i. the (cx_mem cx (p + of_nat i))) [0..<n]"
    using assms by (auto simp: read_user_def Let_def split: if_splits)
  then show "length bs = n"
    by simp
  show "cx_mem cx (p + of_nat i) = Some (bs ! i)" if "i < n"
  proof -
    have "cx_mem cx (p + of_nat i) \<noteq> None"
      using bs(1) that by (auto simp: image_iff dest!: bspec [of _ _ i]) (metis not_None_eq)
    then show ?thesis
      using that by (auto simp: bs(2))
  qed
qed

lemma map_put_other: "k' \<noteq> k \<Longrightarrow> hm_get (map_put k v m) k' = hm_get m k'"
  by (auto simp: map_put_def map_insert_def)

lemma map_put_known: "hm_get m k \<noteq> None \<Longrightarrow> hm_get (map_put k v m) k' = (if k' = k then Some v else hm_get m k')"
  by (auto simp: map_put_def map_insert_def)

section \<open>What a program leaves alone\<close>

named_theorems frame

lemma capture_frame [frame]:
  "tgid_captured (b\<lparr>b_pending := p1\<rparr>) t = tgid_captured b t" "tgid_captured (b\<lparr>b_pending_io := p2\<rparr>) t = tgid_captured b t"
  "tgid_captured (b\<lparr>b_pending_tls := p3\<rparr>) t = tgid_captured b t" "tgid_captured (b\<lparr>b_pending_tls_ex := p4\<rparr>) t = tgid_captured b t"
  "tgid_captured (b\<lparr>b_sock_meta := p5\<rparr>) t = tgid_captured b t" "tgid_captured (b\<lparr>b_pending_hs := p6\<rparr>) t = tgid_captured b t"
  "tgid_captured (b\<lparr>b_handshake_start := p7\<rparr>) t = tgid_captured b t"
  by (simp_all add: tgid_captured_def is_denied_def allow_only_mode_def)

lemma mark_frame [frame]: "b_events (mark_sock_meta cx fd meta b) = b_events b"
  "tgid_captured (mark_sock_meta cx fd meta b) t = tgid_captured b t"
  by (simp_all add: mark_sock_meta_def Let_def frame)

lemma inflight_frame [frame]: "b_events (mark_inflight cx fd b) = b_events b" "b_sock_meta (mark_inflight cx fd b) = b_sock_meta b"
  by (simp_all add: mark_inflight_def)

lemma tls_frame [frame]: "b_events (mark_tls_fd cx fd b) = b_events b" "b_sock_meta (mark_tls_fd cx fd b) = b_sock_meta b"
  by (simp_all add: mark_tls_fd_def)

lemma drop_frame [frame]: "b_events (bump_drop b) = b_events b" "b_sock_meta (bump_drop b) = b_sock_meta b"
  by (simp_all add: bump_drop_def)

lemma unlink_frame [frame]: "b_events (unlink_fd_ssl key ssl b) = b_events b" "b_sock_meta (unlink_fd_ssl key ssl b) = b_sock_meta b"
  by (simp_all add: unlink_fd_ssl_def)

lemma clear_key_frame [frame]: "b_events (clear_ssl_for_fd_key key fd b) = b_events b"
  "b_sock_meta (clear_ssl_for_fd_key key fd b) = b_sock_meta b"
  by (simp_all add: clear_ssl_for_fd_key_def Let_def split: option.split)

lemma clear_ptr_frame [frame]: "b_events (clear_ssl_ptr cx ssl b) = b_events b"
  "b_sock_meta (clear_ssl_ptr cx ssl b) = b_sock_meta b"
  by (simp_all add: clear_ssl_ptr_def Let_def frame split: option.split)

lemma unmapped_frame [frame]: "b_events (bump_unmapped_ssl ssl b) = b_events b"
  "b_sock_meta (bump_unmapped_ssl ssl b) = b_sock_meta b"
  by (simp_all add: bump_unmapped_ssl_def bump_unmapped_def split: option.split)

lemma store_frame [frame]: "b_events (snd (store_io cx pio b)) = b_events b" "b_sock_meta (snd (store_io cx pio b)) = b_sock_meta b"
  "b_events (snd (store_pending cx pe b)) = b_events b" "b_sock_meta (snd (store_pending cx pe b)) = b_sock_meta b"
  by (simp_all add: store_io_def store_pending_def split: option.split)

lemma submit_frame [frame]: "b_sock_meta (submit cx e b) = b_sock_meta b"
  by (simp add: submit_def frame)

lemma emit_frame [frame]: "b_sock_meta (emit cx kind ret l ts a p b) = b_sock_meta b"
  by (simp add: emit_def frame split: prod.split)

section \<open>The sampling decision\<close>

definition decided :: "Bpf \<Rightarrow> u64 \<Rightarrow> bool option" where
  "decided b key = Option.bind (hm_get (b_sock_meta b) key) io_sampled_keep"

text \<open>Decisions only come into being: what is decided stays, and an unmarked descriptor stays unmarked.\<close>

definition draws :: "Bpf \<Rightarrow> Bpf \<Rightarrow> bool" where
  "draws b b' \<longleftrightarrow> (\<forall>key. (hm_get (b_sock_meta b) key = None \<longrightarrow> hm_get (b_sock_meta b') key = None) \<and>
    (\<forall>d. decided b key = Some d \<longrightarrow> decided b' key = Some d))"

lemma draws_same: "b_sock_meta b' = b_sock_meta b \<Longrightarrow> draws b b'"
  by (simp add: draws_def decided_def)

lemma set_keep_flag: "m_flags (set_io_keep m d) AND FLAG_KEEP_IO \<noteq> 0 \<longleftrightarrow> d"
  using sampled_set_io_keep [of m d] by (simp add: io_sampled_keep_def split: if_splits)

lemma keep_io_result:
  assumes "existing_fd_keep_io cx fd b = (keep, b')"
  shows "draws b b'" "b_events b' = b_events b" "tgid_captured b' t = tgid_captured b t"
    "keep \<Longrightarrow> tgid_captured b (cur_tgid cx) \<and> decided b' (sock_fd_key (cur_tgid cx) fd) = Some True"
proof -
  let ?key = "sock_fd_key (cur_tgid cx) fd"
  consider "b' = b" "keep \<longrightarrow> tgid_captured b (cur_tgid cx) \<and> decided b ?key = Some True"
    | m where "hm_get (b_sock_meta b) ?key = Some m" "io_sampled_keep m = None" "tgid_captured b (cur_tgid cx)"
      "b' = b\<lparr>b_sock_meta := hm_insert ?key (set_io_keep m keep) (b_sock_meta b)\<rparr>"
    using assms
    by (auto simp: existing_fd_keep_io_def keep_from_lookup_def Let_def decided_def apply_keep_io_flags_def set_keep_flag
        map_replace_def split: if_splits option.splits)
  then show "draws b b'" "b_events b' = b_events b" "tgid_captured b' t = tgid_captured b t"
    "keep \<Longrightarrow> tgid_captured b (cur_tgid cx) \<and> decided b' ?key = Some True"
    by (cases; auto simp: draws_def decided_def frame)+
qed

section \<open>What a program may emit\<close>

text \<open>The descriptor an I/O event speaks of.\<close>

fun io_of :: "DecodedEvent \<Rightarrow> (u32 \<times> u32) option" where
  "io_of (DIo ev) = Some (io_tgid ev, io_fd ev)"
| "io_of (DTlsIo ev) = Some (io_tgid ev, io_fd ev)"
| "io_of (DSockIoTimes ev) = Some (st_tgid ev, st_fd ev)"
| "io_of _ = None"

text \<open>What was copied from a buffer of \<open>n\<close> bytes at \<open>p\<close>: as many bytes as the call moved, but not more than the buffer has
  and at most 256, and zeros after them.\<close>

definition copied :: "Ctx \<Rightarrow> u64 \<Rightarrow> u32 \<Rightarrow> SockIoEvent \<Rightarrow> bool" where
  "copied cx p n ev \<longleftrightarrow> (let len = unat (io_prefix_len ev)
    in 0 < sint (io_ret ev) \<and> len = min (min (nat (sint (io_ret ev))) (unat n)) 256 \<and> 0 < len \<and>
      (\<forall>i < len. cx_mem cx (p + of_nat i) = Some (io_prefix ev ! i)) \<and>
      drop len (io_prefix ev) = replicate (256 - len) 0)"

text \<open>The buffer is the one the entry of the call recorded for this thread; only vectored calls have a bound of their own.\<close>

fun bytes_ok :: "Ctx \<Rightarrow> Bpf \<Rightarrow> DecodedEvent \<Rightarrow> bool" where
  "bytes_ok cx b (DIo ev) = (\<exists>q. hm_get (b_pending_io b) (tid cx) = Some q \<and> io_fd ev = pi_fd q \<and> io_dir ev = pi_dir q \<and>
    copied cx (pi_buf_ptr q) (pi_buf_len q) ev)"
| "bytes_ok cx b (DTlsIo ev) = (\<exists>q. Some q \<in> {hm_get (b_pending_tls b) (tid cx), hm_get (b_pending_tls_ex b) (tid cx)} \<and>
    io_dir ev = pt_dir q \<and> copied cx (pt_buf_ptr q) IO_BUF_LEN_UNBOUNDED ev)"
| "bytes_ok cx b (DSockIoTimes ev) = (0 < sint (st_ret ev))"
| "bytes_ok cx b _ = True"

text \<open>A run that emits nothing, or one event with the property \<open>Q\<close>.\<close>

definition event_ok :: "(DecodedEvent \<Rightarrow> bool) \<Rightarrow> Ctx \<Rightarrow> Bpf \<Rightarrow> Bpf \<Rightarrow> DecodedEvent \<Rightarrow> bool" where
  "event_ok Q cx b b' e \<longleftrightarrow> event_wf e \<and> Q e \<and> DecodedEvent_tgid e = cur_tgid cx \<and> DecodedEvent_pid e = tid cx \<and>
    tgid_captured b (cur_tgid cx) \<and>
    (case io_of e of None \<Rightarrow> True | Some (t, fd) \<Rightarrow> decided b' (sock_fd_key t fd) = Some True)"

definition emits :: "(DecodedEvent \<Rightarrow> bool) \<Rightarrow> Ctx \<Rightarrow> Bpf \<Rightarrow> Bpf \<Rightarrow> bool" where
  "emits Q cx b b' \<longleftrightarrow> b_events b' = b_events b \<or> (\<exists>e. b_events b' = b_events b @ [e] \<and> event_ok Q cx b b' e)"

lemma emits_same: "b_events b' = b_events b \<Longrightarrow> emits Q cx b b'"
  by (simp add: emits_def)

lemma emits_from: "emits Q cx b1 b' \<Longrightarrow> b_events b1 = b_events b \<Longrightarrow>
    tgid_captured b1 (cur_tgid cx) = tgid_captured b (cur_tgid cx) \<Longrightarrow> (\<And>e. Q e \<Longrightarrow> R e) \<Longrightarrow> emits R cx b b'"
  by (auto simp: emits_def event_ok_def)

lemma pid_tgid_tid: "snd (pid_tgid cx) = tid cx"
  by (simp add: pid_tgid_def tid_def)

lemma emit_emits:
  assumes "kind = Connect \<or> kind = Accept"
  shows "emits (bytes_ok cx b0) cx b (emit cx kind ret l ts a p b)"
proof -
  obtain tg pd where pt: "pid_tgid cx = (tg, pd)"
    by force
  then have "pd = tid cx"
    using pid_tgid_tid [of cx] by simp
  then show ?thesis
    using assms by (auto simp: emit_def pt emits_def submit_def event_ok_def latency_wf_def frame)
qed

lemma io_prefix_normal:
  assumes "length raw = SOCK_IO_PREFIX_LEN" "unat n \<le> SOCK_IO_PREFIX_LEN"
    "io_prefix ev = take (unat n) raw @ replicate (SOCK_IO_PREFIX_LEN - unat n) 0" "io_prefix_len ev = n"
  shows "io_normal ev"
  using assms by (simp add: io_normal_def io_wf_def)

lemma emit_io_kind_emits:
  assumes "kind = SockIo \<or> kind = TlsIo"
  shows "emits (\<lambda>e. \<exists>ev. e = (if kind = TlsIo then DTlsIo ev else DIo ev) \<and> io_fd ev = pi_fd p \<and> io_dir ev = pi_dir p \<and>
      copied cx (pi_buf_ptr p) (pi_buf_len p) ev) cx b (emit_io_kind cx kind p ret b)" (is "emits ?Q _ _ _")
    "draws b (emit_io_kind cx kind p ret b)"
proof -
  obtain keep b1 where k: "existing_fd_keep_io cx (pi_fd p) b = (keep, b1)"
    by force
  let ?n = "io_copy_len ret (pi_buf_len p)"
  let ?pre = "\<lambda>raw. take (unat ?n) raw @ replicate (SOCK_IO_PREFIX_LEN - unat ?n) 0"
  let ?ev = "\<lambda>raw. \<lparr>io_kind = EventKind_u8 kind, io_dir = pi_dir p, io_prefix_len = ?n, io_fd = pi_fd p,
      io_pid = snd (pid_tgid cx), io_tgid = fst (pid_tgid cx), io_ret = ret, io_ts_ns = cx_ktime cx,
      io_cgroup_id = cx_cgroup cx, io_prefix = ?pre raw\<rparr>"
  let ?r = "emit_io_kind cx kind p ret b"
  note kr = keep_io_result [OF k]
  have cases: "b_events ?r = b_events b \<and> (b_sock_meta ?r = b_sock_meta b \<or> b_sock_meta ?r = b_sock_meta b1) \<or>
      keep \<and> ?n \<noteq> 0 \<and> b_sock_meta ?r = b_sock_meta b1 \<and> (\<exists>raw. read_user cx (pi_buf_ptr p) SOCK_IO_PREFIX_LEN = Some raw \<and>
        b_events ?r = b_events b @ [if kind = TlsIo then DTlsIo (?ev raw) else DIo (?ev raw)])"
    using kr(2) by (auto simp: emit_io_kind_def k Let_def frame submit_def split: option.split)
  then show "draws b ?r"
    using kr(1) draws_same [of ?r b] by (auto simp: draws_def decided_def)
  show "emits ?Q cx b ?r"
  proof (cases "b_events ?r = b_events b")
    case False
    then obtain raw where raw: "read_user cx (pi_buf_ptr p) SOCK_IO_PREFIX_LEN = Some raw" "keep" "?n \<noteq> 0"
      "b_sock_meta ?r = b_sock_meta b1" "b_events ?r = b_events b @ [if kind = TlsIo then DTlsIo (?ev raw) else DIo (?ev raw)]"
      using cases by auto
    have len: "unat ?n \<le> SOCK_IO_PREFIX_LEN" "0 < sint ret" "unat ?n = min (min (nat (sint ret)) (unat (pi_buf_len p))) 256" "0 < unat ?n"
      using raw(3) unat_io_copy_len [of ret "pi_buf_len p"] by (auto split: if_splits simp: SOCK_IO_PREFIX_LEN_def unat_eq_zero [symmetric] simp del: unat_eq_zero)
    have norm: "io_normal (?ev raw)"
      by (rule io_prefix_normal [OF read_user_Some(1) [OF raw(1)] len(1)]) simp_all
    have "copied cx (pi_buf_ptr p) (pi_buf_len p) (?ev raw)"
      using len(1,2,4) read_user_Some [OF raw(1)] unfolding copied_def Let_def
      by (simp add: len(3) [symmetric] nth_append SOCK_IO_PREFIX_LEN_def)
    moreover have "tgid_captured b (cur_tgid cx)" "decided ?r (sock_fd_key (cur_tgid cx) (pi_fd p)) = Some True"
      using kr(4) [OF raw(2)] by (simp_all add: decided_def raw(4))
    ultimately have "event_ok ?Q cx b ?r (if kind = TlsIo then DTlsIo (?ev raw) else DIo (?ev raw))"
      using norm assms by (auto simp: event_ok_def pid_tgid_tid)
    then show ?thesis
      using raw(5) by (simp add: emits_def)
  qed (rule emits_same)
qed

lemma emit_times_emits: "emits (bytes_ok cx b0) cx b (emit_times cx p ret b)" "draws b (emit_times cx p ret b)"
proof -
  obtain keep b1 where k: "existing_fd_keep_io cx (pi_fd p) b = (keep, b1)"
    by force
  note kr = keep_io_result [OF k]
  show "draws b (emit_times cx p ret b)"
    using kr(1) by (auto simp: emit_times_def k frame draws_def decided_def)
  show "emits (bytes_ok cx b0) cx b (emit_times cx p ret b)"
    using kr(2,4) by (auto simp: emit_times_def k emits_def submit_def frame event_ok_def pid_tgid_tid decided_def)
qed

section \<open>All programs\<close>

lemma stash_frame:
  "b_events (snd (stash_pending_io cx fd buf len dir b)) = b_events b" "draws b (snd (stash_pending_io cx fd buf len dir b))"
proof -
  obtain keep b1 where k: "existing_fd_keep_io cx fd b = (keep, b1)"
    by force
  note kr = keep_io_result [OF k]
  show "b_events (snd (stash_pending_io cx fd buf len dir b)) = b_events b"
    using kr(2) by (simp add: stash_pending_io_def k frame)
  show "draws b (snd (stash_pending_io cx fd buf len dir b))"
    using kr(1) draws_same [of _ b] by (auto simp: stash_pending_io_def k frame draws_def decided_def)
qed

lemma enter_io_frame:
  "b_events (snd (try_enter_io dir cx b)) = b_events b" "draws b (snd (try_enter_io dir cx b))"
  "b_events (snd (try_enter_iov dir cx b)) = b_events b" "draws b (snd (try_enter_iov dir cx b))"
  "b_events (snd (try_enter_msghdr dir cx b)) = b_events b" "draws b (snd (try_enter_msghdr dir cx b))"
  by (simp_all add: try_enter_io_def try_enter_iov_def try_enter_msghdr_def stash_iov_def stash_frame draws_same Let_def
      split: option.split)

lemma enter_ssl_io_frame:
  "b_events (snd (try_enter_ssl_io dir cx b)) = b_events b" "draws b (snd (try_enter_ssl_io dir cx b))"
  "b_events (snd (try_enter_ssl_io_ex dir cx b)) = b_events b" "draws b (snd (try_enter_ssl_io_ex dir cx b))"
  using keep_io_result(1,2) [where b = b and cx = cx]
  by (auto simp: try_enter_ssl_io_def try_enter_ssl_io_ex_def frame draws_same draws_def decided_def
      split: option.split prod.split)

lemma accept_frame: "b_events (snd (try_enter_accept4 cx b)) = b_events b" "draws b (snd (try_enter_accept4 cx b))"
  by (simp_all add: try_enter_accept4_def frame draws_same split: option.split)

lemma set_fd_frame: "b_events (snd (try_enter_ssl_set_fd cx b)) = b_events b" "draws b (snd (try_enter_ssl_set_fd cx b))"
  by (simp_all add: try_enter_ssl_set_fd_def frame draws_same Let_def split: option.split)

lemma ssl_free_frame: "b_events (snd (try_enter_ssl_free cx b)) = b_events b" "draws b (snd (try_enter_ssl_free cx b))"
  by (simp_all add: try_enter_ssl_free_def frame draws_same split: option.split)

lemma enter_handshake_frame:
  "b_events (snd (try_enter_ssl_do_handshake cx b)) = b_events b" "draws b (snd (try_enter_ssl_do_handshake cx b))"
  by (simp_all add: try_enter_ssl_do_handshake_def draws_same Let_def split: option.split)

lemma profile_frame: "b_events (snd (try_profile_sample cx b)) = b_events b" "draws b (snd (try_profile_sample cx b))"
  by (simp_all add: try_profile_sample_def draws_same bump_stack_drop_def Let_def)

lemma close_frame: "b_events (snd (try_enter_close cx b)) = b_events b"
  by (simp add: try_enter_close_def unmark_sock_fd_def frame Let_def split: option.split)

lemma connect_frame: "b_events (snd (try_enter_connect cx b)) = b_events b"
  by (simp add: try_enter_connect_def frame split: option.split)

lemma exit_kind_emits:
  "emits (bytes_ok cx b) cx b (snd (try_exit_kind Connect cx b))" "draws b (snd (try_exit_kind Connect cx b))"
proof -
  have "emits (bytes_ok cx b) cx b (emit cx Connect ret l ts a p (b\<lparr>b_pending := m\<rparr>))" for ret l ts a p m
    by (rule emits_from [where Q = "bytes_ok cx b"], rule emit_emits) (simp_all add: frame)
  then show "emits (bytes_ok cx b) cx b (snd (try_exit_kind Connect cx b))" "draws b (snd (try_exit_kind Connect cx b))"
    by (simp_all add: try_exit_kind_def Let_def frame draws_same emits_same split: option.split prod.split)
qed

lemma exit_accept_emits: "emits (bytes_ok cx b) cx b (snd (try_exit_accept4 cx b))"
proof -
  have "emits (bytes_ok cx b) cx b (emit cx Accept ret l ts a p (mark_sock_meta cx fd meta (b\<lparr>b_pending := m\<rparr>)))" for ret l ts a p fd meta m
    by (rule emits_from [where Q = "bytes_ok cx b"], rule emit_emits) (simp_all add: frame)
  then show ?thesis
    by (auto simp: try_exit_accept4_def Let_def split: option.split prod.split intro: emits_same)
qed

lemma draws_from: "draws b1 b' \<Longrightarrow> b_sock_meta b1 = b_sock_meta b \<Longrightarrow> draws b b'"
  by (simp add: draws_def decided_def)

lemma exit_io_emits: "emits (bytes_ok cx b) cx b (snd (try_exit_io cx b))" "draws b (snd (try_exit_io cx b))"
proof -
  let ?b = "b\<lparr>b_pending_io := hm_remove (tid cx) (b_pending_io b)\<rparr>"
  have "emits (bytes_ok cx b) cx b (emit_times cx p ret ?b)" for p ret
    by (rule emits_from [where Q = "bytes_ok cx b"], rule emit_times_emits) (simp_all add: frame)
  moreover have "emits (bytes_ok cx b) cx b (emit_io cx p ret ?b)" if "hm_get (b_pending_io b) (tid cx) = Some p" for p ret
    unfolding emit_io_def by (rule emits_from [OF emit_io_kind_emits(1)]) (auto simp: frame that)
  ultimately show "emits (bytes_ok cx b) cx b (snd (try_exit_io cx b))"
    by (simp add: try_exit_io_def Let_def emits_same split: option.split)
  have "draws b (emit_times cx p ret ?b)" "draws b (emit_io cx p ret ?b)" for p ret
    unfolding emit_io_def by (rule draws_from [OF emit_times_emits(2)] draws_from [OF emit_io_kind_emits(2)]; simp)+
  then show "draws b (snd (try_exit_io cx b))"
    by (simp add: try_exit_io_def Let_def draws_same split: option.split)
qed

lemma exit_ssl_emits:
  "emits (bytes_ok cx b) cx b (snd (try_exit_ssl_pending is_ex cx b))" "draws b (snd (try_exit_ssl_pending is_ex cx b))"
proof -
  have e: "emits (bytes_ok cx b) cx b (emit_io_kind cx TlsIo \<lparr>pi_buf_ptr = pt_buf_ptr q, pi_buf_len = IO_BUF_LEN_UNBOUNDED, pi_fd = fd,
      pi_dir = pt_dir q, pi_timing_only = 0\<rparr> ret b1)"
    if "Some q \<in> {hm_get (b_pending_tls b) (tid cx), hm_get (b_pending_tls_ex b) (tid cx)}"
      "b1 = b\<lparr>b_pending_tls_ex := m\<rparr> \<or> b1 = b\<lparr>b_pending_tls := m\<rparr>" for q fd ret b1 m
    using that by (intro emits_from [OF emit_io_kind_emits(1)]) (auto simp: frame)
  have d: "draws b (emit_io_kind cx TlsIo p ret (b\<lparr>b_pending_tls_ex := m\<rparr>))" "draws b (emit_io_kind cx TlsIo p ret (b\<lparr>b_pending_tls := m\<rparr>))"
    for p ret m
    by (rule draws_from [OF emit_io_kind_emits(2)]; simp)+
  show "emits (bytes_ok cx b) cx b (snd (try_exit_ssl_pending is_ex cx b))"
    by (auto simp: try_exit_ssl_pending_def Let_def emits_same split: option.split intro!: e)
  show "draws b (snd (try_exit_ssl_pending is_ex cx b))"
    using d by (auto simp: try_exit_ssl_pending_def Let_def draws_same split: option.split)
qed

lemma exit_handshake_emits:
  "emits (bytes_ok cx b) cx b (snd (try_exit_ssl_do_handshake cx b))" "draws b (snd (try_exit_ssl_do_handshake cx b))"
  by (auto simp: try_exit_ssl_do_handshake_def Let_def frame draws_same emits_def submit_def event_ok_def handshake_wf_def
      pid_tgid_tid split: option.split)

lemma probe_emits: "emits (bytes_ok cx b) cx b (snd (try_probe p cx b))"
  by (cases p)
    (simp_all add: exit_kind_emits exit_accept_emits exit_io_emits exit_ssl_emits exit_handshake_emits emits_same enter_io_frame
      enter_ssl_io_frame accept_frame set_fd_frame ssl_free_frame enter_handshake_frame profile_frame close_frame connect_frame)

lemma probe_draws: "p \<notin> {EnterConnect, ExitAccept4, EnterClose} \<Longrightarrow> draws b (snd (try_probe p cx b))"
  by (cases p)
    (simp_all add: exit_kind_emits exit_io_emits exit_ssl_emits exit_handshake_emits enter_io_frame
      enter_ssl_io_frame accept_frame set_fd_frame ssl_free_frame enter_handshake_frame profile_frame)

text \<open>C7. What the kernel side may say. Whatever the state of the maps, one run of any attached program appends at most
  one event; the event is about the task that runs, which the allow or deny list lets through; the user-space decoder
  reads from its bytes exactly the event that was written. An event with bytes carries the first bytes of the buffer
  that the entry of this thread's call recorded: as many as the call moved, but not more than a vectored
  call's first buffer is long and at most 256, with zeros after them. An I/O event is about a descriptor that connect or
  accept marked and whose sampling decision is to keep it.\<close>

theorem probe_event_sound:
  assumes "run_probe p cx b = (rc, b')" "e \<in> set (drop (length (b_events b)) (b_events b'))"
  shows "b_events b' = b_events b @ [e] \<and> tgid_captured b (cur_tgid cx) \<and> DecodedEvent_tgid e = cur_tgid cx \<and>
    DecodedEvent_pid e = tid cx \<and> decode_event (encode_event e @ rest) = Some e \<and> bytes_ok cx b e \<and>
    (\<forall>t fd. io_of e = Some (t, fd) \<longrightarrow> (\<exists>m. hm_get (b_sock_meta b') (sock_fd_key t fd) = Some m \<and> io_sampled_keep m = Some True))"
proof -
  have "emits (bytes_ok cx b) cx b b'"
    using probe_emits [of cx b p] assms(1) by (auto simp: run_probe_def split: prod.splits)
  then have e: "b_events b' = b_events b @ [e]" "event_ok (bytes_ok cx b) cx b b' e"
    using assms(2) by (auto simp: emits_def)
  then show ?thesis
    using decode_encode [of e rest] by (auto simp: event_ok_def decided_def bind_eq_Some_conv)
qed

section \<open>Histories\<close>

text \<open>Programs run in any order, and user space changes its maps between them.\<close>

datatype bpf_op = Run Probe Ctx | SetSampleN u32 | SetDenied "(u32, u8) hashmap" | SetAllowed "(u32, u8) hashmap"
  | SetAllowOnly u32 | ClearInflight u64

fun bpf_step :: "Bpf \<Rightarrow> bpf_op \<Rightarrow> Bpf" where
  "bpf_step b (Run p cx) = snd (run_probe p cx b)"
| "bpf_step b (SetSampleN n) = b\<lparr>b_sample_n := n\<rparr>"
| "bpf_step b (SetDenied m) = b\<lparr>b_denied_tgid := m\<rparr>"
| "bpf_step b (SetAllowed m) = b\<lparr>b_allowed_tgid := m\<rparr>"
| "bpf_step b (SetAllowOnly n) = b\<lparr>b_allow_only := n\<rparr>"
| "bpf_step b (ClearInflight key) = b\<lparr>b_inflight := hm_remove key (b_inflight b)\<rparr>"

fun closes :: "u32 \<Rightarrow> u32 \<Rightarrow> bpf_op \<Rightarrow> bool" where
  "closes tgid fd (Run EnterClose cx) = (cur_tgid cx = tgid \<and> map_option ucast (cx_at cx ENTER_FD_OFF) = Some fd)"
| "closes tgid fd _ = False"

fun marks :: "u32 \<Rightarrow> u32 \<Rightarrow> bpf_op \<Rightarrow> bool" where
  "marks tgid fd (Run EnterConnect cx) = (cur_tgid cx = tgid \<and> map_option ucast (cx_at cx ENTER_FD_OFF) = Some fd)"
| "marks tgid fd (Run ExitAccept4 cx) = (cur_tgid cx = tgid \<and> map_option ucast (cx_at cx EXIT_RET_OFF) = Some fd)"
| "marks tgid fd _ = False"

lemma mark_sock_meta_other:
  "key \<noteq> sock_fd_key (cur_tgid cx) (ucast fd) \<Longrightarrow>
    hm_get (b_sock_meta (mark_sock_meta cx fd meta b)) key = hm_get (b_sock_meta b) key"
  by (simp add: mark_sock_meta_def Let_def map_put_other)

lemma mark_sock_meta_decided:
  "decided b key = Some d \<Longrightarrow> decided (mark_sock_meta cx fd meta b) key = Some d"
  using mark_sock_meta_other [of key cx fd meta b]
  by (cases "key = sock_fd_key (cur_tgid cx) (ucast fd)")
    (auto simp: mark_sock_meta_def Let_def decided_def bind_eq_Some_conv map_put_known merge_io_sampled_keep)

lemma probe_run: "snd (run_probe p cx b) = snd (try_probe p cx b)"
  by (simp add: run_probe_def split: prod.split)

lemma connect_meta:
  "b_sock_meta (snd (try_enter_connect cx b)) = b_sock_meta b \<or>
    (\<exists>fd meta. cx_at cx ENTER_FD_OFF = Some fd \<and> b_sock_meta (snd (try_enter_connect cx b)) = b_sock_meta (mark_sock_meta cx fd meta b))"
  by (auto simp: try_enter_connect_def frame split: option.split)

lemma accept_meta:
  "b_sock_meta (snd (try_exit_accept4 cx b)) = b_sock_meta b \<or>
    (\<exists>fd meta m. cx_at cx EXIT_RET_OFF = Some fd \<and>
      b_sock_meta (snd (try_exit_accept4 cx b)) = b_sock_meta (mark_sock_meta cx fd meta (b\<lparr>b_pending := m\<rparr>)))"
  by (auto simp: try_exit_accept4_def frame Let_def split: option.split prod.split)

lemma close_meta: "hm_get (b_sock_meta (snd (try_enter_close cx b))) (sock_fd_key t fd) =
    (if closes t fd (Run EnterClose cx) then None else hm_get (b_sock_meta b) (sock_fd_key t fd))"
  by (auto simp: try_enter_close_def unmark_sock_fd_def frame Let_def split: option.split)

lemma step_keeps_unmarked:
  assumes "hm_get (b_sock_meta b) (sock_fd_key t fd) = None" "\<not> marks t fd op"
  shows "hm_get (b_sock_meta (bpf_step b op)) (sock_fd_key t fd) = None"
proof (cases op)
  case (Run p cx)
  consider "p = EnterConnect" | "p = ExitAccept4" | "p = EnterClose" | "p \<notin> {EnterConnect, ExitAccept4, EnterClose}"
    by blast
  then show ?thesis
  proof cases
    case 1
    then show ?thesis
      using connect_meta [of cx b] assms Run mark_sock_meta_other [of "sock_fd_key t fd" cx] by (auto simp: probe_run)
  next
    case 2
    then show ?thesis
      using accept_meta [of cx b] assms Run mark_sock_meta_other [of "sock_fd_key t fd" cx] by (auto simp: probe_run)
  next
    case 3
    then show ?thesis
      using close_meta [of cx b t fd] assms Run by (simp add: probe_run)
  next
    case 4
    then show ?thesis
      using probe_draws [of p b cx] assms Run by (simp add: probe_run draws_def)
  qed
qed (use assms in simp_all)

lemma step_keeps_decided:
  assumes "decided b (sock_fd_key t fd) = Some d" "\<not> closes t fd op"
  shows "decided (bpf_step b op) (sock_fd_key t fd) = Some d"
proof (cases op)
  case (Run p cx)
  consider "p = EnterConnect" | "p = ExitAccept4" | "p = EnterClose" | "p \<notin> {EnterConnect, ExitAccept4, EnterClose}"
    by blast
  then show ?thesis
  proof cases
    case 1
    then show ?thesis
      using connect_meta [of cx b] assms Run mark_sock_meta_decided [of b "sock_fd_key t fd" d cx]
      by (auto simp: probe_run decided_def)
  next
    case 2
    then show ?thesis
      using accept_meta [of cx b] assms Run mark_sock_meta_decided [of "b\<lparr>b_pending := _\<rparr>" "sock_fd_key t fd" d cx]
      by (auto simp: probe_run decided_def)
  next
    case 3
    then show ?thesis
      using close_meta [of cx b t fd] assms Run by (simp add: probe_run decided_def)
  next
    case 4
    then show ?thesis
      using probe_draws [of p b cx] assms Run by (simp add: probe_run draws_def)
  qed
qed (use assms in \<open>simp_all add: decided_def\<close>)

lemma step_events:
  "\<exists>new. b_events (bpf_step b op) = b_events b @ new \<and> (\<forall>e \<in> set new. \<forall>t fd. io_of e = Some (t, fd) \<longrightarrow>
    decided (bpf_step b op) (sock_fd_key t fd) = Some True)"
proof (cases op)
  case (Run p cx)
  then show ?thesis
    using probe_emits [of cx b p] by (auto simp: probe_run emits_def event_ok_def)
qed simp_all

text \<open>While a descriptor is not one to keep, no event speaks of it.\<close>

lemma silent_run:
  assumes "\<And>b op. I b \<Longrightarrow> op \<in> set ops \<Longrightarrow> I (bpf_step b op)" "\<And>b. I b \<Longrightarrow> decided b (sock_fd_key t fd) \<noteq> Some True" "I b"
  shows "I (foldl bpf_step b ops) \<and> (\<exists>new. b_events (foldl bpf_step b ops) = b_events b @ new \<and> (t, fd) \<notin> Option.these (io_of ` set new))"
  using assms
proof (induction ops arbitrary: b)
  case (Cons op ops)
  have I: "I (bpf_step b op)"
    by (rule Cons.prems(1)) (use Cons.prems(3) in simp_all)
  obtain new where new: "b_events (bpf_step b op) = b_events b @ new"
    "\<forall>e \<in> set new. io_of e = Some (t, fd) \<longrightarrow> decided (bpf_step b op) (sock_fd_key t fd) = Some True"
    using step_events [of b op] by blast
  have "(t, fd) \<notin> Option.these (io_of ` set new)"
    using new(2) Cons.prems(2) [OF I] by (auto simp: in_these_eq)
  moreover obtain rest where rest: "I (foldl bpf_step (bpf_step b op) ops)"
    "b_events (foldl bpf_step (bpf_step b op) ops) = b_events (bpf_step b op) @ rest" "(t, fd) \<notin> Option.these (io_of ` set rest)"
    using Cons.IH [OF Cons.prems(1,2) I] by auto
  ultimately show ?case
    using new(1) by (intro conjI exI [of _ "new @ rest"]) (auto simp: image_Un in_these_eq)
qed (auto intro: exI [of _ "[]"] simp: in_these_eq)

text \<open>C8. A closed descriptor is silent: the close removes the mark of the descriptor with its sampling decision, its TLS mark,
  its link to an SSL object and its in-flight mark, and from then on no I/O event speaks of it until connect or accept
  marks that number again, whatever programs run in between and however user space changes its maps.\<close>

theorem close_silences:
  assumes "cx_at cx ENTER_FD_OFF = Some a" "ucast a = fd" "cur_tgid cx = tgid" "list_all (\<lambda>op. \<not> marks tgid fd op) ops"
    and "bpf_step b (Run EnterClose cx) = b1"
  shows "hm_get (b_sock_meta b1) (sock_fd_key tgid fd) = None \<and> hm_get (b_tls_fds b1) (sock_fd_key tgid fd) = None \<and>
    hm_get (b_inflight b1) (sock_fd_key tgid fd) = None \<and> hm_get (b_fd_ssl b1) (sock_fd_key tgid fd) = None \<and>
    (\<exists>new. b_events (foldl bpf_step b1 ops) = b_events b @ new \<and> (tgid, fd) \<notin> Option.these (io_of ` set new))"
proof -
  let ?key = "sock_fd_key tgid fd"
  let ?I = "\<lambda>b. hm_get (b_sock_meta b) ?key = None"
  have b1: "b1 = unmark_sock_fd cx fd b"
    using assms(1,2,5) by (simp add: run_probe_def try_enter_close_def)
  have gone: "?I b1" "hm_get (b_tls_fds b1) ?key = None" "hm_get (b_inflight b1) ?key = None" "hm_get (b_fd_ssl b1) ?key = None"
    "b_events b1 = b_events b"
    unfolding b1 assms(3) [symmetric]
    by (auto simp: unmark_sock_fd_def clear_ssl_for_fd_key_def Let_def split: option.split)
  have "?I (foldl bpf_step b1 ops) \<and> (\<exists>new. b_events (foldl bpf_step b1 ops) = b_events b1 @ new \<and>
      (tgid, fd) \<notin> Option.these (io_of ` set new))"
    by (rule silent_run) (use assms(4) gone(1) in \<open>auto simp: list_all_iff decided_def intro: step_keeps_unmarked\<close>)
  then show ?thesis
    using gone by simp
qed

text \<open>C9. The sampling decision is sticky: once it is made for a descriptor it stays the same until that descriptor is
  closed, also through a second connect or accept and changes of the sampling rate; and while the decision is not to
  keep it, no I/O event speaks of the descriptor.\<close>

theorem sampling_sticky:
  assumes "Option.bind (hm_get (b_sock_meta b) (sock_fd_key tgid fd)) io_sampled_keep = Some d"
    and "list_all (\<lambda>op. \<not> closes tgid fd op) ops"
  shows "Option.bind (hm_get (b_sock_meta (foldl bpf_step b ops)) (sock_fd_key tgid fd)) io_sampled_keep = Some d \<and>
    (d \<or> (\<exists>new. b_events (foldl bpf_step b ops) = b_events b @ new \<and> (tgid, fd) \<notin> Option.these (io_of ` set new)))"
proof -
  let ?I = "\<lambda>b. decided b (sock_fd_key tgid fd) = Some d"
  have step: "?I b \<Longrightarrow> op \<in> set ops \<Longrightarrow> ?I (bpf_step b op)" for b op
    using assms(2) by (auto simp: list_all_iff intro: step_keeps_decided)
  have start: "?I b"
    using assms(1) by (simp add: decided_def)
  have "?I (foldl bpf_step b ops)"
    using step start by (induction ops arbitrary: b) simp_all
  moreover have "d \<or> (\<exists>new. b_events (foldl bpf_step b ops) = b_events b @ new \<and> (tgid, fd) \<notin> Option.these (io_of ` set new))"
  proof (cases d)
    case False
    have "?I (foldl bpf_step b ops) \<and> (\<exists>new. b_events (foldl bpf_step b ops) = b_events b @ new \<and>
        (tgid, fd) \<notin> Option.these (io_of ` set new))"
      by (rule silent_run) (use False start step in auto)
    then show ?thesis
      by blast
  qed simp
  ultimately show ?thesis
    by (simp add: decided_def)
qed

section \<open>An example\<close>

definition demo_memory :: "u64 \<Rightarrow> u8 option" where
  "demo_memory a = (if a < 4096 then None else Some (if a < 4100 then bstr ''GET '' ! unat (a - 4096) else 47))"

definition demo_ctx :: Ctx where
  "demo_ctx = \<lparr>cx_pid_tgid = 0xA0000000B, cx_ktime = 99, cx_prandom = 5, cx_cgroup = 1, cx_mem = demo_memory, cx_room = True,
    cx_at = (\<lambda>_. Some 7), cx_arg = (\<lambda>_. None), cx_ret = 0, cx_stack = (0, [])\<rparr>"

definition demo_bpf :: "bool \<Rightarrow> Bpf" where
  "demo_bpf keep = Bpf_init\<lparr>b_sock_meta := [(sock_fd_key 10 7, set_io_keep (with_peer_v4 0x0100007F 0x5000) keep)],
    b_pending_io := [(11, \<lparr>pi_buf_ptr = 4096, pi_buf_len = IO_BUF_LEN_UNBOUNDED, pi_fd = 7, pi_dir = 2, pi_timing_only = 0\<rparr>)]\<rparr>"

lemma demo_run: "length (b_events (snd (run_probe ExitIo demo_ctx (demo_bpf True)))) = 1"
  by code_simp

theorem probe_event_sound_witness:
  "\<exists>e. b_events (snd (run_probe ExitIo demo_ctx (demo_bpf True))) = [e] \<and> decode_event (encode_event e) = Some e \<and>
    bytes_ok demo_ctx (demo_bpf True) e"
proof -
  obtain e where e: "b_events (snd (run_probe ExitIo demo_ctx (demo_bpf True))) = [e]"
    using demo_run by (auto simp: length_Suc_conv)
  obtain rc b' where r: "run_probe ExitIo demo_ctx (demo_bpf True) = (rc, b')"
    by force
  show ?thesis
    using probe_event_sound [OF r, of e "[]"] e r by (simp add: demo_bpf_def Bpf_init_def)
qed

lemma demo_ctx_facts: "cx_at demo_ctx n = Some 7" "cur_tgid demo_ctx = 10"
  by (simp add: demo_ctx_def) code_simp

theorem close_silences_witness:
  "hm_get (b_sock_meta (bpf_step (demo_bpf True) (Run EnterClose demo_ctx))) (sock_fd_key 10 7) = None \<and>
    (\<exists>new. b_events (foldl bpf_step (bpf_step (demo_bpf True) (Run EnterClose demo_ctx)) [Run ExitIo demo_ctx]) =
      b_events (demo_bpf True) @ new \<and> (10, 7) \<notin> Option.these (io_of ` set new))"
  using close_silences [of demo_ctx 7 7 10 "[Run ExitIo demo_ctx]" "demo_bpf True", OF demo_ctx_facts(1) _ demo_ctx_facts(2) _ refl]
  by simp

text \<open>A call that is under way is not forgotten by the close: when the number is marked again before the call ends, the event
  of the old call speaks of the new socket.\<close>

definition demo_other :: Ctx where
  "demo_other = demo_ctx\<lparr>cx_pid_tgid := 0xA0000000C, cx_mem := (\<lambda>a. Some (if a = 7 then 2 else 0))\<rparr>"

theorem pending_call_outlives_close:
  "map io_of (b_events (foldl bpf_step (demo_bpf True) [Run EnterClose demo_other, Run EnterConnect demo_other, Run ExitIo demo_ctx])) =
    [Some (10, 7)]"
  by code_simp

theorem sampling_sticky_witness:
  "Option.bind (hm_get (b_sock_meta (foldl bpf_step (demo_bpf False) [SetSampleN 1, Run EnterConnect demo_ctx]))
    (sock_fd_key 10 7)) io_sampled_keep = Some False"
  using sampling_sticky [of "demo_bpf False" 10 7 False "[SetSampleN 1, Run EnterConnect demo_ctx]"]
  by (auto simp: demo_bpf_def Bpf_init_def hm_get_def)

end
