(* ===== verification/Pipeline.thy ===== *)
theory Pipeline
  imports H2_Invariants Reassemble K8s_Index Dual_Plane Export Probes
begin

text \<open>
  The agent's drain path (\<open>src/agent/src/main.rs\<close>): what one ring-buffer record does to all components, from
  the decoder to the exporters, and the periodic tick. Every component that the source keeps behind a lock is a field
  of one state; a lock is held for each access only. What other tasks and the kernel change (the indexes, the
  capture maps, the profile store, the span queue, the kernel's maps) are steps of their own in \<open>agent_run\<close>. \<open>/proc\<close>, the HTTP header
  parser and the wall clock are parameters.
\<close>

section \<open>State\<close>

record Agent =
  an_tcp :: Aggregator
  an_identity :: IdentityResolver
  an_reassembler :: Reassembler
  an_h2 :: H2Registry
  an_dual :: DualPlane
  an_inflight :: "(u64, u8) hashmap"
  an_denied :: nat
  an_reasm_count :: nat
  an_sockio_count :: nat
  an_tlsio_count :: nat
  an_socktimes_count :: nat
  an_drop_count :: u64
  an_unmapped_count :: u64
  an_events_in_tick :: nat
  an_rates :: "nat list"
  an_correlator :: Correlator
  an_sock_meta :: "(u64, SockMeta) hashmap"
  an_peers :: PeerCache
  an_pods :: PodIndex
  an_cgroups :: CgroupPodIndex
  an_service_map :: ServiceMap
  an_http :: HttpAggregator
  an_export :: ExportHub
  an_self_ids :: "u32 list"
  an_bpf_ids :: "u32 list"
  an_denied_map :: "(u32, u8) hashmap \<times> u32 list"

record Outside =
  ou_fs :: file_system
  ou_parse_req :: "bytes \<Rightarrow> (string option \<times> string option) option"
  ou_parse_resp :: "bytes \<Rightarrow> u16 option option"
  ou_now_unix :: nat

section \<open>Publishing an exchange\<close>

definition lookup_peer :: "u32 \<Rightarrow> i32 \<Rightarrow> instant \<Rightarrow> Agent \<Rightarrow> PeerAddr option \<times> Agent" where
  "lookup_peer tgid fd now a =
    (if sint fd < 0 then (None, a)
     else case peer_get tgid fd now (an_peers a) of
       (Some p, c) \<Rightarrow> (Some p, a\<lparr>an_peers := c\<rparr>)
     | (None, c) \<Rightarrow>
       let a = a\<lparr>an_peers := c\<rparr>
       in case Option.bind (hm_get (an_sock_meta a) (sock_fd_key tgid fd)) PeerAddr_from_meta of
            None \<Rightarrow> (None, a)
          | Some peer \<Rightarrow> (Some peer, a\<lparr>an_peers := peer_insert tgid fd peer now (an_peers a)\<rparr>))"

definition dst_from_index :: "PeerAddr option \<Rightarrow> PodIndex \<Rightarrow> DstId" where
  "dst_from_index peer idx =
    (case peer of
       None \<Rightarrow> Unknown
     | Some p \<Rightarrow>
       (case Option.bind (PeerAddr_v4_addr p) (lookup_ip idx) of
          Some (ns, name) \<Rightarrow> Pod ns name
        | None \<Rightarrow> IpPort (format_peer p)))"

text \<open>The source node: the pod of the process, else of its cgroup, names it.\<close>

definition name_source :: "PodIndex \<Rightarrow> CgroupPodIndex \<Rightarrow> u64 \<Rightarrow> NodeId \<Rightarrow> NodeId" where
  "name_source idx cgroups cgroup_id src =
    (let src = (if nd_pod_uid src = None
           then (case cgroup_lookup cgroups cgroup_id of Some uid \<Rightarrow> src\<lparr>nd_pod_uid := Some uid\<rparr> | None \<Rightarrow> src) else src)
     in case Option.bind (nd_pod_uid src) (lookup_uid idx) of
          Some (ns, name) \<Rightarrow> src\<lparr>nd_label := ns @ ''/'' @ name\<rparr>
        | None \<Rightarrow> src)"

definition publish_parsed ::
  "Outside \<Rightarrow> u32 \<Rightarrow> i32 \<Rightarrow> u32 \<Rightarrow> u64 \<Rightarrow> bool \<Rightarrow> PeerAddr option \<Rightarrow> u64 \<Rightarrow> ParsedExchange \<Rightarrow> instant \<Rightarrow> Agent \<Rightarrow> Agent" where
  "publish_parsed ou tgid fd stream_id t_start_ns is_client peer cgroup_id parsed now a =
    (let e = px_endpoint parsed
     in if is_otlp_export_route (ep_method e) (ep_path e) then a
        else case (if peer = None then lookup_peer tgid fd now a else (peer, a)) of
          (peer, a) \<Rightarrow>
            let a = a\<lparr>an_http := HttpAggregator_record parsed now (an_http a)\<rparr>
            in case resolve (ou_fs ou) tgid now (an_identity a) of
                 (src, identity) \<Rightarrow>
                   let a = a\<lparr>an_identity := identity\<rparr>;
                       src = name_source (an_pods a) (an_cgroups a) cgroup_id src;
                       dst = dst_from_index peer (an_pods a);
                       rec = \<lparr>mr_src = src, mr_dst = dst, mr_endpoint = e, mr_latency_ns = px_latency_ns parsed,
                         mr_status = px_status parsed\<rparr>;
                       a = a\<lparr>an_service_map := ServiceMap_record rec now (an_service_map a)\<rparr>
                   in a\<lparr>an_export := record_exchange (ou_now_unix ou) (nd_label src) dst (ep_method e) (ep_path e)
                        (px_latency_ns parsed) (px_status parsed) (ep_protocol e) (px_wire_ns parsed)
                        \<lparr>tm_tgid = tgid, tm_fd = fd, tm_stream_id = stream_id, tm_t_start_ns = t_start_ns, tm_is_client = is_client\<rparr>
                        now (an_export a)\<rparr>)"

definition join_exchange :: "Exchange \<Rightarrow> ParsedExchange \<Rightarrow> bool \<Rightarrow> instant \<Rightarrow> Agent \<Rightarrow> ParsedExchange \<times> Agent" where
  "join_exchange ex parsed from_tls now a =
    (if from_tls then
       (case join_wire (ex_tgid ex) (ex_fd ex) (ex_t_start_ns ex) (ex_t_end_ns ex) (ex_req_is_write ex) now (an_dual a) of
          (Some j, d) \<Rightarrow> (parsed\<lparr>px_wire_ns := Some (jn_wire_ns j)\<rparr>, a\<lparr>an_dual := d\<rparr>)
        | (None, d) \<Rightarrow> (parsed, a\<lparr>an_dual := d\<rparr>))
     else (parsed, a))"

definition handle_exchange :: "Outside \<Rightarrow> Exchange \<Rightarrow> instant \<Rightarrow> bool \<Rightarrow> Agent \<Rightarrow> Agent" where
  "handle_exchange ou ex now from_tls a =
    (case (if ex_peer ex = None then lookup_peer (ex_tgid ex) (ex_fd ex) now a else (ex_peer ex, a)) of
       (peer, a) \<Rightarrow>
         (case parse_exchange (ou_parse_req ou) (ou_parse_resp ou) ex of
            None \<Rightarrow> a
          | Some parsed \<Rightarrow>
            (case join_exchange ex parsed from_tls now a of
               (parsed, a) \<Rightarrow>
                 publish_parsed ou (ex_tgid ex) (ex_fd ex) 0 (ex_t_start_ns ex) (ex_req_is_write ex) peer (ex_cgroup_id ex)
                   parsed now a)))"

definition handle_h2_exchange :: "Outside \<Rightarrow> instant \<Rightarrow> H2Exchange \<Rightarrow> Agent \<Rightarrow> Agent" where
  "handle_h2_exchange ou now x a =
    publish_parsed ou (hx_tgid x) (hx_fd x) (hx_stream_id x) (hx_t_start_ns x) (hx_req_dir x = Write) None (hx_cgroup_id x)
      \<lparr>px_endpoint = HttpEndpoint_labeled (hx_protocol x) (hx_method x) (normalize_path (hx_path x)), px_status = hx_status x,
       px_latency_ns = H2Exchange_latency_ns x, px_wire_ns = None\<rparr> now a"

section \<open>Ingest\<close>

definition clear_inflight :: "u32 \<times> i32 \<Rightarrow> Agent \<Rightarrow> Agent" where
  "clear_inflight k a =
    (if sint (snd k) < 0 then a else a\<lparr>an_inflight := hm_remove (sock_fd_key (fst k) (snd k)) (an_inflight a)\<rparr>)"

definition event_chunk :: "SockIoEvent \<Rightarrow> bytes" where
  "event_chunk ev = take (min (unat (io_prefix_len ev)) (length (io_prefix ev))) (io_prefix ev)"

definition drop_if_http11 :: "SockIoEvent \<Rightarrow> Agent \<Rightarrow> Agent" where
  "drop_if_http11 ev a =
    (if h2_is_marked (an_h2 a) (io_tgid ev) (io_fd ev) \<and> looks_like_http11 (event_chunk ev)
     then (case h2_take_unmark (h2_drop_conn (an_h2 a) (io_tgid ev) (io_fd ev)) of
             (unmarks, h) \<Rightarrow> fold clear_inflight unmarks (a\<lparr>an_h2 := h\<rparr>))
     else a)"

definition ingest_h2 :: "Outside \<Rightarrow> SockIoEvent \<Rightarrow> bool \<Rightarrow> instant \<Rightarrow> Agent \<Rightarrow> Agent" where
  "ingest_h2 ou ev client_only now a =
    (case feed ev now client_only (an_h2 a) of
       (xs, h) \<Rightarrow>
         (case h2_take_unmark h of
            (unmarks, h) \<Rightarrow> fold (handle_h2_exchange ou now) xs (fold clear_inflight unmarks (a\<lparr>an_h2 := h\<rparr>))))"

definition ingest_http1 :: "Outside \<Rightarrow> SockIoEvent \<Rightarrow> bool \<Rightarrow> bool \<Rightarrow> instant \<Rightarrow> Agent \<Rightarrow> Agent" where
  "ingest_http1 ou ev from_tls client_only now a =
    (case reassembler_push ev now (an_reassembler a) of
       (flushed, r) \<Rightarrow>
         (case reassembler_take_unmark r of
            (unmarks, r) \<Rightarrow>
              let a = fold clear_inflight unmarks (a\<lparr>an_reassembler := r\<rparr>)
              in case flushed of
                   None \<Rightarrow> a
                 | Some ev \<Rightarrow>
                   let a = clear_inflight (io_tgid ev, io_fd ev) (a\<lparr>an_reasm_count := an_reasm_count a + 1\<rparr>)
                   in case (if client_only then observe_client ev now (an_correlator a) else observe ev now (an_correlator a)) of
                        (ex, c) \<Rightarrow>
                          let a = a\<lparr>an_correlator := c\<rparr>
                          in case ex of None \<Rightarrow> a | Some ex \<Rightarrow> handle_exchange ou ex now from_tls a))"

definition ingest_http_io :: "Outside \<Rightarrow> CommFilter \<Rightarrow> SockIoEvent \<Rightarrow> bool \<Rightarrow> bool \<Rightarrow> instant \<Rightarrow> Agent \<Rightarrow> Agent" where
  "ingest_http_io ou filt ev from_tls client_only now a =
    (case (if is_passthrough filt then (True, a)
           else case comm (ou_fs ou) (io_tgid ev) now (an_identity a) of
             (c, identity) \<Rightarrow> (filter_allow filt c, a\<lparr>an_identity := identity\<rparr>)) of
       (allowed, a) \<Rightarrow>
         if \<not> allowed
         then clear_inflight (io_tgid ev, io_fd ev)
                (a\<lparr>an_denied := an_denied a + 1, an_h2 := h2_drop_conn (an_h2 a) (io_tgid ev) (io_fd ev)\<rparr>)
         else
           let a = drop_if_http11 ev a
           in if h2_is_marked (an_h2 a) (io_tgid ev) (io_fd ev) \<or> looks_like_h2 (event_chunk ev)
              then ingest_h2 ou ev client_only now a
              else ingest_http1 ou ev from_tls client_only now a)"

section \<open>The drain loop\<close>

definition deny_tgid :: "CommFilter \<Rightarrow> u32 \<Rightarrow> Agent \<Rightarrow> Agent" where
  "deny_tgid filt tgid a =
    a\<lparr>an_denied_map := lazy_deny_insert (\<lambda>t m. map_insert t 1 m) filt tgid (an_denied_map a)\<rparr>"

text \<open>While the agent connects to itself to learn its own ids, events to that port are its own.\<close>

definition learn_ids :: "u16 \<Rightarrow> DecodedEvent \<Rightarrow> Agent \<Rightarrow> Agent" where
  "learn_ids calib d a =
    (case d of
       DLatency ev \<Rightarrow>
         if calib \<noteq> 0 \<and> u16_from_be (sl_dport_be ev) = calib
         then a\<lparr>an_bpf_ids := List.insert (sl_pid ev) (List.insert (sl_tgid ev) (an_bpf_ids a))\<rparr> else a
     | _ \<Rightarrow> a)"

definition ingest_kept :: "Outside \<Rightarrow> CommFilter \<Rightarrow> bool \<Rightarrow> DecodedEvent \<Rightarrow> instant \<Rightarrow> Agent \<Rightarrow> Agent" where
  "ingest_kept ou filt tls_client_only d now a =
    (case d of
       DLatency ev \<Rightarrow> a\<lparr>an_tcp := Aggregator_record ev now (an_tcp a)\<rparr>
     | DIo ev \<Rightarrow> ingest_http_io ou filt ev False False now (a\<lparr>an_sockio_count := an_sockio_count a + 1\<rparr>)
     | DTlsIo ev \<Rightarrow> ingest_http_io ou filt ev True tls_client_only now (a\<lparr>an_tlsio_count := an_tlsio_count a + 1\<rparr>)
     | DSockIoTimes ev \<Rightarrow>
       let a = a\<lparr>an_socktimes_count := an_socktimes_count a + 1\<rparr>
       in (case IoDir_from_u8 (st_dir ev) of
             Some dir \<Rightarrow> a\<lparr>an_dual := note_ts (st_tgid ev) (st_fd ev) dir (st_ts_ns ev) now (an_dual a)\<rparr>
           | None \<Rightarrow> a)
     | DTlsHandshake ev \<Rightarrow>
       a\<lparr>an_dual := dp_record_handshake (hs_latency_ns ev) now (an_dual a),
         an_export := note_handshake (hs_tgid ev) (hs_fd ev) (hs_latency_ns ev) (hs_ts_ns ev) now (an_export a)\<rparr>)"

definition ingest_record :: "Outside \<Rightarrow> CommFilter \<Rightarrow> bool \<Rightarrow> u16 \<Rightarrow> bytes \<Rightarrow> instant \<Rightarrow> Agent \<Rightarrow> Agent" where
  "ingest_record ou filt tls_client_only calib item now a =
    (case decode_event item of
       None \<Rightarrow> a
     | Some d \<Rightarrow>
       let a = learn_ids calib d a
       in case comm_pair (ou_fs ou) (DecodedEvent_tgid d) (DecodedEvent_pid d) now (an_identity a) of
            (c, identity) \<Rightarrow>
              let a = a\<lparr>an_identity := identity\<rparr>
              in case classify_ingest (DecodedEvent_tgid d) (DecodedEvent_pid d) (an_self_ids a @ an_bpf_ids a) c filt of
                   Keep \<Rightarrow>
                   let a = ingest_kept ou filt tls_client_only d now a
                   in a\<lparr>an_events_in_tick := an_events_in_tick a + 1\<rparr>
                 | SelfProcess \<Rightarrow> deny_tgid filt (DecodedEvent_tgid d) a
                 | Denied \<Rightarrow> deny_tgid filt (DecodedEvent_tgid d) (a\<lparr>an_denied := an_denied a + 1\<rparr>))"

section \<open>The tick\<close>

definition fd_open :: "Agent \<Rightarrow> u32 \<Rightarrow> i32 \<Rightarrow> bool" where
  "fd_open a tgid fd \<longleftrightarrow> (if sint fd < 0 then False
    else hm_get (an_sock_meta a) (sock_fd_key tgid fd) \<noteq> None \<or> hm_get (an_inflight a) (sock_fd_key tgid fd) \<noteq> None)"

definition evict_tick :: "instant \<Rightarrow> Agent \<Rightarrow> Agent" where
  "evict_tick now a =
    (case reassembler_take_unmark (reassembler_evict_stale now (an_reassembler a)) of
       (unmarks, r) \<Rightarrow>
         (case h2_take_unmark (h2_evict_closed (fd_open a) (h2_evict_stale now (an_h2 a))) of
            (h_unmarks, h) \<Rightarrow>
              fold clear_inflight (unmarks @ h_unmarks)
                (a\<lparr>an_reassembler := r, an_h2 := h, an_dual := dp_evict_closed (fd_open a) (dp_evict_stale now (an_dual a)),
                   an_export := evict_handshake now (fd_open a) (an_export a)\<rparr>)))"

text \<open>The sampling rate: a pinned one, else the next of the automatic policy from the drops since the last tick.
  The fields are the last drop count, the automatic rate and the quiet ticks.\<close>

record Sampler =
  sp_last_drops :: u64
  sp_auto_n :: u32
  sp_quiet_ticks :: u32

definition sample_tick :: "u32 option \<Rightarrow> u64 \<Rightarrow> Sampler \<Rightarrow> u32 \<times> Sampler" where
  "sample_tick pinned v s =
    (case pinned of
       Some n \<Rightarrow> (n, s)
     | None \<Rightarrow>
       (case next_auto_n (sp_auto_n s) (sat_sub v (sp_last_drops s)) (sp_quiet_ticks s) of
          (next, q) \<Rightarrow> (next, \<lparr>sp_last_drops = v, sp_auto_n = next, sp_quiet_ticks = q\<rparr>)))"

text \<open>The events per second of the last minute.\<close>

definition push_rate :: "Agent \<Rightarrow> Agent" where
  "push_rate a =
    (let r = an_rates a @ [an_events_in_tick a]
     in a\<lparr>an_rates := (if length r > 60 then tl r else r), an_events_in_tick := 0\<rparr>)"

text \<open>\<open>set_ok\<close> tells whether the kernel took the new rate; only then is it exported.\<close>

definition set_sample_n :: "bool \<Rightarrow> u32 \<Rightarrow> ExportHub \<Rightarrow> ExportHub" where
  "set_sample_n set_ok n h = (if set_ok then set_bpf_sample_n n h else h)"

definition note_drops :: "u32 option \<Rightarrow> u64 option \<Rightarrow> bool \<Rightarrow> Sampler \<Rightarrow> Agent \<Rightarrow> Sampler \<times> Agent" where
  "note_drops pinned drops set_ok s a =
    (case drops of
       None \<Rightarrow> (s, a)
     | Some v \<Rightarrow>
       let a = a\<lparr>an_drop_count := v, an_export := set_events_dropped (unat v) (an_export a)\<rparr>
       in (case sample_tick pinned v s of
             (n, s) \<Rightarrow> (s, a\<lparr>an_export := set_sample_n set_ok n (an_export a)\<rparr>)))"

definition note_unmapped :: "u64 option \<Rightarrow> Agent \<Rightarrow> Agent" where
  "note_unmapped unmapped a =
    (case unmapped of
       None \<Rightarrow> a
     | Some v \<Rightarrow> a\<lparr>an_unmapped_count := v, an_export := set_tls_unmapped (unat v) (an_export a)\<rparr>)"

text \<open>\<open>drops\<close> and \<open>unmapped\<close> are the two counters as read from the kernel, \<open>None\<close> when the read fails.\<close>

definition agent_tick ::
  "u32 option \<Rightarrow> u64 option \<Rightarrow> u64 option \<Rightarrow> bool \<Rightarrow> instant \<Rightarrow> Sampler \<Rightarrow> Agent \<Rightarrow> Sampler \<times> Agent" where
  "agent_tick pinned drops unmapped set_ok now s a =
    (case note_drops pinned drops set_ok s (push_rate a) of
       (s, a) \<Rightarrow>
         let a = note_unmapped unmapped a;
             a = a\<lparr>an_export := set_edge_count (edge_count (an_service_map a)) (an_export a)\<rparr>
         in (s, evict_tick now a))"

section \<open>The stack thread\<close>

text \<open>One item of the stack ring. \<open>None\<close> is the panic of a symbol cut inside a character, which ends the thread.\<close>

definition stack_item ::
  "(u32 \<Rightarrow> u64 \<Rightarrow> string option) \<Rightarrow> bytes \<Rightarrow> StackSymbolizer \<times> ProfileStore \<Rightarrow> (StackSymbolizer \<times> ProfileStore) option" where
  "stack_item symbolize item zp =
    (case decode_stack_sample item of
       None \<Rightarrow> Some zp
     | Some raw \<Rightarrow>
       (case symbolize_ips symbolize (ss_tgid raw) (take (unat (ss_frame_count raw)) (ss_ips raw)) (fst zp) of
          None \<Rightarrow> None
        | Some (frames, z) \<Rightarrow>
          Some (z, if frames \<noteq> [] then push_symbolized (ss_tgid raw) (ss_ts_ns raw) frames (snd zp) else snd zp)))"

section \<open>Start\<close>

definition Agent_init :: "(string \<Rightarrow> string option) \<Rightarrow> IdentityResolver \<Rightarrow> u32 list \<Rightarrow> bool \<Rightarrow> nat \<Rightarrow> ProfileStore option \<Rightarrow> u32 \<Rightarrow> Agent" where
  "Agent_init env identity self_ids client_built now_unix profile init_sample_n =
    \<lparr>an_tcp = Aggregator_default, an_identity = identity, an_reassembler = Reassembler_default, an_h2 = H2Registry_default,
     an_dual = DualPlane_from_env env, an_inflight = [], an_denied = 0, an_reasm_count = 0, an_sockio_count = 0,
     an_tlsio_count = 0, an_socktimes_count = 0, an_drop_count = 0, an_unmapped_count = 0,
     an_events_in_tick = 0, an_rates = [], an_correlator = Correlator_default, an_sock_meta = [],
     an_peers = PeerCache_default, an_pods = PodIndex_default, an_cgroups = [], an_service_map = ServiceMap_default,
     an_http = HttpAggregator_default,
     an_export = set_bpf_sample_n init_sample_n (ExportHub_spawn env client_built now_unix profile),
     an_self_ids = self_ids, an_bpf_ids = [], an_denied_map = ([], [])\<rparr>"

section \<open>All components together\<close>

text \<open>
  The runs of the agent: ring-buffer records and ticks in any order, with any file system, filter and clock, and
  between them what other tasks do: the index refreshes, the kernel's changes of its maps, the capture sweep, the
  stack thread and the flush.
\<close>

inductive agent_run :: "Agent \<Rightarrow> Agent \<Rightarrow> bool" for a0 where
  start: "agent_run a0 a0"
| item: "agent_run a0 a \<Longrightarrow> agent_run a0 (ingest_record ou filt tls_client_only calib item now a)"
| tick: "agent_run a0 a \<Longrightarrow> agent_run a0 (snd (agent_tick pinned drops unmapped set_ok now s a))"
| indexes: "agent_run a0 a \<Longrightarrow> agent_run a0 (a\<lparr>an_pods := pods, an_cgroups := cgroups\<rparr>)"
| kernel: "agent_run a0 a \<Longrightarrow> agent_run a0 (a\<lparr>an_sock_meta := meta, an_inflight := inflight\<rparr>)"
| sweep: "agent_run a0 a \<Longrightarrow> agent_run a0 (a\<lparr>an_self_ids := ids, an_denied_map := dm, an_identity := identity\<rparr>)"
| stacks: "agent_run a0 a \<Longrightarrow> eh_profile (an_export a) = Some st \<Longrightarrow>
    agent_run a0 (a\<lparr>an_export := (an_export a)\<lparr>eh_profile := Some st'\<rparr>\<rparr>)"
| flush: "agent_run a0 a \<Longrightarrow> traces_url \<noteq> None \<Longrightarrow>
    agent_run a0 (a\<lparr>an_export := snd (flush_tick js sf t metrics_url traces_url mok tok (an_export a))\<rparr>)"

definition agent_ok :: "ExportHub \<Rightarrow> Agent \<Rightarrow> bool" where
  "agent_ok h0 a \<longleftrightarrow> h2_reach (an_h2 a) \<and> (\<exists>h. peer_inv h (an_peers a)) \<and> edges.capped (an_service_map a) \<and>
    (\<exists>d. hub_run h0 (an_export a) [] d) \<and>
    edge_total ed_cum_count (an_service_map a) = eh_http_total (an_export a) \<and>
    edge_total ed_cum_errors (an_service_map a) = eh_http_errors (an_export a)"

lemma agent_ok_cong:
  "agent_ok h0 a \<Longrightarrow> an_h2 a' = an_h2 a \<Longrightarrow> an_peers a' = an_peers a \<Longrightarrow> an_service_map a' = an_service_map a \<Longrightarrow>
    an_export a' = an_export a \<Longrightarrow> agent_ok h0 a'"
  by (simp add: agent_ok_def)

lemma agent_ok_h2: "agent_ok h0 a \<Longrightarrow> h2_reach h \<Longrightarrow> agent_ok h0 (a\<lparr>an_h2 := h\<rparr>)"
  by (simp add: agent_ok_def)

lemma agent_ok_reach: "agent_ok h0 a \<Longrightarrow> h2_reach (an_h2 a)"
  by (simp add: agent_ok_def)

lemma agent_ok_hub:
  "agent_ok h0 a \<Longrightarrow> (\<And>d. hub_run h0 (an_export a) [] d \<Longrightarrow> \<exists>d. hub_run h0 g [] d) \<Longrightarrow>
    eh_http_total g = eh_http_total (an_export a) \<Longrightarrow> eh_http_errors g = eh_http_errors (an_export a) \<Longrightarrow>
    agent_ok h0 (a\<lparr>an_export := g\<rparr>)"
  by (auto simp: agent_ok_def)

lemma clear_inflight_fields:
  "an_h2 (clear_inflight k a) = an_h2 a" "an_peers (clear_inflight k a) = an_peers a"
  "an_service_map (clear_inflight k a) = an_service_map a" "an_export (clear_inflight k a) = an_export a"
  "an_correlator (clear_inflight k a) = an_correlator a" "an_reassembler (clear_inflight k a) = an_reassembler a"
  "an_http (clear_inflight k a) = an_http a" "an_dual (clear_inflight k a) = an_dual a"
  "an_reasm_count (clear_inflight k a) = an_reasm_count a" "an_identity (clear_inflight k a) = an_identity a"
  "an_self_ids (clear_inflight k a) = an_self_ids a" "an_bpf_ids (clear_inflight k a) = an_bpf_ids a"
  by (simp_all add: clear_inflight_def)

lemma clear_all_fields:
  "an_h2 (fold clear_inflight ks a) = an_h2 a" "an_peers (fold clear_inflight ks a) = an_peers a"
  "an_service_map (fold clear_inflight ks a) = an_service_map a" "an_export (fold clear_inflight ks a) = an_export a"
  "an_correlator (fold clear_inflight ks a) = an_correlator a" "an_reassembler (fold clear_inflight ks a) = an_reassembler a"
  "an_http (fold clear_inflight ks a) = an_http a" "an_dual (fold clear_inflight ks a) = an_dual a"
  "an_reasm_count (fold clear_inflight ks a) = an_reasm_count a" "an_identity (fold clear_inflight ks a) = an_identity a"
  "an_self_ids (fold clear_inflight ks a) = an_self_ids a" "an_bpf_ids (fold clear_inflight ks a) = an_bpf_ids a"
  by (induction ks arbitrary: a) (simp_all add: clear_inflight_fields)

lemmas cleared = clear_inflight_fields clear_all_fields

lemma agent_ok_cleared: "agent_ok h0 a \<Longrightarrow> agent_ok h0 (fold clear_inflight ks a)" "agent_ok h0 a \<Longrightarrow> agent_ok h0 (clear_inflight k a)"
  by (erule agent_ok_cong; simp add: cleared)+

lemma lookup_peer_fields:
  "an_h2 (snd (lookup_peer tgid fd now a)) = an_h2 a" "an_service_map (snd (lookup_peer tgid fd now a)) = an_service_map a"
  "an_export (snd (lookup_peer tgid fd now a)) = an_export a" "an_http (snd (lookup_peer tgid fd now a)) = an_http a"
  "an_correlator (snd (lookup_peer tgid fd now a)) = an_correlator a" "an_dual (snd (lookup_peer tgid fd now a)) = an_dual a"
  "an_reassembler (snd (lookup_peer tgid fd now a)) = an_reassembler a"
  by (simp_all add: lookup_peer_def Let_def split: prod.split option.split)

lemma lookup_peer_inv: "peer_inv h (an_peers a) \<Longrightarrow> \<exists>h. peer_inv h (an_peers (snd (lookup_peer tgid fd now a)))"
proof -
  assume "peer_inv h (an_peers a)"
  then have g: "peer_inv (h @ [o1]) (snd (peer_get tgid fd now (an_peers a)))" for o1
    by (rule peer_inv_get)
  obtain r c where rc: "peer_get tgid fd now (an_peers a) = (r, c)"
    by force
  have "peer_inv (h @ [undefined] @ [(PeerInsert tgid fd p, now)]) (peer_insert tgid fd p now c)" for p
    using peer_inv_insert [OF g, of undefined tgid fd p now] by (simp add: rc)
  then show ?thesis
    using g rc \<open>peer_inv h (an_peers a)\<close>
    by (auto simp: lookup_peer_def Let_def split: option.split)
qed

lemma agent_ok_lookup: "agent_ok h0 a \<Longrightarrow> agent_ok h0 (snd (lookup_peer tgid fd now a))"
  using lookup_peer_inv by (auto simp: agent_ok_def lookup_peer_fields)

text \<open>What a publication does, apart from the caches.\<close>

lemma publish_parsed_cases:
  fixes parsed :: ParsedExchange
  assumes "\<not> is_otlp_export_route (ep_method (px_endpoint parsed)) (ep_path (px_endpoint parsed))"
    and "publish_parsed ou tgid fd sid t0 cl peer cg parsed now a = a'"
  obtains b src dst rc m where "b = a \<or> b = snd (lookup_peer tgid fd now a)"
    and "mr_endpoint rc = px_endpoint parsed" "mr_latency_ns rc = px_latency_ns parsed" "mr_status rc = px_status parsed"
    and "an_h2 a' = an_h2 a" "an_peers a' = an_peers b" "an_correlator a' = an_correlator a"
    and "an_reassembler a' = an_reassembler a" "an_http a' = HttpAggregator_record parsed now (an_http a)"
    and "an_service_map a' = ServiceMap_record rc now (an_service_map a)"
    and "an_export a' = record_exchange (ou_now_unix ou) src dst (ep_method (px_endpoint parsed)) (ep_path (px_endpoint parsed))
      (px_latency_ns parsed) (px_status parsed) (ep_protocol (px_endpoint parsed)) (px_wire_ns parsed) m now (an_export a)"
proof -
  obtain q b where b: "(if peer = None then lookup_peer tgid fd now a else (peer, a)) = (q, b)"
    by force
  then have b': "b = a \<or> b = snd (lookup_peer tgid fd now a)"
    by (auto split: if_splits)
  then have f: "an_h2 b = an_h2 a" "an_correlator b = an_correlator a" "an_reassembler b = an_reassembler a"
    "an_http b = an_http a" "an_service_map b = an_service_map a" "an_export b = an_export a"
    by (auto simp: lookup_peer_fields)
  obtain src i where r: "resolve (ou_fs ou) tgid now (an_identity b) = (src, i)"
    by force
  note eq = assms(2) [symmetric, unfolded publish_parsed_def Let_def if_not_P [OF assms(1)] b prod.case, simplified r prod.case, simplified]
  show thesis
    by (rule that [OF b']) (simp_all add: eq r f)
qed

lemma agent_ok_publish:
  assumes "agent_ok h0 a"
  shows "agent_ok h0 (publish_parsed ou tgid fd sid t0 cl peer cg parsed now a)"
proof (cases "is_otlp_export_route (ep_method (px_endpoint parsed)) (ep_path (px_endpoint parsed))")
  case True
  then show ?thesis
    using assms by (simp add: publish_parsed_def Let_def)
next
  case False
  let ?a = "publish_parsed ou tgid fd sid t0 cl peer cg parsed now a"
  obtain b src dst rc m where b: "b = a \<or> b = snd (lookup_peer tgid fd now a)" "mr_status rc = px_status parsed"
    "an_h2 ?a = an_h2 a" "an_peers ?a = an_peers b" "an_service_map ?a = ServiceMap_record rc now (an_service_map a)"
    "an_export ?a = record_exchange (ou_now_unix ou) src dst (ep_method (px_endpoint parsed)) (ep_path (px_endpoint parsed))
      (px_latency_ns parsed) (px_status parsed) (ep_protocol (px_endpoint parsed)) (px_wire_ns parsed) m now (an_export a)"
    by (rule publish_parsed_cases [OF False refl])
  have "\<exists>h. peer_inv h (an_peers b)"
    using b(1) assms agent_ok_lookup [OF assms] by (auto simp: agent_ok_def)
  moreover have "edges.capped (ServiceMap_record rc now (an_service_map a))"
    using edges.capped_step [where s = "an_service_map a" and r = "(rc, now)"] assms by (simp add: agent_ok_def)
  ultimately show ?thesis
    using assms b edge_total_step [where m = "an_service_map a" and rt = "(rc, now)"]
    by (auto simp: agent_ok_def record_exchange_keeps intro: hub_run.exchange)
qed

lemma join_exchange_fields:
  "an_h2 (snd (join_exchange ex q tls now a)) = an_h2 a" "an_peers (snd (join_exchange ex q tls now a)) = an_peers a"
  "an_service_map (snd (join_exchange ex q tls now a)) = an_service_map a"
  "an_export (snd (join_exchange ex q tls now a)) = an_export a"
  by (simp_all add: join_exchange_def split: prod.split option.split)

lemma agent_ok_exchange:
  assumes "agent_ok h0 a"
  shows "agent_ok h0 (handle_exchange ou ex now tls a)"
proof -
  obtain q b where b: "(if ex_peer ex = None then lookup_peer (ex_tgid ex) (ex_fd ex) now a else (ex_peer ex, a)) = (q, b)"
    by force
  then have ok: "agent_ok h0 b"
    using assms agent_ok_lookup [OF assms, of "ex_tgid ex" "ex_fd ex" now] by (auto split: if_splits)
  have "agent_ok h0 (snd (join_exchange ex parsed tls now b))" for parsed
    using ok by (rule agent_ok_cong) (simp_all add: join_exchange_fields)
  then show ?thesis
    using ok unfolding handle_exchange_def b by (auto simp: case_prod_beta split: option.split intro: agent_ok_publish)
qed

lemma agent_ok_h2_exchanges: "agent_ok h0 a \<Longrightarrow> agent_ok h0 (fold (handle_h2_exchange ou now) xs a)"
  by (induction xs arbitrary: a) (simp_all add: handle_h2_exchange_def agent_ok_publish)

lemma agent_ok_ingest_h2:
  assumes "agent_ok h0 a"
  shows "agent_ok h0 (ingest_h2 ou ev co now a)"
proof -
  have "h2_reach (snd (h2_take_unmark (snd (feed ev now co (an_h2 a)))))"
    using assms by (intro h2_unmark h2_feed agent_ok_reach)
  then show ?thesis
    unfolding ingest_h2_def case_prod_beta by (intro agent_ok_h2_exchanges agent_ok_cleared(1) agent_ok_h2 assms)
qed

lemma agent_ok_ingest_http1:
  assumes "agent_ok h0 a"
  shows "agent_ok h0 (ingest_http1 ou ev tls co now a)"
proof -
  have 1: "agent_ok h0 (fold clear_inflight ks (a\<lparr>an_reassembler := r\<rparr>))" for ks r
    by (intro agent_ok_cleared) (rule agent_ok_cong [OF assms]; simp)
  have 2: "agent_ok h0 (clear_inflight k (fold clear_inflight ks (a\<lparr>an_reassembler := r\<rparr>)\<lparr>an_reasm_count := n\<rparr>)\<lparr>an_correlator := c\<rparr>)"
    for k ks r n c
    by (rule agent_ok_cong [OF 1 [of ks r]]) (simp_all add: cleared)
  show ?thesis
    unfolding ingest_http1_def Let_def
    by (auto simp: case_prod_beta 1 2 split: option.split intro: agent_ok_exchange)
qed

lemma agent_ok_ingest:
  assumes "agent_ok h0 a"
  shows "agent_ok h0 (ingest_http_io ou filt ev tls co now a)"
proof -
  have id: "agent_ok h0 (a\<lparr>an_identity := i\<rparr>)" for i
    by (rule agent_ok_cong [OF assms]) simp_all
  have drop: "agent_ok h0 (drop_if_http11 ev b)" if "agent_ok h0 b" for b
    unfolding drop_if_http11_def case_prod_beta
    by (auto intro!: agent_ok_cleared agent_ok_h2 that h2_unmark h2_drop agent_ok_reach [OF that])
  have denied: "agent_ok h0 (clear_inflight k (b\<lparr>an_denied := n, an_h2 := h\<rparr>))" if "agent_ok h0 b" "h2_reach h" for b k n h
    using agent_ok_h2 [OF that] by (intro agent_ok_cleared) (erule agent_ok_cong; simp)
  show ?thesis
    unfolding ingest_http_io_def Let_def
    by (auto simp: case_prod_beta intro!: denied agent_ok_ingest_h2 agent_ok_ingest_http1 drop id assms
        h2_drop agent_ok_reach [OF assms])
qed

lemma agent_ok_kept:
  assumes "agent_ok h0 a"
  shows "agent_ok h0 (ingest_kept ou filt tco d now a)"
proof -
  have counters: "agent_ok h0 (a\<lparr>an_sockio_count := n\<rparr>)" "agent_ok h0 (a\<lparr>an_tlsio_count := n\<rparr>)" for n
    by (rule agent_ok_cong [OF assms]; simp)+
  have "agent_ok h0 (a\<lparr>an_export := note_handshake t f l ts now (an_export a)\<rparr>)" for t f l ts
    by (rule agent_ok_hub [OF assms]) (auto intro: hub_run.handshake)
  then have hs: "agent_ok h0 (a\<lparr>an_dual := dl, an_export := note_handshake t f l ts now (an_export a)\<rparr>)" for dl t f l ts
    by (rule agent_ok_cong) simp_all
  show ?thesis
    unfolding ingest_kept_def Let_def
    by (cases d) (auto intro!: agent_ok_ingest counters hs agent_ok_cong [OF assms] split: option.split)
qed

lemma agent_ok_record:
  assumes "agent_ok h0 a"
  shows "agent_ok h0 (ingest_record ou filt tco calib item now a)"
proof -
  have learn: "agent_ok h0 (learn_ids calib d a\<lparr>an_identity := i\<rparr>)" for d i
    by (rule agent_ok_cong [OF assms]) (simp_all add: learn_ids_def split: DecodedEvent.split)
  have "agent_ok h0 (deny_tgid filt t b)" if "agent_ok h0 b" for t b
    by (rule agent_ok_cong [OF that]) (simp_all add: deny_tgid_def)
  moreover have "agent_ok h0 (deny_tgid filt t (b\<lparr>an_denied := n\<rparr>))" if "agent_ok h0 b" for t b n
    by (rule agent_ok_cong [OF that]) (simp_all add: deny_tgid_def)
  moreover have "agent_ok h0 (ingest_kept ou filt tco d now b\<lparr>an_events_in_tick := n\<rparr>)" if "agent_ok h0 b" for d b n
    by (rule agent_ok_cong [OF agent_ok_kept [OF that]]) simp_all
  ultimately show ?thesis
    unfolding ingest_record_def Let_def case_prod_beta
    using assms learn by (auto split: option.split IngestSkip.split)
qed

lemma agent_ok_evict:
  assumes ok: "agent_ok h0 b"
  shows "agent_ok h0 (evict_tick now b)"
proof -
  have "agent_ok h0 (b\<lparr>an_h2 := snd (h2_take_unmark (h2_evict_closed (fd_open b) (h2_evict_stale now (an_h2 b))))\<rparr>)"
    by (intro agent_ok_h2 ok h2_unmark h2_closed h2_stale agent_ok_reach [OF ok])
  then have "agent_ok h0 (b\<lparr>an_h2 := snd (h2_take_unmark (h2_evict_closed (fd_open b) (h2_evict_stale now (an_h2 b)))),
      an_export := evict_handshake now (fd_open b) (an_export b)\<rparr>)"
    by (rule agent_ok_hub [of _ "b\<lparr>an_h2 := _\<rparr>", simplified]) (auto intro: hub_run.evict)
  then show ?thesis
    unfolding evict_tick_def case_prod_beta by (intro agent_ok_cleared) (erule agent_ok_cong; simp)
qed

lemma agent_ok_gauges:
  assumes "agent_ok h0 a"
  shows "agent_ok h0 (push_rate a)" "agent_ok h0 (snd (note_drops pinned drops set_ok s a))" "agent_ok h0 (note_unmapped unmapped a)"
    "agent_ok h0 (a\<lparr>an_export := set_edge_count n (an_export a)\<rparr>)"
proof -
  show "agent_ok h0 (push_rate a)"
    by (rule agent_ok_cong [OF assms]) (simp_all add: push_rate_def Let_def)
  have dropped: "agent_ok h0 (a\<lparr>an_export := set_events_dropped v (an_export a)\<rparr>)"
    "agent_ok h0 (a\<lparr>an_export := set_bpf_sample_n m (set_events_dropped v (an_export a))\<rparr>)" for v m
    by (rule agent_ok_hub [OF assms], auto intro: hub_run.events_dropped hub_run.bpf_sample)+
  then have "agent_ok h0 (a\<lparr>an_export := set_sample_n set_ok m (set_events_dropped v (an_export a))\<rparr>)" for v m
    by (simp add: set_sample_n_def)
  then have "agent_ok h0 (a\<lparr>an_drop_count := c, an_export := set_sample_n set_ok m (set_events_dropped v (an_export a))\<rparr>)" for c v m
    by (rule agent_ok_cong) simp_all
  then show "agent_ok h0 (snd (note_drops pinned drops set_ok s a))"
    using assms by (simp add: note_drops_def Let_def case_prod_beta split: option.split)
  have "agent_ok h0 (a\<lparr>an_export := set_tls_unmapped v (an_export a)\<rparr>)" for v
    by (rule agent_ok_hub [OF assms]) (auto intro: hub_run.unmapped)
  then have "agent_ok h0 (a\<lparr>an_unmapped_count := c, an_export := set_tls_unmapped v (an_export a)\<rparr>)" for c v
    by (rule agent_ok_cong) simp_all
  then show "agent_ok h0 (note_unmapped unmapped a)"
    using assms by (simp add: note_unmapped_def split: option.split)
  show "agent_ok h0 (a\<lparr>an_export := set_edge_count n (an_export a)\<rparr>)"
    by (rule agent_ok_hub [OF assms]) (auto intro: hub_run.edges)
qed

lemma agent_ok_tick: "agent_ok h0 a \<Longrightarrow> agent_ok h0 (snd (agent_tick pinned drops unmapped set_ok now s a))"
  unfolding agent_tick_def Let_def case_prod_beta snd_conv by (intro agent_ok_evict agent_ok_gauges)

lemma agent_run_ok:
  assumes "agent_run (Agent_init env identity ids built t prof n) a"
  shows "agent_ok (ExportHub_spawn env built t prof) a"
  using assms
proof (induction rule: agent_run.induct)
  case start
  have "\<exists>d. hub_run (ExportHub_spawn env built t prof) (set_bpf_sample_n n (ExportHub_spawn env built t prof)) [] d"
    using hub_run.bpf_sample [OF hub_run.start] by blast
  then show ?case
    using peer_inv_run [of "[]"] h2_init
    by (auto simp: agent_ok_def Agent_init_def edges.capped_def ServiceMap_default_def ExportHub_spawn_def Let_def)
next
  case (item a ou filt tco calib it now)
  then show ?case
    by (intro agent_ok_record)
next
  case (tick a pinned drops unmapped set_ok now s)
  then show ?case
    by (intro agent_ok_tick)
next
  case (stacks a st st')
  then show ?case
    by (intro agent_ok_hub) (auto intro: hub_run.stacks)
next
  case (flush a tu js sf t mu mok tok)
  then show ?case
    by (intro agent_ok_hub) (auto intro: flush_tick_run)
qed (erule agent_ok_cong; simp)+

text \<open>C6. All views of the traffic agree and its tables are bounded, in every run of the agent from its start, whatever
  records arrive, in whatever order with ticks, flushes, index refreshes and changes of the kernel's maps: the exchanges
  and the server errors counted over the edges of the service map, by the exporter and over the metric series are the same;
  connections, peers, edges, metric series and queued spans stay within their caps; and the spans that are queued or were
  counted as failed are no more than the sampled ones.\<close>

theorem agent_views_agree:
  assumes "agent_run (Agent_init env identity ids built t prof n) a"
  shows "edge_total ed_cum_count (an_service_map a) = eh_http_total (an_export a) \<and>
    total_requests (eh_registry (an_export a)) = eh_http_total (an_export a) \<and>
    edge_total ed_cum_errors (an_service_map a) = eh_http_errors (an_export a) \<and>
    total_errors (eh_registry (an_export a)) = eh_http_errors (an_export a) \<and>
    length (hr_conns (an_h2 a)) \<le> MAX_CONNS \<and> length (pc_map (an_peers a)) \<le> PEER_CAP \<and>
    length (sm_edges (an_service_map a)) \<le> MAX_EDGES + 1 \<and> series_len (eh_registry (an_export a)) \<le> MAX_SERIES + 1 \<and>
    length (sq_q (eh_spans (an_export a))) \<le> SPAN_QUEUE_CAP \<and>
    length (sq_q (eh_spans (an_export a))) + eh_traces_export_failed (an_export a) \<le> eh_traces_sampled (an_export a)"
proof -
  have ok: "agent_ok (ExportHub_spawn env built t prof) a"
    by (rule agent_run_ok [OF assms])
  then obtain d where "hub_run (ExportHub_spawn env built t prof) (an_export a) [] d"
    by (auto simp: agent_ok_def)
  then have "hub_inv (an_export a) [] d"
    by (rule hub_run_inv)
  moreover have "registry_ok (an_h2 a)" "\<exists>h. peer_inv h (an_peers a)" "edges.capped (an_service_map a)"
    using ok h2_reach_ok by (auto simp: agent_ok_def)
  ultimately show ?thesis
    using ok edges.capped_bound [of "an_service_map a"] series.capped_bound [of "eh_registry (an_export a)"]
    by (auto simp: agent_ok_def hub_but_def series_len_def registry_ok_def peer_inv_def)
qed

section \<open>One HTTP/1 exchange, end to end\<close>

text \<open>An event that carries a whole message head, on a descriptor without HTTP/2 state.\<close>

definition whole_head :: "SockIoEvent \<Rightarrow> bool" where
  "whole_head ev \<longleftrightarrow> length (io_prefix ev) = SOCK_IO_PREFIX_LEN \<and> \<not> is_neg (io_ret ev) \<and> IoDir_from_u8 (io_dir ev) \<noteq> None \<and>
    is_http_start (event_chunk ev) \<and> headers_done (event_chunk ev) \<and> \<not> looks_like_h2 (event_chunk ev)"

lemma whole_headD:
  assumes "whole_head ev" "captured ev = c"
  shows "event_chunk ev = c" "is_http_start c" "headers_done c" "\<not> looks_like_h2 c" "length c \<le> 256" "c \<noteq> []"
proof -
  show c: "event_chunk ev = c"
    unfolding event_chunk_def by (rule assms(2))
  show h: "is_http_start c" "headers_done c" "\<not> looks_like_h2 c"
    using assms(1) unfolding whole_head_def c by simp_all
  show "length c \<le> 256"
    using assms(1) unfolding assms(2) [symmetric] by (simp add: whole_head_def SOCK_IO_PREFIX_LEN_def)
  show "c \<noteq> []"
    using h(2) by (auto simp: headers_done_def windows_def)
qed

lemma whole_head_flush:
  assumes "whole_head ev" "captured ev = c"
  shows "buf_step ev now None = (Some (synthetic ev c (io_ts_ns ev)), None)"
proof -
  have "flush ev (buf_append ev now None) = synthetic ev c (io_ts_ns ev)" "bf_bytes (buf_append ev now None) = c"
    by (simp_all add: flush_def buf_append_def synthetic_upd Let_def assms(2))
  then show ?thesis
    using whole_headD [OF assms] unfolding buf_step_def Let_def assms(2) stream_done_def by simp
qed

lemma synthetic_half:
  assumes "whole_head ev" "captured ev = c" "synthetic ev c (io_ts_ns ev) = sev"
  shows "captured sev = c" "io_dir sev = io_dir ev" "io_tgid sev = io_tgid ev" "io_fd sev = io_fd ev"
    "io_ts_ns sev = io_ts_ns ev" "\<not> is_neg (io_ret sev)" "io_cgroup_id sev = io_cgroup_id ev"
proof -
  note n = whole_headD(5) [OF assms(1,2)]
  have u: "unat (of_nat (length c) :: u16) = length c"
    using n by (simp add: unat_of_nat take_bit_nat_eq_self)
  show "captured sev = c"
    using n u unfolding assms(3) [symmetric] by (simp add: synthetic_def Let_def SOCK_IO_PREFIX_LEN_def zero_padded_def)
  have "sint (of_nat (length c) :: i64) = int (length c)"
    using n signed_take_bit_int_eq_self [of 63 "int (length c)"] by (simp add: signed_of_nat)
  then show "\<not> is_neg (io_ret sev)"
    using n unfolding assms(3) [symmetric] by (simp add: synthetic_def Let_def SOCK_IO_PREFIX_LEN_def)
qed (simp_all add: assms(3) [symmetric] synthetic_def Let_def)

lemma whole_head_push:
  assumes "whole_head ev" "captured ev = c" "hm_wf (rs_bufs r)" "\<And>d. hm_get (rs_bufs r) \<lparr>ky_tgid = io_tgid ev, ky_fd = io_fd ev, ky_dir = d\<rparr> = None"
  obtains r' where "reassembler_push ev now r = (Some (synthetic ev c (io_ts_ns ev)), r')" "hm_wf (rs_bufs r')"
    "\<And>d. hm_get (rs_bufs r') \<lparr>ky_tgid = io_tgid ev, ky_fd = io_fd ev, ky_dir = d\<rparr> = None"
proof -
  obtain dir where dir: "IoDir_from_u8 (io_dir ev) = Some dir" "\<not> is_neg (io_ret ev)"
    using assms(1) by (auto simp: whole_head_def)
  let ?k = "\<lparr>ky_tgid = io_tgid ev, ky_fd = io_fd ev, ky_dir = IoDir_u8 dir\<rparr>"
  have key: "push_key ev = Some ?k"
    using dir whole_headD(6) [OF assms(1,2)] unfolding push_key_def assms(2) by simp
  have none: "hm_get (hm_retain (\<lambda>_ b. now - bf_at b \<le> TIMEOUT) (rs_bufs r)) \<lparr>ky_tgid = io_tgid ev, ky_fd = io_fd ev, ky_dir = d\<rparr> = None" for d
    using assms(3,4) by (simp add: hm.get_ret)
  note slot = reassembler_step_slot [OF assms(3) refl, of ev now]
  have "hm_get (rs_bufs (snd (reassembler_push ev now r))) \<lparr>ky_tgid = io_tgid ev, ky_fd = io_fd ev, ky_dir = d\<rparr> = None" for d
    using slot none whole_head_flush [OF assms(1,2), of now] by (simp add: Let_def)
  moreover have "fst (reassembler_push ev now r) = Some (synthetic ev c (io_ts_ns ev))"
    using slot none whole_head_flush [OF assms(1,2), of now] key by simp
  ultimately show thesis
    using slot by (intro that [of "snd (reassembler_push ev now r)"]) (auto simp: prod_eq_iff)
qed

definition http1_idle :: "Agent \<Rightarrow> u32 \<Rightarrow> i32 \<Rightarrow> bool" where
  "http1_idle a tgid fd \<longleftrightarrow> \<not> h2_is_marked (an_h2 a) tgid fd \<and> hm_wf (rs_bufs (an_reassembler a)) \<and>
    hm_wf (co_states (an_correlator a)) \<and>
    (\<forall>d. hm_get (rs_bufs (an_reassembler a)) \<lparr>ky_tgid = tgid, ky_fd = fd, ky_dir = d\<rparr> = None)"

definition same_ids :: "Agent \<Rightarrow> Agent \<Rightarrow> bool" where
  "same_ids b a \<longleftrightarrow> an_identity b = an_identity a \<and> an_self_ids b = an_self_ids a \<and> an_bpf_ids b = an_bpf_ids a"

lemma ingest_whole_head:
  assumes "is_passthrough filt" "whole_head ev" "captured ev = c" "http1_idle a (io_tgid ev) (io_fd ev)"
    and "correlate_step (synthetic ev c (io_ts_ns ev), False) now (an_correlator a) = (ex, co)"
  obtains b where "ingest_http_io ou filt ev False False now a = (case ex of None \<Rightarrow> b | Some x \<Rightarrow> handle_exchange ou x now False b)"
    "an_correlator b = co" "an_http b = an_http a" "an_service_map b = an_service_map a" "an_export b = an_export a"
    "http1_idle b (io_tgid ev) (io_fd ev)" "same_ids b a"
proof -
  have idle: "\<not> h2_is_marked (an_h2 a) (io_tgid ev) (io_fd ev)" "hm_wf (rs_bufs (an_reassembler a))"
    "\<And>d. hm_get (rs_bufs (an_reassembler a)) \<lparr>ky_tgid = io_tgid ev, ky_fd = io_fd ev, ky_dir = d\<rparr> = None"
    "hm_wf (co_states (an_correlator a))"
    using assms(4) by (simp_all add: http1_idle_def)
  obtain r' where r': "reassembler_push ev now (an_reassembler a) = (Some (synthetic ev c (io_ts_ns ev)), r')" "hm_wf (rs_bufs r')"
    "\<And>d. hm_get (rs_bufs r') \<lparr>ky_tgid = io_tgid ev, ky_fd = io_fd ev, ky_dir = d\<rparr> = None"
    by (rule whole_head_push [OF assms(2,3) idle(2,3)]) blast
  let ?s = "synthetic ev c (io_ts_ns ev)"
  let ?f = "fold clear_inflight (rs_unmark r') (a\<lparr>an_reassembler := r'\<lparr>rs_unmark := []\<rparr>\<rparr>)"
  let ?b = "clear_inflight (io_tgid ?s, io_fd ?s) (?f\<lparr>an_reasm_count := Suc (an_reasm_count a)\<rparr>)\<lparr>an_correlator := co\<rparr>"
  have obs: "observe ?s now (an_correlator a) = (ex, co)"
    using assms(5) by (simp add: correlate_step_def)
  have wf: "hm_wf (co_states co)"
    using correlate_step_slot [OF idle(4) refl, of "(?s, False)" now] assms(5) by simp
  have "drop_if_http11 ev a = a"
    using idle(1) by (simp add: drop_if_http11_def)
  then have "ingest_http_io ou filt ev False False now a = (case ex of None \<Rightarrow> ?b | Some x \<Rightarrow> handle_exchange ou x now False ?b)"
    using assms(1) idle(1) whole_headD(1,4) [OF assms(2,3)]
    by (simp add: ingest_http_io_def ingest_http1_def r'(1) reassembler_take_unmark_def Let_def cleared obs)
  then show thesis
    using r' idle wf by (intro that [of ?b]) (simp_all add: cleared http1_idle_def same_ids_def)
qed

lemma head_slot:
  assumes "whole_head ev" "captured ev = c" "hm_wf (co_states co)" "SockKey_from_event ev = key" "IoDir_from_u8 (io_dir ev) = Some dir"
    and "hm_get (hm_retain (\<lambda>_ s. now - pn_at s \<le> TIMEOUT) (co_states co)) key = old"
  defines "sev \<equiv> synthetic ev c (io_ts_ns ev)"
  shows "fst (correlate_step (sev, False) now co) = fst (slot_step (sev, False) now old)"
    "hm_get (co_states (snd (correlate_step (sev, False) now co))) key = snd (slot_step (sev, False) now old)"
proof -
  have "SockKey_from_event sev = key" "IoDir_from_u8 (io_dir sev) = Some dir"
    using synthetic_half [OF assms(1,2) refl] assms(4,5) by (simp_all add: sev_def SockKey_from_event_def)
  then show "fst (correlate_step (sev, False) now co) = fst (slot_step (sev, False) now old)"
    "hm_get (co_states (snd (correlate_step (sev, False) now co))) key = snd (slot_step (sev, False) now old)"
    using correlate_step_slot [OF assms(3) refl, of "(sev, False)" now key] assms(6) by (simp_all add: event_key_def Let_def)
qed

text \<open>An exchange that parses is published once.\<close>

lemma handle_exchange_published:
  assumes "parse_exchange (ou_parse_req ou) (ou_parse_resp ou) ex = Some parsed"
    and "\<not> is_otlp_export_route (ep_method (px_endpoint parsed)) (ep_path (px_endpoint parsed))"
  shows "an_http (handle_exchange ou ex now False a) = HttpAggregator_record parsed now (an_http a) \<and>
    (\<exists>rc. mr_endpoint rc = px_endpoint parsed \<and> mr_latency_ns rc = px_latency_ns parsed \<and> mr_status rc = px_status parsed \<and>
      an_service_map (handle_exchange ou ex now False a) = ServiceMap_record rc now (an_service_map a)) \<and>
    eh_http_total (an_export (handle_exchange ou ex now False a)) = eh_http_total (an_export a) + 1 \<and>
    eh_http_errors (an_export (handle_exchange ou ex now False a)) =
      eh_http_errors (an_export a) + (if px_status parsed \<ge> 500 then 1 else 0)"
proof -
  obtain q b where b: "(if ex_peer ex = None then lookup_peer (ex_tgid ex) (ex_fd ex) now a else (ex_peer ex, a)) = (q, b)"
    by force
  then have f: "an_http b = an_http a" "an_service_map b = an_service_map a" "an_export b = an_export a"
    using lookup_peer_fields [of "ex_tgid ex" "ex_fd ex" now a] by (auto split: if_splits)
  have h: "handle_exchange ou ex now False a = publish_parsed ou (ex_tgid ex) (ex_fd ex) 0 (ex_t_start_ns ex) (ex_req_is_write ex) q
      (ex_cgroup_id ex) parsed now b"
    by (simp add: handle_exchange_def b assms(1) join_exchange_def)
  show ?thesis
    by (rule publish_parsed_cases [OF assms(2) h [symmetric]]) (auto simp: f record_exchange_keeps)
qed

lemma request_half:
  assumes "is_passthrough filt" "whole_head ev" "captured ev = c" "IoDir_from_u8 (io_dir ev) = Some d" "looks_like_request c"
    and "http1_idle a (io_tgid ev) (io_fd ev)" "hm_get (co_states (an_correlator a)) (SockKey_from_event ev) = None"
  obtains b where "ingest_http_io ou filt ev False False now a = b" "an_http b = an_http a" "an_service_map b = an_service_map a"
    "an_export b = an_export a" "http1_idle b (io_tgid ev) (io_fd ev)" "same_ids b a"
    "hm_get (co_states (an_correlator b)) (SockKey_from_event ev) = Some (new_pending d c (synthetic ev c (io_ts_ns ev)) now)"
proof -
  let ?s = "synthetic ev c (io_ts_ns ev)" and ?key = "SockKey_from_event ev"
  have wf: "hm_wf (co_states (an_correlator a))"
    using assms(6) by (simp add: http1_idle_def)
  have none: "hm_get (hm_retain (\<lambda>_ s. now - pn_at s \<le> TIMEOUT) (co_states (an_correlator a))) ?key = None"
    using wf assms(7) by (simp add: hm.get_ret)
  have slot: "slot_step (?s, False) now None = (None, Some (new_pending d c ?s now))"
    using assms(4,5) synthetic_half [OF assms(2,3) refl] by (simp add: slot_step_def starts_exchange_def)
  obtain co where co: "correlate_step (?s, False) now (an_correlator a) = (None, co)"
    "hm_get (co_states co) ?key = Some (new_pending d c ?s now)"
    using head_slot [OF assms(2,3) wf refl assms(4) none] slot by (cases "correlate_step (?s, False) now (an_correlator a)") simp
  obtain b where b: "ingest_http_io ou filt ev False False now a = b" "an_correlator b = co" "an_http b = an_http a"
    "an_service_map b = an_service_map a" "an_export b = an_export a" "http1_idle b (io_tgid ev) (io_fd ev)" "same_ids b a"
    by (rule ingest_whole_head [OF assms(1,2,3,6) co(1), of ou]) simp
  show thesis
    by (rule that [OF b(1,3,4,5,6,7)]) (simp add: b(2) co(2))
qed

lemma response_half:
  assumes "is_passthrough filt" "whole_head ev" "captured ev = c" "IoDir_from_u8 (io_dir ev) = Some d" "looks_like_response c"
    and "http1_idle a (io_tgid ev) (io_fd ev)" "hm_get (co_states (an_correlator a)) (SockKey_from_event ev) = Some q"
    and "now - pn_at q \<le> TIMEOUT" "pn_dir q \<noteq> d"
  obtains b where "ingest_http_io ou filt ev False False now a =
      handle_exchange ou (exchange_of (synthetic ev c (io_ts_ns ev)) q) now False b"
    "an_http b = an_http a" "an_service_map b = an_service_map a" "an_export b = an_export a"
proof -
  let ?s = "synthetic ev c (io_ts_ns ev)" and ?key = "SockKey_from_event ev"
  have wf: "hm_wf (co_states (an_correlator a))"
    using assms(6) by (simp add: http1_idle_def)
  have some: "hm_get (hm_retain (\<lambda>_ s. now - pn_at s \<le> TIMEOUT) (co_states (an_correlator a))) ?key = Some q"
    using wf assms(7,8) by (simp add: hm.get_ret)
  have slot: "slot_step (?s, False) now (Some q) = (Some (exchange_of ?s q), None)"
    using assms(4,5,9) synthetic_half [OF assms(2,3) refl] by (simp add: slot_step_def ends_exchange_def)
  obtain co where co: "correlate_step (?s, False) now (an_correlator a) = (Some (exchange_of ?s q), co)"
    using head_slot [OF assms(2,3) wf refl assms(4) some] slot by (cases "correlate_step (?s, False) now (an_correlator a)") simp
  obtain b where b: "ingest_http_io ou filt ev False False now a = handle_exchange ou (exchange_of ?s q) now False b"
    "an_http b = an_http a" "an_service_map b = an_service_map a" "an_export b = an_export a"
    by (rule ingest_whole_head [OF assms(1,2,3,6) co, of ou]) simp
  show thesis
    by (rule that [OF b])
qed

text \<open>The drain loop keeps an event: the process is not the agent itself, and the filter admits its name.\<close>

definition keeps_io :: "Outside \<Rightarrow> CommFilter \<Rightarrow> instant \<Rightarrow> Agent \<Rightarrow> SockIoEvent \<Rightarrow> bool" where
  "keeps_io ou filt now a ev \<longleftrightarrow>
    classify_ingest (io_tgid ev) (io_pid ev) (an_self_ids a @ an_bpf_ids a)
      (fst (comm_pair (ou_fs ou) (io_tgid ev) (io_pid ev) now (an_identity a))) filt = Keep"

lemma ingest_record_io:
  assumes "decode_event item = Some (DIo ev)" "keeps_io ou filt now a ev"
  obtains a' where "a' = a\<lparr>an_identity := snd (comm_pair (ou_fs ou) (io_tgid ev) (io_pid ev) now (an_identity a)),
      an_sockio_count := an_sockio_count a + 1\<rparr>"
    and "ingest_record ou filt tco calib item now a =
      (let b = ingest_http_io ou filt ev False False now a' in b\<lparr>an_events_in_tick := an_events_in_tick b + 1\<rparr>)"
proof -
  obtain c i where ci: "comm_pair (ou_fs ou) (io_tgid ev) (io_pid ev) now (an_identity a) = (c, i)"
    by force
  then have "classify_ingest (io_tgid ev) (io_pid ev) (an_self_ids a @ an_bpf_ids a) c filt = Keep"
    using assms(2) by (simp add: keeps_io_def)
  then have "ingest_record ou filt tco calib item now a =
      (let b = ingest_http_io ou filt ev False False now (a\<lparr>an_identity := i, an_sockio_count := an_sockio_count a + 1\<rparr>)
       in b\<lparr>an_events_in_tick := an_events_in_tick b + 1\<rparr>)"
    using assms(1) ci by (simp add: ingest_record_def learn_ids_def ingest_kept_def Let_def)
  then show thesis
    using that ci by simp
qed

text \<open>A request head drained from the ring buffer publishes nothing and is left pending.\<close>

lemma request_drained:
  assumes "is_passthrough filt" "whole_head ev" "decode_event item = Some (DIo ev)" "keeps_io ou filt now a ev"
    and "captured ev = c" "IoDir_from_u8 (io_dir ev) = Some d" "looks_like_request c"
    and "http1_idle a (io_tgid ev) (io_fd ev)" "hm_get (co_states (an_correlator a)) (SockKey_from_event ev) = None"
  obtains b where "ingest_record ou filt tco calib item now a = b" "an_http b = an_http a"
    "an_service_map b = an_service_map a" "an_export b = an_export a" "http1_idle b (io_tgid ev) (io_fd ev)"
    "hm_get (co_states (an_correlator b)) (SockKey_from_event ev) = Some (new_pending d c (synthetic ev c (io_ts_ns ev)) now)"
    "an_identity b = snd (comm_pair (ou_fs ou) (io_tgid ev) (io_pid ev) now (an_identity a))"
    "an_self_ids b = an_self_ids a" "an_bpf_ids b = an_bpf_ids a"
proof -
  obtain a' where a': "a' = a\<lparr>an_identity := snd (comm_pair (ou_fs ou) (io_tgid ev) (io_pid ev) now (an_identity a)),
      an_sockio_count := an_sockio_count a + 1\<rparr>"
    and rec: "ingest_record ou filt tco calib item now a =
      (let b = ingest_http_io ou filt ev False False now a' in b\<lparr>an_events_in_tick := an_events_in_tick b + 1\<rparr>)"
    by (rule ingest_record_io [OF assms(3,4), of tco calib])
  have idle: "http1_idle a' (io_tgid ev) (io_fd ev)" "hm_get (co_states (an_correlator a')) (SockKey_from_event ev) = None"
    using assms(8,9) by (simp_all add: a' http1_idle_def)
  obtain b where b: "ingest_http_io ou filt ev False False now a' = b" "an_http b = an_http a'"
    "an_service_map b = an_service_map a'" "an_export b = an_export a'" "http1_idle b (io_tgid ev) (io_fd ev)" "same_ids b a'"
    "hm_get (co_states (an_correlator b)) (SockKey_from_event ev) = Some (new_pending d c (synthetic ev c (io_ts_ns ev)) now)"
    by (rule request_half [OF assms(1,2,5,6,7) idle, of ou now])
  have ids: "an_identity b = an_identity a'" "an_self_ids b = an_self_ids a'" "an_bpf_ids b = an_bpf_ids a'"
    using b(6) by (simp_all add: same_ids_def)
  show thesis
    using b(2-5,7) ids rec unfolding b(1) Let_def
    by (intro that [of "b\<lparr>an_events_in_tick := an_events_in_tick b + 1\<rparr>"]) (simp_all add: a' http1_idle_def)
qed

lemma response_drained:
  assumes "is_passthrough filt" "whole_head ev" "decode_event item = Some (DIo ev)" "keeps_io ou filt now a ev"
    and "captured ev = c" "IoDir_from_u8 (io_dir ev) = Some d" "looks_like_response c"
    and "http1_idle a (io_tgid ev) (io_fd ev)" "hm_get (co_states (an_correlator a)) (SockKey_from_event ev) = Some q"
    and "now - pn_at q \<le> TIMEOUT" "pn_dir q \<noteq> d"
  obtains b b' where "b' = handle_exchange ou (exchange_of (synthetic ev c (io_ts_ns ev)) q) now False b"
    "ingest_record ou filt tco calib item now a = b'\<lparr>an_events_in_tick := an_events_in_tick b' + 1\<rparr>"
    "an_http b = an_http a" "an_service_map b = an_service_map a" "an_export b = an_export a"
proof -
  obtain a' where a': "a' = a\<lparr>an_identity := snd (comm_pair (ou_fs ou) (io_tgid ev) (io_pid ev) now (an_identity a)),
      an_sockio_count := an_sockio_count a + 1\<rparr>"
    and rec: "ingest_record ou filt tco calib item now a =
      (let b = ingest_http_io ou filt ev False False now a' in b\<lparr>an_events_in_tick := an_events_in_tick b + 1\<rparr>)"
    by (rule ingest_record_io [OF assms(3,4), of tco calib])
  have idle: "http1_idle a' (io_tgid ev) (io_fd ev)" "hm_get (co_states (an_correlator a')) (SockKey_from_event ev) = Some q"
    using assms(8,9) by (simp_all add: a' http1_idle_def)
  obtain b where b: "ingest_http_io ou filt ev False False now a' =
      handle_exchange ou (exchange_of (synthetic ev c (io_ts_ns ev)) q) now False b"
    "an_http b = an_http a'" "an_service_map b = an_service_map a'" "an_export b = an_export a'"
    by (rule response_half [OF assms(1,2,5,6,7) idle assms(10,11), of ou])
  show thesis
    using b(2-4) rec unfolding b(1) Let_def by (intro that [OF refl, of b]) (simp_all add: a')
qed

text \<open>A request head and then a response head, drained from the ring buffer, are published as one exchange.\<close>

lemma http1_drained:
  assumes "is_passthrough filt" "whole_head req" "whole_head resp"
    and "decode_event item = Some (DIo req)" "decode_event item' = Some (DIo resp)"
    and "keeps_io ou filt now a req" "keeps_io ou filt now' a1 resp"
    and "io_tgid resp = io_tgid req" "io_fd resp = io_fd req" "io_dir resp \<noteq> io_dir req"
    and "looks_like_request (event_chunk req)" "looks_like_response (event_chunk resp)"
    and "http1_idle a (io_tgid req) (io_fd req)" "hm_get (co_states (an_correlator a)) (SockKey_from_event req) = None"
    and "now' - now \<le> TIMEOUT"
    and "ou_parse_req ou (event_chunk req) = Some (Some verb, Some path)"
    and "ou_parse_resp ou (event_chunk resp) = Some (Some status)"
    and "route = normalize_path (hd (split_on CHR ''?'' path))" "\<not> is_otlp_export_route verb route"
    and "ingest_record ou filt tco calib item now a = a1"
  obtains b b' rc where "ingest_record ou filt tco calib item' now' a1 = b'\<lparr>an_events_in_tick := an_events_in_tick b' + 1\<rparr>"
    "an_http a1 = an_http a" "an_service_map a1 = an_service_map a" "an_export a1 = an_export a"
    "an_http b' = HttpAggregator_record \<lparr>px_endpoint = HttpEndpoint_http verb route, px_status = status,
      px_latency_ns = sat_sub (io_ts_ns resp) (io_ts_ns req), px_wire_ns = None\<rparr> now' (an_http a)"
    "mr_endpoint rc = HttpEndpoint_http verb route" "mr_latency_ns rc = sat_sub (io_ts_ns resp) (io_ts_ns req)"
    "mr_status rc = status" "an_service_map b' = ServiceMap_record rc now' (an_service_map a)"
    "eh_http_total (an_export b') = eh_http_total (an_export a) + 1"
    "eh_http_errors (an_export b') = eh_http_errors (an_export a) + (if status \<ge> 500 then 1 else 0)"
proof -
  obtain c c' where c: "captured req = c" "captured resp = c'"
    by simp
  note chunks = whole_headD(1) [OF assms(2) c(1)] whole_headD(1) [OF assms(3) c(2)]
  obtain d d' where d: "IoDir_from_u8 (io_dir req) = Some d" "IoDir_from_u8 (io_dir resp) = Some d'"
    using assms(2,3) by (auto simp: whole_head_def)
  then have "d \<noteq> d'"
    using assms(10) IoDir_from_u8_Some by metis
  let ?q = "new_pending d c (synthetic req c (io_ts_ns req)) now"
  obtain b1 where b1: "ingest_record ou filt tco calib item now a = b1" "an_http b1 = an_http a"
    "an_service_map b1 = an_service_map a" "an_export b1 = an_export a" "http1_idle b1 (io_tgid req) (io_fd req)"
    "hm_get (co_states (an_correlator b1)) (SockKey_from_event req) = Some ?q"
    by (rule request_drained [OF assms(1,2,4,6) c(1) d(1) assms(11) [unfolded chunks] assms(13,14), of tco calib])
  note a1 = b1(2-6) [unfolded b1(1) [symmetric] assms(20)]
  have q: "now' - pn_at ?q \<le> TIMEOUT" "pn_dir ?q \<noteq> d'"
    using assms(15) \<open>d \<noteq> d'\<close> by (simp_all add: new_pending_def)
  let ?ex = "exchange_of (synthetic resp c' (io_ts_ns resp)) ?q"
  have idle: "http1_idle a1 (io_tgid resp) (io_fd resp)" "hm_get (co_states (an_correlator a1)) (SockKey_from_event resp) = Some ?q"
    using a1(4,5) assms(8,9) by (simp_all add: SockKey_from_event_def)
  obtain b b' where b: "b' = handle_exchange ou ?ex now' False b"
    "ingest_record ou filt tco calib item' now' a1 = b'\<lparr>an_events_in_tick := an_events_in_tick b' + 1\<rparr>"
    "an_http b = an_http a1" "an_service_map b = an_service_map a1" "an_export b = an_export a1"
    by (rule response_drained [OF assms(1,3,5,7) c(2) d(2) assms(12) [unfolded chunks] idle q, of tco calib])
  have "parse_exchange (ou_parse_req ou) (ou_parse_resp ou) ?ex = Some \<lparr>px_endpoint = HttpEndpoint_http verb route, px_status = status,
      px_latency_ns = sat_sub (io_ts_ns resp) (io_ts_ns req), px_wire_ns = None\<rparr>"
    using assms(16-18) chunks synthetic_half [OF assms(2) c(1) refl] synthetic_half [OF assms(3) c(2) refl]
    by (simp add: parse_exchange_def exchange_of_def new_pending_def Exchange_latency_ns_def Let_def)
  note published = handle_exchange_published [OF this, of now' b]
  show thesis
    using published assms(19) a1(1-3) b
    by (auto simp: HttpEndpoint_http_def HttpEndpoint_labeled_def intro: that [where b' = b'])
qed

text \<open>C5. One HTTP/1 exchange, from two records of the ring buffer to the exporters. The first record decodes to a
  cleartext event that carries a whole request head in its at most 256 bytes, and the second to one that carries a whole
  response head, on the same descriptor, in the other direction and no later than the timeout. The descriptor has no
  HTTP/2 connection, no buffered bytes and no pending message before; the filter passes every process, and neither event
  is the agent's own; the parsers give method, path and status; and the route is not one of the agent's OTLP exports.
  Then exactly one exchange is published. Nothing is published after the request; after the response the HTTP rows and
  the service map have recorded one exchange with the parsed method, the normalised path without its query, the parsed
  status and the time between the two events, and the exporter has counted one request, and one error for a status of
  500 or more.\<close>

theorem http1_end_to_end:
  assumes "is_passthrough filt" "whole_head req" "whole_head resp"
    and "decode_event item = Some (DIo req)" "decode_event item' = Some (DIo resp)"
    and "keeps_io ou filt now a req" "keeps_io ou filt now' a1 resp"
    and "io_tgid resp = io_tgid req" "io_fd resp = io_fd req" "io_dir resp \<noteq> io_dir req"
    and "looks_like_request (event_chunk req)" "looks_like_response (event_chunk resp)"
    and "http1_idle a (io_tgid req) (io_fd req)" "hm_get (co_states (an_correlator a)) (SockKey_from_event req) = None"
    and "now' - now \<le> TIMEOUT"
    and "ou_parse_req ou (event_chunk req) = Some (Some verb, Some path)"
    and "ou_parse_resp ou (event_chunk resp) = Some (Some status)"
    and "route = normalize_path (hd (split_on CHR ''?'' path))" "\<not> is_otlp_export_route verb route"
    and "ingest_record ou filt tco calib item now a = a1" "ingest_record ou filt tco calib item' now' a1 = a2"
  shows "an_http a1 = an_http a \<and> an_service_map a1 = an_service_map a \<and> an_export a1 = an_export a \<and>
    an_http a2 = HttpAggregator_record \<lparr>px_endpoint = HttpEndpoint_http verb route, px_status = status,
      px_latency_ns = sat_sub (io_ts_ns resp) (io_ts_ns req), px_wire_ns = None\<rparr> now' (an_http a) \<and>
    (\<exists>rc. mr_endpoint rc = HttpEndpoint_http verb route \<and> mr_latency_ns rc = sat_sub (io_ts_ns resp) (io_ts_ns req) \<and>
      mr_status rc = status \<and> an_service_map a2 = ServiceMap_record rc now' (an_service_map a)) \<and>
    eh_http_total (an_export a2) = eh_http_total (an_export a) + 1 \<and>
    eh_http_errors (an_export a2) = eh_http_errors (an_export a) + (if status \<ge> 500 then 1 else 0)"
  by (rule http1_drained [OF assms(1-20)]) (auto simp: assms(21) [symmetric])

definition demo_agent :: Agent where
  "demo_agent = Agent_init demo_env (IdentityResolver_new ''/proc'') [] True 1 None 1"

definition demo_outside :: Outside where
  "demo_outside = \<lparr>ou_fs = (\<lambda>_. None), ou_parse_req = (\<lambda>b. Some (Some ''GET'', Some ''/'')),
    ou_parse_resp = (\<lambda>b. Some (Some 503)), ou_now_unix = 9\<rparr>"

definition demo_filter :: CommFilter where
  "demo_filter = \<lparr>cf_deny = [], cf_allow = None\<rparr>"

definition demo_head :: "u8 \<Rightarrow> bytes \<Rightarrow> u64 \<Rightarrow> SockIoEvent" where
  "demo_head dir b ts = demo_io\<lparr>io_dir := dir, io_prefix_len := of_nat (length b), io_ret := 14, io_ts_ns := ts,
    io_prefix := zero_padded 256 b\<rparr>"

text \<open>The bytes of \<open>GET / \<close> and of \<open>HTTP/1 503\<close>, each with the end of its head.\<close>

abbreviation demo_request :: bytes where
  "demo_request \<equiv> [71, 69, 84, 32, 47, 32, 13, 10, 13, 10]"

abbreviation demo_response :: bytes where
  "demo_response \<equiv> [72, 84, 84, 80, 47, 49, 32, 53, 48, 51, 13, 10, 13, 10]"

definition demo_q :: SockIoEvent where
  "demo_q = demo_head 2 demo_request 100"

definition demo_r :: SockIoEvent where
  "demo_r = demo_head 1 demo_response 350"

definition demo_a1 :: Agent where
  "demo_a1 = ingest_record demo_outside demo_filter False 0 (encode_event (DIo demo_q)) 5 demo_agent"

definition demo_a2 :: Agent where
  "demo_a2 = ingest_record demo_outside demo_filter False 0 (encode_event (DIo demo_r)) 6 demo_a1"

lemma demo_chunks: "event_chunk demo_q = demo_request" "event_chunk demo_r = demo_response"
  by (simp_all add: event_chunk_def demo_q_def demo_r_def demo_head_def zero_padded_def)

lemma demo_plain: "\<not> looks_like_h2 demo_request" "\<not> looks_like_h2 demo_response"
  by (simp_all add: looks_like_h2_def looks_like_preface_def looks_like_frame_def FrameHeader_parse_def HEADER_LEN_def frame_types
      CLIENT_PREFACE_def bstr_def)

lemma demo_starts: "is_http_start demo_request" "is_http_start demo_response" "headers_done demo_request" "headers_done demo_response"
  by (simp_all add: is_http_start_iff HTTP_STARTS_def bstr_def headers_done_def windows_def)

lemma demo_heads:
  "whole_head demo_q" "whole_head demo_r" "looks_like_request (event_chunk demo_q)" "looks_like_response (event_chunk demo_r)"
  unfolding whole_head_def demo_chunks looks_like_request_def looks_like_response_def
  by (simp_all only: demo_plain demo_starts simp_thms)
    (simp_all add: demo_q_def demo_r_def demo_head_def zero_padded_def SOCK_IO_PREFIX_LEN_def IoDir_from_u8_def bstr_def)

lemma demo_decoded:
  "decode_event (encode_event (DIo demo_q)) = Some (DIo demo_q)" "decode_event (encode_event (DIo demo_r)) = Some (DIo demo_r)"
proof -
  have "event_wf (DIo demo_q)" "event_wf (DIo demo_r)"
    by (simp_all add: demo_q_def demo_r_def demo_head_def demo_io_def io_normal_def io_wf_def zero_padded_def SOCK_IO_PREFIX_LEN_def)
  then show "decode_event (encode_event (DIo demo_q)) = Some (DIo demo_q)" "decode_event (encode_event (DIo demo_r)) = Some (DIo demo_r)"
    by (auto dest: decode_encode [where rest = "[]"] simp del: event_wf.simps encode_event.simps)
qed

lemma demo_fields: "io_tgid demo_r = io_tgid demo_q" "io_fd demo_r = io_fd demo_q" "io_dir demo_r \<noteq> io_dir demo_q"
  "io_tgid demo_q = 10" "io_fd demo_q = 7" "io_pid demo_q = 11" "io_pid demo_r = 11" "IoDir_from_u8 (io_dir demo_q) = Some Write"
  by (simp_all add: demo_q_def demo_r_def demo_head_def demo_io_def IoDir_from_u8_def)

lemma demo_idle: "http1_idle demo_agent (io_tgid demo_q) (io_fd demo_q)"
  "hm_get (co_states (an_correlator demo_agent)) (SockKey_from_event demo_q) = None"
  by (simp_all add: http1_idle_def demo_agent_def Agent_init_def h2_is_marked_def H2Registry_default_def hm_contains_def
      Reassembler_default_def Correlator_default_def)

lemma demo_misc: "is_passthrough demo_filter" "(6 :: nat) - 5 \<le> TIMEOUT"
  "\<not> is_otlp_export_route ''GET'' (normalize_path (hd (split_on CHR ''?'' ''/'')))"
  "ou_parse_req demo_outside (event_chunk demo_q) = Some (Some ''GET'', Some ''/'')"
  "ou_parse_resp demo_outside (event_chunk demo_r) = Some (Some 503)"
  by (simp_all add: is_passthrough_def demo_filter_def TIMEOUT_def secs_def is_otlp_export_route_def eq_ignore_ascii_case_def
      demo_outside_def)

text \<open>No name can be read for the process, now or from the cache, and a process without a name is kept.\<close>

lemma demo_comm:
  "fst (comm_pair (ou_fs demo_outside) 10 11 5 (IdentityResolver_new ''/proc'')) = []"
  "fst (comm_pair (ou_fs demo_outside) 10 11 6 (snd (comm_pair (ou_fs demo_outside) 10 11 5 (IdentityResolver_new ''/proc'')))) = []"
proof -
  have none: "process_comm (ou_fs demo_outside) dir k = []" for dir k
    by (simp add: process_comm_def read_comm_def read_cmdline_basename_def read_to_string_def demo_outside_def Let_def)
  show "fst (comm_pair (ou_fs demo_outside) 10 11 5 (IdentityResolver_new ''/proc'')) = []"
    by (simp add: comm_pair_def comm_def IdentityResolver_new_def none remember_comm_def make_room_def CACHE_TTL_def CACHE_CAP_def
        secs_def hm_insert_def hm_get_def Let_def)
  show "fst (comm_pair (ou_fs demo_outside) 10 11 6 (snd (comm_pair (ou_fs demo_outside) 10 11 5 (IdentityResolver_new ''/proc'')))) = []"
    by (simp add: comm_pair_def comm_def IdentityResolver_new_def none remember_comm_def make_room_def CACHE_TTL_def CACHE_CAP_def
        secs_def hm_insert_def hm_get_def Let_def)
qed

lemma demo_kept: "keeps_io demo_outside demo_filter 5 demo_agent demo_q" "keeps_io demo_outside demo_filter 6 demo_a1 demo_r"
proof -
  have keep: "classify_ingest 10 11 [] [] demo_filter = Keep"
    by (simp add: classify_ingest_def is_self_ids_def is_self_comm_def SELF_COMM_def filter_allow_def demo_filter_def trim_def)
  have start: "an_identity demo_agent = IdentityResolver_new ''/proc''" "an_self_ids demo_agent = []" "an_bpf_ids demo_agent = []"
    by (simp_all add: demo_agent_def Agent_init_def)
  show q: "keeps_io demo_outside demo_filter 5 demo_agent demo_q"
    unfolding keeps_io_def demo_fields start demo_comm using keep by simp
  obtain c where c: "captured demo_q = c"
    by simp
  note req = demo_heads(3) [unfolded whole_headD(1) [OF demo_heads(1) c]]
  have "an_identity demo_a1 = snd (comm_pair (ou_fs demo_outside) 10 11 5 (IdentityResolver_new ''/proc''))"
    "an_self_ids demo_a1 = []" "an_bpf_ids demo_a1 = []"
    by (rule request_drained [OF demo_misc(1) demo_heads(1) demo_decoded(1) q c demo_fields(8) req demo_idle, of False 0];
        simp add: demo_a1_def demo_fields start)+
  then show "keeps_io demo_outside demo_filter 6 demo_a1 demo_r"
    unfolding keeps_io_def demo_fields using keep by (simp add: demo_comm)
qed

lemmas demo_run = demo_misc(1) demo_heads(1,2) demo_decoded demo_kept demo_fields(1-3) demo_heads(3,4) demo_idle demo_misc(2,4,5)
  refl demo_misc(3) demo_a1_def [symmetric]

theorem http1_end_to_end_witness:
  "an_http demo_a1 = an_http demo_agent \<and>
    an_http demo_a2 = HttpAggregator_record \<lparr>px_endpoint = HttpEndpoint_http ''GET'' ''/'', px_status = 503,
      px_latency_ns = 250, px_wire_ns = None\<rparr> 6 (an_http demo_agent) \<and>
    eh_http_total (an_export demo_a2) = eh_http_total (an_export demo_agent) + 1"
proof -
  have "normalize_path (hd (split_on CHR ''?'' ''/'')) = ''/''"
    by code_simp
  moreover have "sat_sub (io_ts_ns demo_r) (io_ts_ns demo_q) = 250"
    by (simp add: demo_q_def demo_r_def demo_head_def sat_sub_def)
  ultimately show ?thesis
    using http1_end_to_end [OF demo_run demo_a2_def [symmetric]] by simp
qed

text \<open>The run in which the agent drains these two records: every view has counted one exchange and one server error.\<close>

theorem agent_views_agree_witness:
  "edge_total ed_cum_count (an_service_map demo_a2) = 1 \<and> total_requests (eh_registry (an_export demo_a2)) = 1 \<and>
    edge_total ed_cum_errors (an_service_map demo_a2) = 1 \<and> total_errors (eh_registry (an_export demo_a2)) = 1 \<and>
    length (hr_conns (an_h2 demo_a2)) \<le> MAX_CONNS"
proof -
  have "agent_run demo_agent demo_a2"
    unfolding demo_a2_def demo_a1_def by (intro agent_run.item agent_run.start)
  note agree = agent_views_agree [OF this [unfolded demo_agent_def]]
  have "eh_http_total (an_export demo_agent) = 0" "eh_http_errors (an_export demo_agent) = 0"
    by (simp_all add: demo_agent_def Agent_init_def ExportHub_spawn_def Let_def)
  then have "eh_http_total (an_export demo_a2) = 1" "eh_http_errors (an_export demo_a2) = 1"
    by (rule_tac http1_drained [OF demo_run]; simp add: demo_a2_def)+
  then show ?thesis
    using agree by simp
qed

section \<open>Two behaviours worth knowing\<close>

text \<open>The status of an HTTP/2 exchange is its \<open>:status\<close>, also for gRPC, and the exporter reads it as a gRPC status: a
  gRPC call that succeeded is exported as failed.\<close>

theorem grpc_success_exported_as_error:
  "classify_protocol ''/slow.Slow/Sleep'' = ''grpc'' \<and> span_otel_status (classify_protocol ''/slow.Slow/Sleep'') 200 = STATUS_ERROR"
  by code_simp

text \<open>A server that accepts without asking for the peer's address gets a peer all the same, \<open>0.0.0.0:0\<close>, and
  not an unknown one.\<close>

theorem accept_without_address_has_peer:
  "(case peer_addr demo_ctx \<lparr>pe_ts_ns = 1, pe_daddr_be = 0, pe_dport_be = 0, pe_has_addr = 0, pe_sockaddr_ptr = 0\<rparr> 7 of
     (_, _, meta) \<Rightarrow> dst_from_index (PeerAddr_from_meta meta) PodIndex_default) = IpPort ''0.0.0.0:0''"
  by code_simp

end
