(* ===== verification/Spec2Isabelle.thy ===== *)
theory Spec2Isabelle
  imports H2_Chunking Agg Pipeline
begin

text \<open>
  \<^bold>\<open>Verification library of the eBPF observability agent.\<close>

  \<^bold>\<open>The program.\<close> Kernel programs (\<open>src/ebpf/src/main.rs\<close>) hook the socket system calls and the OpenSSL entry points.
  They measure call latencies, copy at most 256 bytes of each transfer, and write records (\<open>src/common/src/lib.rs\<close>)
  to a ring buffer. The user-space agent (\<open>src/agent/src/\<close>) drains the buffer. It decodes a record, drops the
  processes it must not observe, and recognises HTTP/1.1 and HTTP/2 in the bytes. HTTP/1.1 heads are put together
  and paired into exchanges; HTTP/2 connections are tracked frame by frame with an HPACK decoder. A finished
  exchange gets the names of its two ends from \<open>/proc\<close>, the cgroup index and the Kubernetes index, and goes to
  the rows of the screen, the service map, the metrics and the sampled traces. A timer flushes metrics and traces to
  a collector as OTLP JSON.

  \<^bold>\<open>Conventions.\<close> A struct is a record, an enum a datatype, a machine integer that wraps or saturates a word of its
  width. A \<open>HashMap\<close> is an association list with distinct keys (\<open>hm_insert\<close> and so on in \<open>Prelude\<close>); where the
  source iterates over one, the order is the order of the list. An \<open>Instant\<close> is a natural number of nanoseconds, and
  \<open>saturating\<close> differences of instants are differences of naturals. Counters that the source only increments are
  naturals. A \<open>String\<close> is the list of its bytes as characters. Floating-point numbers are exact rationals:
  rounding is not modelled. Operations take the state and return the new one; failures and panics are \<open>None\<close>. Third-party
  code is a parameter: \<open>httparse\<close>, \<open>hdrhistogram\<close>, \<open>serde_json\<close>, \<open>blazesym\<close>, the HTTP client,
  the file system, the clocks, random numbers and the kernel helpers.

  \<^bold>\<open>Theories, bottom up.\<close>
  \<^item> \<open>Prelude\<close>, \<open>Strings\<close>: words, byte strings, containers, \<open>str\<close> operations, and the interfaces below.
  \<^item> \<open>Abi\<close> (\<open>src/common/src/lib.rs\<close>): records, constants, \<open>SockMeta\<close> flags, copy bounds.
  \<^item> \<open>Decode\<close> (\<open>decode.rs\<close>, \<open>stack_decode.rs\<close>): the demultiplexer inverts what the probes write and refuses
    every truncation.
  \<^item> \<open>Probes\<close> (\<open>src/ebpf/src/main.rs\<close>): all maps in the record \<open>Bpf\<close>, one definition per program, \<open>run_probe\<close> for
    all of them. One run emits at most one event, about the running task, and its bytes are those of the buffer of the call
    that the task had pending, then zeros; after a close no new call on the descriptor is observed until it is marked
    again, while a call under way at the close may still be; a sampling decision sticks.
  \<^item> \<open>Reassemble\<close>, \<open>Correlate\<close>, \<open>Http\<close> (\<open>reassemble.rs\<close>, \<open>correlate.rs\<close>, \<open>http.rs\<close>): HTTP/1.1 heads, the pairing of
    requests and responses, path normalisation, redaction. Both stateful parts are refined to one small machine per key.
  \<^item> \<open>H2_Frame\<close>, \<open>Huffman_Code\<close>, \<open>Huffman\<close>, \<open>Hpack\<close> (\<open>h2/frame.rs\<close>, \<open>h2/hpack.rs\<close>): frame headers, the Huffman table
    as a complete prefix code, the decoder against the RFC 7541 meaning of a field sequence, with the agent's own limit of
    32 dynamic entries, which the RFC does not have.
  \<^item> \<open>H2_Conn\<close>, \<open>H2_Invariants\<close>, \<open>H2_Chunking\<close> (\<open>h2/conn.rs\<close>): the tracker and its pairing, also when a stream is refused; that
    the result does not depend on how the byte stream is cut; and the bounds of all its tables.
  \<^item> \<open>Agg\<close> (\<open>agg.rs\<close>, \<open>http_agg.rs\<close>), \<open>Service_Map\<close> (\<open>service_map.rs\<close>), \<open>Dual_Plane\<close> (\<open>dual_plane.rs\<close>), \<open>Metrics\<close>
    (\<open>metrics_registry.rs\<close>): what is shown is exactly what the last minute, or the whole history, recorded.
  \<^item> \<open>Identity\<close> (\<open>identity.rs\<close>, \<open>cgroup_index.rs\<close>), \<open>K8s_Index\<close> (\<open>k8s_index.rs\<close>), \<open>Sampling\<close> (\<open>sample.rs\<close>,
    \<open>peer_cache.rs\<close>), \<open>Comm_Filter\<close> (\<open>filter.rs\<close> and the capture maps of \<open>main.rs\<close>): names, caches and policies. A refresh of
    the Kubernetes index installs whole lists only.
  \<^item> \<open>Json\<close>, \<open>Trace\<close> (\<open>trace_export.rs\<close>), \<open>Profile\<close> (\<open>profile.rs\<close>, \<open>symbolize.rs\<close>), \<open>Export\<close> (\<open>export.rs\<close>): what leaves
    the agent is JSON with the queued spans grouped by service, and every sampled span is queued, delivered or counted as
    failed.
  \<^item> \<open>Pipeline\<close> (\<open>main.rs\<close>): the drain loop, the tick and the start over one record \<open>Agent\<close> of all components;
    the agreement of all views on exchanges and server errors in every run, and one cleartext HTTP/1 exchange whose two heads
    are whole, from its two records of the ring buffer to the exporters.

  \<^bold>\<open>Interfaces.\<close> \<open>map_laws\<close> (a lookup after an update), \<open>ttl_store\<close> and \<open>ttl_cache\<close> (entries aged by last use, bounded
  caches), \<open>rolling_window\<close> and \<open>windowed_aggregate\<close> (queues pruned by age and the tables made of them),
  \<open>capped_registry\<close> (a bounded table with one overflow entry), \<open>keyed_machine\<close> (one machine per key, aged),
  \<open>event_codec\<close> (a layout written and read), and \<open>frame_invariant\<close> (a property lifted through the HTTP/2 frame loops).
  Each is interpreted on the definitions of the components that provide it.

  \<^bold>\<open>Termination.\<close> The loops of the agent are total functions with a termination proof. The HTTP/2 loops
  \<open>drain_loop\<close> and \<open>push_loop\<close> decrease with the bytes that are left. The fuel of the Kubernetes paging
  loop (\<open>list_pages\<close>) is the source's own limit of 512 pages, and running out of it is the source's error. No other
  definition has fuel.

  \<^bold>\<open>Concurrency.\<close> The drain task is the only one that changes most of the agent's state. The others are steps of
  \<open>agent_run\<close>: index refreshes, capture sweeps, stack samples, flushes and the kernel's changes of its maps, in any
  order. A lock is held for one access; a flush is one step in \<open>agent_run\<close>, while \<open>Export\<close> also interleaves
  recording between the drain of the queue and the answer of the collector. Kernel programs run one at a time: races
  between processors on one map entry are not modelled.

  \<^bold>\<open>Not modelled.\<close> Loading and attaching programs, reading the command line, the terminal view and the log lines
  (\<open>main.rs\<close>): they call the kernel and the crates \<open>aya\<close>, \<open>tokio\<close> and \<open>ratatui\<close>. Learning the agent's own ids by a
  connection to itself enters as the argument \<open>calib\<close> of \<open>ingest_record\<close>. The HTTP client and the timers of the
  exporter and the Kubernetes poller. Poisoned locks: the source takes the inner value, or in the exporter
  skips the update. Overflow of
  counters of 64 bits. \<open>smoke_probe\<close>, which only logs. Unit tests, build scripts, test servers and deployment
  files.
\<close>

end
